(* ===== verification/Prelude.thy ===== *)
theory Prelude
  imports
    Main
    "HOL-Library.Word"
    "HOL-Library.List_Lexorder"
    "HOL-Library.Char_ord"
    "HOL-Library.Multiset"
begin

text \<open>
  Shared vocabulary of the development.

  \<^item> Machine types: a Go \<open>byte\<close>, \<open>uint16\<close>, \<open>uint32\<close> and \<open>int32\<close> are words of their width; a Go
    \<open>string\<close> is a byte sequence, here a \<^typ>\<open>string\<close> (Isabelle characters are bytes), compared
    with the bytewise lexicographic order of \<open>HOL-Library.List_Lexorder\<close>.
  \<^item> Errors: \<open>goerror\<close> is the type of error values, with \<open>fmt.Errorf\<close> wrapping, \<open>errors.Is\<close> and the
    classification of API status errors; a fallible operation returns \<open>goerror + 'a\<close>. A run-time
    panic is the error value \<open>Panic\<close>, so that its absence can be stated.
  \<^item> Go maps: a Go map is a partial function; the order in which \<open>range\<close> visits its keys is not
    specified by the language, so a loop over a map takes the visiting order as an argument, any
    enumeration of the keys (\<open>range_order\<close>).
  \<^item> Sorting: \<open>slices.SortFunc\<close> and \<open>sort.Slice\<close> promise a sorted permutation and nothing about
    ties. \<open>go_sort\<close> is the stable one; \<open>sorted_perm_unique\<close> shows that the choice is immaterial
    whenever the sort key separates the elements.
\<close>

named_theorems go_std \<open>evaluation rules of the modelled standard library functions\<close>
named_theorems inv_intros \<open>introduction rules that establish component invariants\<close>

section \<open>Machine types\<close>

type_synonym byte = "8 word"
type_synonym uint16 = "16 word"
type_synonym uint32 = "32 word"
type_synonym int32 = "32 word"

section \<open>Error values\<close>

text \<open>The reason an API server gives in a status error, as \<open>apierrors.IsNotFound\<close> and
  \<open>apierrors.IsAlreadyExists\<close> read it.\<close>

datatype status_reason = NotFound | AlreadyExists | OtherReason string

datatype goerror =
    ErrorString string
  | WrapError string goerror
  | ErrNotExist
  | Errno nat string
  | StatusError status_reason string
  | ContextError string
  | Panic string

definition ENOENT :: nat where
  "ENOENT = 2"

text \<open>The text of an error value; a wrapped error prints its prefix and then the inner error.\<close>

fun Error :: "goerror \<Rightarrow> string" where
  "Error (ErrorString s) = s"
| "Error (WrapError p e) = p @ Error e"
| "Error ErrNotExist = ''file does not exist''"
| "Error (Errno n s) = s"
| "Error (StatusError r s) = s"
| "Error (ContextError s) = s"
| "Error (Panic s) = s"

text \<open>\<open>errors.Is\<close> walks the chain of wrapped errors. \<open>syscall.Errno\<close> answers for
  \<open>os.ErrNotExist\<close> exactly at \<open>ENOENT\<close>.\<close>

fun errors_Is_ErrNotExist :: "goerror \<Rightarrow> bool" where
  "errors_Is_ErrNotExist (WrapError p e) = errors_Is_ErrNotExist e"
| "errors_Is_ErrNotExist ErrNotExist = True"
| "errors_Is_ErrNotExist (Errno n s) = (n = ENOENT)"
| "errors_Is_ErrNotExist _ = False"

fun errors_Is_Errno :: "nat \<Rightarrow> goerror \<Rightarrow> bool" where
  "errors_Is_Errno t (WrapError p e) = errors_Is_Errno t e"
| "errors_Is_Errno t (Errno n s) = (n = t)"
| "errors_Is_Errno t _ = False"

fun IsNotFound :: "goerror \<Rightarrow> bool" where
  "IsNotFound (WrapError p e) = IsNotFound e"
| "IsNotFound (StatusError r s) = (r = NotFound)"
| "IsNotFound _ = False"

fun IsAlreadyExists :: "goerror \<Rightarrow> bool" where
  "IsAlreadyExists (WrapError p e) = IsAlreadyExists e"
| "IsAlreadyExists (StatusError r s) = (r = AlreadyExists)"
| "IsAlreadyExists _ = False"

section \<open>Results\<close>

text \<open>A panic travels as an error value; it is not an error the code can handle.\<close>

definition is_panic :: "goerror \<Rightarrow> bool" where
  "is_panic err = (case err of Panic _ \<Rightarrow> True | _ \<Rightarrow> False)"

definition is_ok :: "'e + 'a \<Rightarrow> bool" where
  "is_ok r = (case r of Inl _ \<Rightarrow> False | Inr _ \<Rightarrow> True)"

lemma is_ok_simps [simp]: "\<not> is_ok (Inl e)" "is_ok (Inr x)"
  by (simp_all add: is_ok_def)

lemma is_ok_iff: "is_ok r \<longleftrightarrow> (\<exists>x. r = Inr x)"
  by (cases r) simp_all

section \<open>Go maps and range loops\<close>

definition range_order :: "('k \<rightharpoonup> 'v) \<Rightarrow> 'k list \<Rightarrow> bool" where
  "range_order m ks \<longleftrightarrow> distinct ks \<and> set ks = dom m"

lemma range_orderD:
  "range_order m ks \<Longrightarrow> distinct ks" "range_order m ks \<Longrightarrow> set ks = dom m"
  by (simp_all add: range_order_def)

lemma range_order_mset:
  assumes "range_order m ks" and "range_order m ls"
  shows "mset ks = mset ls"
  using assms unfolding range_order_def by (metis set_eq_iff_mset_eq_distinct)

lemma range_order_finite: "range_order m ks \<Longrightarrow> finite (dom m)"
  by (metis List.finite_set range_orderD(2))

text \<open>A map read with a default: \<open>m[k]\<close> of a Go map whose zero value is \<open>z\<close>.\<close>

definition map_get :: "'v \<Rightarrow> ('k \<rightharpoonup> 'v) \<Rightarrow> 'k \<Rightarrow> 'v" where
  "map_get z m k = (case m k of None \<Rightarrow> z | Some v \<Rightarrow> v)"

lemma map_get_simps [simp]:
  "map_get z (m(k \<mapsto> v)) k = v"
  "k \<noteq> k' \<Longrightarrow> map_get z (m(k' \<mapsto> v)) k = map_get z m k"
  "map_get z Map.empty k = z"
  by (simp_all add: map_get_def)

lemma map_get_neq_zero: "map_get z m k \<noteq> z \<Longrightarrow> m k = Some (map_get z m k)"
  by (auto simp: map_get_def split: option.splits)

section \<open>Sorting\<close>

definition go_sort :: "('a \<Rightarrow> 'k::linorder) \<Rightarrow> 'a list \<Rightarrow> 'a list" where
  "go_sort f xs = sort_key f xs"

lemma set_go_sort [simp]: "set (go_sort f xs) = set xs"
  by (simp add: go_sort_def)

lemma mset_go_sort [simp]: "mset (go_sort f xs) = mset xs"
  by (simp add: go_sort_def)

lemma length_go_sort [simp]: "length (go_sort f xs) = length xs"
  by (simp add: go_sort_def)

lemma distinct_go_sort [simp]: "distinct (go_sort f xs) = distinct xs"
  by (simp add: go_sort_def)

lemma sorted_go_sort: "sorted (map f (go_sort f xs))"
  by (simp add: go_sort_def)

lemma go_sort_Nil [simp]: "go_sort f [] = []"
  by (simp add: go_sort_def)

lemma go_sort_eq_Nil [simp]: "go_sort f xs = [] \<longleftrightarrow> xs = []"
  by (metis length_go_sort length_0_conv)

lemma go_sort_single [simp]: "go_sort f [x] = [x]"
  by (simp add: go_sort_def)

text \<open>Two sorted lists with the same elements are equal as soon as the key separates the elements:
  whatever the sorting algorithm does with ties, its result is the same.\<close>

lemma sorted_perm_unique:
  fixes f :: "'a \<Rightarrow> 'k::linorder"
  assumes perm: "mset xs = mset ys" and inj: "inj_on f (set xs)"
    and sx: "sorted (map f xs)" and sy: "sorted (map f ys)"
  shows "xs = ys"
proof -
  have "mset (map f xs) = mset (map f ys)" by (simp add: perm)
  then have eq: "map f xs = map f ys"
    using sx sy by (metis properties_for_sort)
  have "set xs = set ys" using perm by (rule mset_eq_setD)
  with inj have "inj_on f (set xs \<union> set ys)" by simp
  with eq show ?thesis by (rule map_inj_on)
qed

lemma go_sort_perm_eq:
  fixes f :: "'a \<Rightarrow> 'k::linorder"
  assumes "mset xs = mset ys" and "inj_on f (set xs)"
  shows "go_sort f xs = go_sort f ys"
  by (rule sorted_perm_unique [of _ _ f]) (simp_all add: assms sorted_go_sort)

lemma go_sort_unique:
  fixes f :: "'a \<Rightarrow> 'k::linorder"
  assumes "mset zs = mset xs" and "sorted (map f zs)" and "inj_on f (set xs)"
  shows "zs = go_sort f xs"
  using assms(3) by (intro sorted_perm_unique [of _ _ f])
    (simp_all add: assms(1,2) sorted_go_sort mset_eq_setD [OF assms(1)])

section \<open>Lists\<close>

lemma fold_append_concat: "fold (\<lambda>x acc. acc @ f x) xs acc = acc @ concat (map f xs)"
  by (induction xs arbitrary: acc) simp_all

lemma concat_map_mset_cong:
  assumes "mset xs = mset ys"
  shows "mset (concat (map f xs)) = mset (concat (map f ys))"
proof -
  have *: "mset (concat (map f zs)) = (\<Sum>x\<in>#mset zs. mset (f x))" for zs
    by (induction zs) simp_all
  show ?thesis by (simp add: * assms)
qed

lemma filter_eq_single_mem: "filter P xs = [x] \<Longrightarrow> x \<in> set xs \<and> P x"
  by (metis filter_eq_ConsD in_set_conv_decomp)

section \<open>Runs of a step relation\<close>

text \<open>The contract of an invariant: every step keeps it. Then every run does.\<close>

locale preserved =
  fixes step :: "'s \<Rightarrow> 's \<Rightarrow> bool" and inv :: "'s \<Rightarrow> bool"
  assumes step_keeps: "step s s' \<Longrightarrow> inv s \<Longrightarrow> inv s'"
begin

lemma runs_keep: "step\<^sup>*\<^sup>* s s' \<Longrightarrow> inv s \<Longrightarrow> inv s'"
  by (induction rule: rtranclp_induct) (auto intro: step_keeps)

end

end
