(* ===== verification/GoNet.thy ===== *)
theory GoNet
  imports GoStrings
begin

text \<open>
  The parts of Go's \<open>net\<close> and \<open>net/netip\<close> packages that the program calls. An address of
  \<open>net.IP\<close> is its byte slice, with \<open>nil\<close> the empty one; an array \<open>[4]byte\<close> or \<open>[16]byte\<close> is a list of
  that length. \<open>ParseAddr\<close> follows the scanner of \<open>netip.ParseAddr\<close> (dotted quads without leading
  zeros, IPv6 with at most one ellipsis, an embedded dotted quad and a zone), \<open>ParseIP\<close> is its
  16-byte form, \<open>To4\<close> recognises the 4-byte and the IPv4-mapped forms. Prefixes are an address and
  a bit count.
\<close>

unbundle bit_operations_syntax

section \<open>Addresses\<close>

type_synonym net_IP = "byte list"

datatype Addr = AddrZero | Addr4 "byte list" | Addr6 "byte list" string

definition v4InV6Prefix :: "byte list" where
  "v4InV6Prefix = replicate 10 0 @ [0xff, 0xff]"

definition To4 :: "net_IP \<Rightarrow> net_IP" where
  "To4 ip =
     (if length ip = 4 then ip
      else if length ip = 16 \<and> take 12 ip = v4InV6Prefix then drop 12 ip
      else [])"

text \<open>The dotted-decimal text of a \<open>[4]byte\<close>.\<close>

definition ipv4_String :: "byte list \<Rightarrow> string" where
  "ipv4_String b =
     itoa_nat (unat (b ! 0)) @ CHR ''.'' # itoa_nat (unat (b ! 1)) @ CHR ''.'' #
     itoa_nat (unat (b ! 2)) @ CHR ''.'' # itoa_nat (unat (b ! 3))"

section \<open>Parsing\<close>

text \<open>The loop of \<open>parseIPv4Fields\<close>: the value and the digit count of the current octet, the octets
  read so far, and the previous byte of the text.\<close>

fun parseIPv4_loop :: "string \<Rightarrow> nat \<Rightarrow> nat \<Rightarrow> byte list \<Rightarrow> char option \<Rightarrow> byte list option" where
  "parseIPv4_loop [] val digLen fields prev =
     (if length fields < 3 then None else Some (fields @ [of_nat val]))"
| "parseIPv4_loop (c # s) val digLen fields prev =
     (if is_digit c then
        if digLen = 1 \<and> val = 0 then None
        else if val * 10 + digit_val c > 255 then None
        else parseIPv4_loop s (val * 10 + digit_val c) (Suc digLen) fields (Some c)
      else if c = CHR ''.'' then
        if prev = None \<or> s = [] \<or> prev = Some CHR ''.'' then None
        else if length fields = 3 then None
        else parseIPv4_loop s 0 0 (fields @ [of_nat val]) (Some c)
      else None)"

definition parseIPv4Fields :: "string \<Rightarrow> byte list option" where
  "parseIPv4Fields s = parseIPv4_loop s 0 0 [] None"

definition hex_val :: "char \<Rightarrow> nat option" where
  "hex_val c =
     (if is_digit c then Some (of_char c - 48)
      else if CHR ''a'' \<le> c \<and> c \<le> CHR ''f'' then Some (of_char c - 97 + 10)
      else if CHR ''A'' \<le> c \<and> c \<le> CHR ''F'' then Some (of_char c - 65 + 10)
      else None)"

text \<open>One hexadecimal group: the number of digits, the value and the rest; failure on a fifth digit
  (which is also what bounds the value below \<open>2^16\<close>).\<close>

fun hex_group :: "string \<Rightarrow> nat \<Rightarrow> nat \<Rightarrow> (nat \<times> nat \<times> string) option" where
  "hex_group [] off acc = Some (off, acc, [])"
| "hex_group (c # s) off acc =
     (case hex_val c of
        None \<Rightarrow> Some (off, acc, c # s)
      | Some v \<Rightarrow> if off > 3 then None else hex_group s (Suc off) (acc * 16 + v))"

text \<open>The group loop of \<open>parseIPv6\<close>, with the number of groups that still fit, the text, the bytes
  so far and the position of the ellipsis: the bytes, what is left of the text and the ellipsis when
  the loop ends.\<close>

fun parseIPv6_loop ::
    "nat \<Rightarrow> string \<Rightarrow> byte list \<Rightarrow> nat option \<Rightarrow> (byte list \<times> string \<times> nat option) option" where
  "parseIPv6_loop 0 s ip ellipsis = Some (ip, s, ellipsis)"
| "parseIPv6_loop (Suc k) s ip ellipsis =
     (case hex_group s 0 0 of
        None \<Rightarrow> None
      | Some (off, acc, rest) \<Rightarrow>
          if off = 0 then None
          else if rest \<noteq> [] \<and> hd rest = CHR ''.'' then
            if ellipsis = None \<and> length ip \<noteq> 12 then None
            else if length ip + 4 > 16 then None
            else (case parseIPv4Fields s of
                    None \<Rightarrow> None
                  | Some fields \<Rightarrow> Some (ip @ fields, [], ellipsis))
          else
            (let ip' = ip @ [of_nat (acc div 256), of_nat (acc mod 256)] in
             if rest = [] then Some (ip', [], ellipsis)
             else if hd rest \<noteq> CHR '':'' then None
             else if tl rest = [] then None
             else if hd (tl rest) = CHR '':'' then
               if ellipsis \<noteq> None then None
               else if tl (tl rest) = [] then Some (ip', [], Some (length ip'))
               else parseIPv6_loop k (tl (tl rest)) ip' (Some (length ip'))
             else parseIPv6_loop k (tl rest) ip' ellipsis))"

definition parseIPv6_body :: "string \<Rightarrow> byte list option" where
  "parseIPv6_body s =
     (let lead = (take 2 s = ''::''); s' = (if lead then drop 2 s else s) in
      if lead \<and> s' = [] then Some (replicate 16 0)
      else case parseIPv6_loop 8 s' [] (if lead then Some 0 else None) of
        None \<Rightarrow> None
      | Some (ip, rest, ellipsis) \<Rightarrow>
          if rest \<noteq> [] then None
          else if length ip < 16 then
            (case ellipsis of
               None \<Rightarrow> None
             | Some e \<Rightarrow> Some (take e ip @ replicate (16 - length ip) 0 @ drop e ip))
          else if ellipsis \<noteq> None then None
          else Some ip)"

definition parseIPv6 :: "string \<Rightarrow> Addr option" where
  "parseIPv6 s =
     (let addr = takeWhile (\<lambda>c. c \<noteq> CHR ''%'') s; zoned = (CHR ''%'' \<in> set s);
          zone = drop (Suc (length addr)) s
      in if zoned \<and> zone = [] then None
         else map_option (\<lambda>b. Addr6 b (if zoned then zone else [])) (parseIPv6_body addr))"

text \<open>\<open>netip.ParseAddr\<close>: the first of \<open>.\<close>, \<open>:\<close> and \<open>%\<close> decides the family.\<close>

definition ParseAddr :: "string \<Rightarrow> Addr option" where
  "ParseAddr s =
     (case dropWhile (\<lambda>c. c \<noteq> CHR ''.'' \<and> c \<noteq> CHR '':'' \<and> c \<noteq> CHR ''%'') s of
        [] \<Rightarrow> None
      | c # _ \<Rightarrow>
          if c = CHR ''.'' then map_option Addr4 (parseIPv4Fields s)
          else if c = CHR '':'' then parseIPv6 s
          else None)"

text \<open>\<open>net.ParseIP\<close>: \<open>nil\<close> on any error and on a zone, and the 16-byte form otherwise.\<close>

definition ParseIP :: "string \<Rightarrow> net_IP" where
  "ParseIP s =
     (case ParseAddr s of
        Some (Addr4 b) \<Rightarrow> v4InV6Prefix @ b
      | Some (Addr6 b zone) \<Rightarrow> (if zone = [] then b else [])
      | _ \<Rightarrow> [])"

section \<open>Properties of parsing and printing\<close>

lemma length_v4InV6Prefix [simp]: "length v4InV6Prefix = 12"
  by (simp add: v4InV6Prefix_def)

lemma To4_mapped [simp]: "length b = 4 \<Longrightarrow> To4 (v4InV6Prefix @ b) = b"
  by (simp add: To4_def)

lemma To4_four [simp]: "length b = 4 \<Longrightarrow> To4 b = b"
  by (simp add: To4_def)

lemma length_To4: "To4 ip \<noteq> [] \<Longrightarrow> length (To4 ip) = 4"
  by (auto simp: To4_def split: if_splits)

lemma To4_Nil [simp]: "To4 [] = []"
  by (simp add: To4_def)

lemma To4_To4 [simp]: "To4 (To4 ip) = To4 ip"
  by (cases "To4 ip = []") (simp_all add: length_To4)

text \<open>The scanner reads back what the printer writes for one octet.\<close>

lemma parseIPv4_loop_octet:
  assumes "n < 256"
  shows "\<exists>d c. c \<noteq> CHR ''.'' \<and>
    parseIPv4_loop (itoa_nat n @ s) 0 0 fields prev = parseIPv4_loop s n d fields (Some c)"
proof -
  have not_dot: "is_digit c \<Longrightarrow> c \<noteq> CHR ''.''" for c by (auto simp: is_digit_def)
  consider "n < 10" | "10 \<le> n" "n < 100" | "100 \<le> n" by linarith
  then show ?thesis
  proof cases
    case 1
    then show ?thesis
      by (subst itoa_nat.simps)
        (auto intro!: exI [of _ "Suc 0"] exI [of _ "digit_char n"] simp: not_dot)
  next
    case 2
    then have "n div 10 < 10" "0 < n div 10" by auto
    with 2 show ?thesis
      by (subst itoa_nat.simps, subst itoa_nat.simps)
        (auto intro!: exI [of _ "Suc (Suc 0)"] exI [of _ "digit_char (n mod 10)"] simp: not_dot)
  next
    case 3
    with assms have d: "n div 10 div 10 < 10" "0 < n div 10 div 10" "10 \<le> n div 10" by auto
    have v: "(n div 10 div 10 * 10 + n div 10 mod 10) * 10 + n mod 10 = n" by simp
    have w: "n div 10 div 10 * 10 + n div 10 mod 10 = n div 10" by simp
    have le: "n div 10 \<le> 255" "n div 10 div 10 \<le> 255" using assms by auto
    show ?thesis
      using 3 d le assms
      by (subst itoa_nat.simps, subst itoa_nat.simps, subst itoa_nat.simps)
        (auto intro!: exI [of _ "Suc (Suc (Suc 0))"] exI [of _ "digit_char (n mod 10)"]
          simp: not_dot w v)
  qed
qed

lemma parseIPv4_loop_octet_dot:
  assumes "n < 256" and "length fields < 3" and "s \<noteq> []"
  shows "parseIPv4_loop (itoa_nat n @ CHR ''.'' # s) 0 0 fields prev =
    parseIPv4_loop s 0 0 (fields @ [of_nat n]) (Some CHR ''.'')"
  using parseIPv4_loop_octet [OF assms(1), of "CHR ''.'' # s" fields prev] assms(2,3) by auto

lemma parseIPv4_loop_octet_end:
  assumes "n < 256" and "length fields = 3"
  shows "parseIPv4_loop (itoa_nat n) 0 0 fields prev = Some (fields @ [of_nat n])"
  using parseIPv4_loop_octet [OF assms(1), of "[]" fields prev] assms(2) by auto

lemma byte_lt [simp]: "unat (b :: byte) < 256"
  using unsigned_less [of b, where 'a = nat] by simp

lemma four_bytes:
  assumes "length b = 4"
  obtains b0 b1 b2 b3 where "b = [b0, b1, b2, b3]"
  using assms by (auto simp: numeral_eq_Suc length_Suc_conv)

lemma parseIPv4Fields_String:
  assumes "length b = 4"
  shows "parseIPv4Fields (ipv4_String b) = Some b"
  using assms
  by (elim four_bytes)
    (simp add: parseIPv4Fields_def ipv4_String_def parseIPv4_loop_octet_dot parseIPv4_loop_octet_end)

lemma ipv4_String_chars: "c \<in> set (ipv4_String b) \<Longrightarrow> is_digit c \<or> c = CHR ''.''"
  using itoa_nat_not_in by (auto simp: ipv4_String_def)

lemma ipv4_String_no_colon [simp]: "CHR '':'' \<notin> set (ipv4_String b)"
  using ipv4_String_chars by fastforce

lemma ipv4_String_no_percent [simp]: "CHR ''%'' \<notin> set (ipv4_String b)"
  using ipv4_String_chars by fastforce

lemma ipv4_String_nonempty [simp]: "ipv4_String b \<noteq> []"
  by (simp add: ipv4_String_def)

lemma ParseAddr_String:
  assumes "length b = 4"
  shows "ParseAddr (ipv4_String b) = Some (Addr4 b)"
proof -
  let ?P = "\<lambda>c. c \<noteq> CHR ''.'' \<and> c \<noteq> CHR '':'' \<and> c \<noteq> CHR ''%''"
  have digits: "is_digit c \<Longrightarrow> ?P c" for c by (auto simp: is_digit_def)
  have "dropWhile ?P (itoa_nat n @ CHR ''.'' # s) = CHR ''.'' # s" for n s
    using itoa_nat_digits [of n] digits
    by (subst dropWhile_append2) (auto simp: list_all_iff)
  then have "\<exists>s. dropWhile ?P (ipv4_String b) = CHR ''.'' # s"
    by (auto simp: ipv4_String_def)
  then show ?thesis using parseIPv4Fields_String [OF assms] by (auto simp: ParseAddr_def)
qed

lemma ParseIP_String: "length b = 4 \<Longrightarrow> ParseIP (ipv4_String b) = v4InV6Prefix @ b"
  by (simp add: ParseIP_def ParseAddr_String)

lemma To4_ParseIP_String [simp]: "length b = 4 \<Longrightarrow> To4 (ParseIP (ipv4_String b)) = b"
  by (simp add: ParseIP_String)

lemma ipv4_String_inj:
  "length a = 4 \<Longrightarrow> length b = 4 \<Longrightarrow> ipv4_String a = ipv4_String b \<longleftrightarrow> a = b"
  by (metis To4_ParseIP_String)

lemma parseIPv4_loop_length:
  "parseIPv4_loop s val d fields prev = Some b \<Longrightarrow> length fields \<le> 3 \<Longrightarrow> length b = 4"
  by (induction s val d fields prev rule: parseIPv4_loop.induct) (auto split: if_splits)

lemma parseIPv4Fields_length: "parseIPv4Fields s = Some b \<Longrightarrow> length b = 4"
  by (auto simp: parseIPv4Fields_def dest: parseIPv4_loop_length)

section \<open>Printing any address\<close>

text \<open>The groups of an IPv6 address, its longest run of at least two zero groups (the first such run,
  \<open>(255, 255)\<close> when there is none) and the text with that run shortened to \<open>::\<close>.\<close>

definition v6_groups :: "byte list \<Rightarrow> nat list" where
  "v6_groups b = map (\<lambda>i. unat (b ! (2 * i)) * 256 + unat (b ! (2 * i + 1))) [0..<8]"

definition v6_zero_run :: "nat list \<Rightarrow> nat \<times> nat" where
  "v6_zero_run gs =
     foldl (\<lambda>(zs, ze) i. let l = length (takeWhile (\<lambda>g. g = 0) (drop i gs)) in
                          if 2 \<le> l \<and> ze - zs < l then (i, i + l) else (zs, ze))
       (255, 255) [0..<8]"

fun hex_nat :: "nat \<Rightarrow> string" where
  "hex_nat n = (if n < 16 then [hex_digit n] else hex_nat (n div 16) @ [hex_digit (n mod 16)])"

declare hex_nat.simps [simp del]

text \<open>The printing loop, with one unit of fuel per group (an address has eight).\<close>

fun v6_print :: "nat \<Rightarrow> nat list \<Rightarrow> nat \<Rightarrow> nat \<Rightarrow> nat \<Rightarrow> string" where
  "v6_print 0 gs zs ze i = []"
| "v6_print (Suc fuel) gs zs ze i =
     (if 8 \<le> i then []
      else if i = zs then
        ''::'' @ (if 8 \<le> ze then [] else hex_nat (gs ! ze) @ v6_print fuel gs zs ze (Suc ze))
      else (if 0 < i then '':'' else []) @ hex_nat (gs ! i) @ v6_print fuel gs zs ze (Suc i))"

definition ipv6_String :: "byte list \<Rightarrow> string" where
  "ipv6_String b =
     (let gs = v6_groups b; (zs, ze) = v6_zero_run gs in v6_print 8 gs zs ze 0)"

text \<open>\<open>net.IP.String\<close>\<close>

definition IP_String :: "net_IP \<Rightarrow> string" where
  "IP_String ip =
     (if ip = [] then ''<nil>''
      else if length ip \<noteq> 4 \<and> length ip \<noteq> 16 then CHR ''?'' # EncodeToString ip
      else if To4 ip \<noteq> [] then ipv4_String (To4 ip)
      else ipv6_String ip)"

lemma IP_String_To4: "To4 ip \<noteq> [] \<Longrightarrow> IP_String ip = ipv4_String (To4 ip)"
  by (auto simp: IP_String_def To4_def split: if_splits)

lemma To4_ParseIP_IP_String [simp]: "To4 ip \<noteq> [] \<Longrightarrow> To4 (ParseIP (IP_String ip)) = To4 ip"
  by (simp add: IP_String_To4 length_To4)

section \<open>Host and port\<close>

text \<open>\<open>net.JoinHostPort\<close>\<close>

definition JoinHostPort :: "string \<Rightarrow> string \<Rightarrow> string" where
  "JoinHostPort host port =
     (if CHR '':'' \<in> set host \<or> CHR ''%'' \<in> set host
      then CHR ''['' # host @ '']:'' @ port
      else host @ CHR '':'' # port)"

lemma JoinHostPort_inj:
  assumes "JoinHostPort h p = JoinHostPort h' p'"
    and "CHR '':'' \<notin> set h" "CHR ''%'' \<notin> set h" "CHR '':'' \<notin> set h'" "CHR ''%'' \<notin> set h'"
  shows "h = h' \<and> p = p'"
  using assms append_sep_inj_first [of h "CHR '':''" p h' p'] by (simp add: JoinHostPort_def)

end
