(* ===== verification/KubeTypes.thy ===== *)
theory KubeTypes
  imports GoStrings
begin

text \<open>
  The Kubernetes and Gateway API objects the program reads and writes, as records of the fields it
  touches (a \<open>DeepCopy\<close> is the value itself), and the constants the packages share:
  \<open>internal/gatewaymeta/meta.go\<close>, the constants of \<open>internal/controller/controller.go\<close> and the
  \<open>XEndpointSelector\<close> type of \<open>apis/v1alpha1\<close>. A pointer field is an \<open>option\<close>, a \<open>nil\<close> slice is the
  empty list, a port number is an \<open>int32\<close>, a timestamp is an integer.
\<close>

section \<open>Constants\<close>

definition GatewayClassName :: string where
  "GatewayClassName = ''clusterip-gw''"

definition MaxSupportedGatewayListeners :: nat where
  "MaxSupportedGatewayListeners = 10"

definition ManagedByValue :: string where
  "ManagedByValue = ''clusterip-gw-controller.grosskur.github.io''"

definition GatewayNamespaceLabelKey :: string where
  "GatewayNamespaceLabelKey = ''gateway.networking.x-k8s.io/gateway-namespace''"

definition GatewayNameLabelKey :: string where
  "GatewayNameLabelKey = ''gateway.networking.x-k8s.io/gateway-name''"

definition GatewayListenerLabelKey :: string where
  "GatewayListenerLabelKey = ''gateway.networking.x-k8s.io/gateway-listener''"

definition EndpointSelectorNamespaceLabelKey :: string where
  "EndpointSelectorNamespaceLabelKey = ''gateway.networking.x-k8s.io/endpoint-selector-namespace''"

definition EndpointSelectorNameLabelKey :: string where
  "EndpointSelectorNameLabelKey = ''gateway.networking.x-k8s.io/endpoint-selector-name''"

text \<open>The label key \<open>discoveryv1.LabelManagedBy\<close> of the Kubernetes API.\<close>

definition LabelManagedBy :: string where
  "LabelManagedBy = ''endpointslice.kubernetes.io/managed-by''"

definition gatewayAPIGroup :: string where
  "gatewayAPIGroup = ''gateway.networking.k8s.io''"

definition endpointSelectorAPIGroup :: string where
  "endpointSelectorAPIGroup = ''gateway.networking.x-k8s.io''"

definition endpointSelectorKind :: string where
  "endpointSelectorKind = ''XEndpointSelector''"

definition controllerName :: string where
  "controllerName = ''grosskur.github.io/clusterip-gw''"

definition controllerFinalizer :: string where
  "controllerFinalizer = ''grosskur.github.io/clusterip-gw-ip-address-protection''"

definition managedByLabelKey :: string where
  "managedByLabelKey = ''ipaddress.kubernetes.io/managed-by''"

definition managedByLabelValue :: string where
  "managedByLabelValue = ''gateway.networking.x-k8s.io''"

definition ipFamilyLabelKey :: string where
  "ipFamilyLabelKey = ''ipaddress.kubernetes.io/ip-family''"

definition ipFamilyIPv4Value :: string where
  "ipFamilyIPv4Value = ''IPv4''"

text \<open>The label keys are pairwise different, so a label map written with all of them keeps every
  entry.\<close>

lemmas label_key_defs =
  GatewayNamespaceLabelKey_def GatewayNameLabelKey_def GatewayListenerLabelKey_def
  EndpointSelectorNamespaceLabelKey_def EndpointSelectorNameLabelKey_def LabelManagedBy_def

type_synonym ConditionStatus = string

abbreviation ConditionTrue :: ConditionStatus where "ConditionTrue \<equiv> ''True''"
abbreviation ConditionFalse :: ConditionStatus where "ConditionFalse \<equiv> ''False''"

section \<open>Object metadata\<close>

datatype NamespacedName = NamespacedName (nn_Namespace: string) (nn_Name: string)

text \<open>\<open>types.NamespacedName.String\<close>, and the controller's \<open>namespacedKey\<close>.\<close>

definition NamespacedName_String :: "NamespacedName \<Rightarrow> string" where
  "NamespacedName_String n = nn_Namespace n @ CHR ''/'' # nn_Name n"

instantiation NamespacedName :: linorder
begin

definition less_eq_NamespacedName :: "NamespacedName \<Rightarrow> NamespacedName \<Rightarrow> bool" where
  "less_eq_NamespacedName a b \<longleftrightarrow>
     nn_Namespace a < nn_Namespace b \<or> (nn_Namespace a = nn_Namespace b \<and> nn_Name a \<le> nn_Name b)"

definition less_NamespacedName :: "NamespacedName \<Rightarrow> NamespacedName \<Rightarrow> bool" where
  "less_NamespacedName a b \<longleftrightarrow>
     nn_Namespace a < nn_Namespace b \<or> (nn_Namespace a = nn_Namespace b \<and> nn_Name a < nn_Name b)"

instance
  by standard
    (auto simp: less_eq_NamespacedName_def less_NamespacedName_def NamespacedName.expand)

end

record OwnerReference =
  or_APIVersion :: string
  or_Kind :: string
  or_Name :: string
  or_UID :: string
  or_Controller :: "bool option"
  or_BlockOwnerDeletion :: "bool option"

record ObjectMeta =
  om_Namespace :: string
  om_Name :: string
  om_UID :: string
  om_ResourceVersion :: string
  om_Generation :: int
  om_DeletionTimestamp :: "int option"
  om_Finalizers :: "string list"
  om_Labels :: "string \<rightharpoonup> string"
  om_OwnerReferences :: "OwnerReference list"

definition emptyMeta :: ObjectMeta where
  "emptyMeta = \<lparr>om_Namespace = [], om_Name = [], om_UID = [], om_ResourceVersion = [],
     om_Generation = 0, om_DeletionTimestamp = None, om_Finalizers = [], om_Labels = Map.empty,
     om_OwnerReferences = []\<rparr>"

definition meta_key :: "ObjectMeta \<Rightarrow> NamespacedName" where
  "meta_key m = NamespacedName (om_Namespace m) (om_Name m)"

text \<open>Indexing a label map: a missing label reads as the empty string.\<close>

abbreviation label :: "ObjectMeta \<Rightarrow> string \<Rightarrow> string" where
  "label m k \<equiv> map_get [] (om_Labels m) k"

record Condition =
  c_Type :: string
  c_Status :: string
  c_Reason :: string
  c_Message :: string
  c_ObservedGeneration :: int
  c_LastTransitionTime :: int

record LabelSelector =
  ls_MatchLabels :: "(string \<times> string) list"
  ls_MatchExpressions :: "(string \<times> string \<times> string list) list"

section \<open>Gateway API objects\<close>

record RouteGroupKind =
  rgk_Group :: "string option"
  rgk_Kind :: string

record RouteNamespaces =
  rn_From :: "string option"
  rn_Selector :: "LabelSelector option"

record AllowedRoutes =
  ar_Namespaces :: "RouteNamespaces option"
  ar_Kinds :: "RouteGroupKind list"

record Listener =
  l_Name :: string
  l_Port :: int32
  l_Protocol :: string
  l_AllowedRoutes :: "AllowedRoutes option"

record ListenerStatus =
  lst_Name :: string
  lst_SupportedKinds :: "RouteGroupKind list"
  lst_AttachedRoutes :: int32
  lst_Conditions :: "Condition list"

record GatewayAddress =
  ga_Type :: "string option"
  ga_Value :: string

record Gateway =
  gw_Meta :: ObjectMeta
  gw_GatewayClassName :: string
  gw_Listeners :: "Listener list"
  gw_SpecAddresses :: "GatewayAddress list"
  gw_Addresses :: "GatewayAddress list"
  gw_Conditions :: "Condition list"
  gw_ListenerStatuses :: "ListenerStatus list"

abbreviation gw_Namespace :: "Gateway \<Rightarrow> string" where "gw_Namespace g \<equiv> om_Namespace (gw_Meta g)"
abbreviation gw_Name :: "Gateway \<Rightarrow> string" where "gw_Name g \<equiv> om_Name (gw_Meta g)"
abbreviation gw_Generation :: "Gateway \<Rightarrow> int" where "gw_Generation g \<equiv> om_Generation (gw_Meta g)"

record GatewayClass =
  gc_Meta :: ObjectMeta
  gc_ControllerName :: string
  gc_Conditions :: "Condition list"

record ParentReference =
  pr_Group :: "string option"
  pr_Kind :: "string option"
  pr_Namespace :: "string option"
  pr_Name :: string
  pr_SectionName :: "string option"
  pr_Port :: "int32 option"

record BackendRef =
  br_Group :: "string option"
  br_Kind :: "string option"
  br_Namespace :: "string option"
  br_Name :: string
  br_Port :: "int32 option"

record RouteParentStatus =
  rps_ParentRef :: ParentReference
  rps_ControllerName :: string
  rps_Conditions :: "Condition list"

record TCPRoute =
  tr_Meta :: ObjectMeta
  tr_ParentRefs :: "ParentReference list"
  tr_Rules :: "BackendRef list list"
  tr_Parents :: "RouteParentStatus list"

abbreviation tr_Namespace :: "TCPRoute \<Rightarrow> string" where "tr_Namespace r \<equiv> om_Namespace (tr_Meta r)"
abbreviation tr_Name :: "TCPRoute \<Rightarrow> string" where "tr_Name r \<equiv> om_Name (tr_Meta r)"

text \<open>An \<open>XEndpointSelector\<close> (\<open>apis/v1alpha1/endpointselector_types.go\<close>).\<close>

record XEndpointSelector =
  xs_APIVersion :: string
  xs_Kind :: string
  xs_Meta :: ObjectMeta
  xs_Selector :: LabelSelector
  xs_Conditions :: "Condition list"

section \<open>Core, discovery and networking objects\<close>

record EndpointPort =
  ep_Name :: "string option"
  ep_Protocol :: "string option"
  ep_Port :: "int32 option"

record ObjectReference =
  oref_APIVersion :: string
  oref_Kind :: string
  oref_Namespace :: string
  oref_Name :: string
  oref_UID :: string

record SliceEndpoint =
  se_Addresses :: "string list"
  se_Ready :: "bool option"
  se_TargetRef :: "ObjectReference option"
  se_NodeName :: "string option"

record EndpointSlice =
  es_Meta :: ObjectMeta
  es_AddressType :: string
  es_Ports :: "EndpointPort list"
  es_Endpoints :: "SliceEndpoint list"

record Pod =
  pod_Meta :: ObjectMeta
  pod_NodeName :: string
  pod_PodIP :: string
  pod_Conditions :: "(string \<times> string) list"

record IPParentReference =
  ipr_Group :: string
  ipr_Resource :: string
  ipr_Namespace :: string
  ipr_Name :: string

record IPAddress =
  ip_Meta :: ObjectMeta
  ip_ParentRef :: "IPParentReference option"

record ServiceCIDR =
  sc_Meta :: ObjectMeta
  sc_CIDRs :: "string list"
  sc_Conditions :: "Condition list"

end
