(* ===== verification/Samples.thy ===== *)
theory Samples
  imports GoNet KubeTypes
begin

text \<open>
  Concrete objects for the witnesses: the Gateway \<open>default/demo\<close> of \<open>docs/agent-design.md\<close> with one
  TCP listener on port 80 and the address \<open>10.96.0.10\<close>, and a managed EndpointSlice with two ready
  backends, together with the facts about them that evaluation gives.
\<close>

definition sample_meta :: "string \<Rightarrow> string \<Rightarrow> ObjectMeta" where
  "sample_meta ns n = emptyMeta\<lparr>om_Namespace := ns, om_Name := n, om_UID := ''uid-1'', om_Generation := 1\<rparr>"

definition sample_listener :: Listener where
  "sample_listener = \<lparr>l_Name = ''tcp'', l_Port = 80, l_Protocol = ''TCP'', l_AllowedRoutes = None\<rparr>"

definition sample_gateway :: Gateway where
  "sample_gateway = \<lparr>gw_Meta = sample_meta ''default'' ''demo'', gw_GatewayClassName = ''clusterip-gw'',
     gw_Listeners = [sample_listener], gw_SpecAddresses = [],
     gw_Addresses = [\<lparr>ga_Type = Some ''IPAddress'', ga_Value = ''10.96.0.10''\<rparr>],
     gw_Conditions = [], gw_ListenerStatuses = []\<rparr>"

definition sample_gateway2 :: Gateway where
  "sample_gateway2 = sample_gateway\<lparr>gw_Listeners :=
     [sample_listener, sample_listener\<lparr>l_Name := ''tls'', l_Port := 443\<rparr>]\<rparr>"

definition sample_endpoint :: "string \<Rightarrow> SliceEndpoint" where
  "sample_endpoint addr =
     \<lparr>se_Addresses = [addr], se_Ready = Some True, se_TargetRef = None, se_NodeName = None\<rparr>"

definition sample_slice :: EndpointSlice where
  "sample_slice =
     \<lparr>es_Meta = (sample_meta ''default'' ''demo-tcp'')\<lparr>om_Labels :=
         [LabelManagedBy \<mapsto> ManagedByValue, GatewayNamespaceLabelKey \<mapsto> ''default'',
          GatewayNameLabelKey \<mapsto> ''demo'', GatewayListenerLabelKey \<mapsto> ''tcp'']\<rparr>,
      es_AddressType = ''IPv4'',
      es_Ports = [\<lparr>ep_Name = None, ep_Protocol = Some ''TCP'', ep_Port = Some 8080\<rparr>],
      es_Endpoints = [sample_endpoint ''10.0.0.3'', sample_endpoint ''10.0.0.2'']\<rparr>"

abbreviation sample_nn :: NamespacedName where "sample_nn \<equiv> NamespacedName ''default'' ''demo''"
abbreviation sample_slice_nn :: NamespacedName where
  "sample_slice_nn \<equiv> NamespacedName ''default'' ''demo-tcp''"

lemmas sample_defs = sample_meta_def sample_listener_def sample_gateway_def sample_gateway2_def sample_endpoint_def
  sample_slice_def emptyMeta_def

lemma sample_ips:
  "ParseIP ''10.96.0.10'' = v4InV6Prefix @ [10, 96, 0, 10]"
  "ParseIP ''10.0.0.2'' = v4InV6Prefix @ [10, 0, 0, 2]"
  "ParseIP ''10.0.0.3'' = v4InV6Prefix @ [10, 0, 0, 3]"
  by code_simp+

lemma sample_strings:
  "ipv4_String [10, 0, 0, 2] = ''10.0.0.2''"
  "ipv4_String [10, 0, 0, 3] = ''10.0.0.3''"
  "ipv4_String [10, 96, 0, 10] = ''10.96.0.10''"
  by code_simp+

end
