(* ===== verification/AgentState.thy ===== *)
theory AgentState
  imports Samples
begin

text \<open>
  The agent's view of the cluster, \<open>internal/agent/state\<close>: frontends and endpoints, and the two
  change trackers that turn Gateway and EndpointSlice events into snapshots. A tracker is a record
  around its Go map; \<open>Update\<close> returns the reported flag and the new tracker; \<open>Snapshot\<close> takes the
  order in which the \<open>range\<close> statement visits the map. The lock of each tracker makes these
  operations atomic, so they are plain functions here. The locale \<open>change_tracker\<close> is the contract
  both trackers offer to the proxier.
\<close>

section \<open>Frontends, endpoints and keys\<close>

record Frontend =
  fe_Address :: net_IP
  fe_Port :: int

definition NewFrontend :: "net_IP \<Rightarrow> int \<Rightarrow> Frontend" where
  "NewFrontend address port = \<lparr>fe_Address = address, fe_Port = port\<rparr>"

definition Frontend_String :: "Frontend \<Rightarrow> string" where
  "Frontend_String info = IP_String (fe_Address info) @ CHR '':'' # Itoa (fe_Port info) @ ''/tcp''"

record Endpoint =
  ept_IP :: string
  ept_Port :: int

definition NewEndpoint :: "string \<Rightarrow> int \<Rightarrow> Endpoint" where
  "NewEndpoint ip port = \<lparr>ept_IP = ip, ept_Port = port\<rparr>"

definition Endpoint_String :: "Endpoint \<Rightarrow> string" where
  "Endpoint_String info = JoinHostPort (ept_IP info) (Itoa (ept_Port info))"

datatype FrontendKey = FrontendKey (fk_NamespacedName: NamespacedName) (fk_Listener: string)

definition FrontendKey_String :: "FrontendKey \<Rightarrow> string" where
  "FrontendKey_String fk =
     (if fk_Listener fk = [] then NamespacedName_String (fk_NamespacedName fk)
      else NamespacedName_String (fk_NamespacedName fk) @ CHR '':'' # fk_Listener fk)"

text \<open>A frontend map is kept as the sequence of its entries (keys are distinct), an endpoints map as
  a partial function.\<close>

type_synonym FrontendMap = "(FrontendKey \<times> Frontend) list"
type_synonym EndpointsMap = "FrontendKey \<rightharpoonup> Endpoint list"

section \<open>Endpoint tracking\<close>

record EndpointsChangeTracker =
  ect_slices :: "NamespacedName \<rightharpoonup> EndpointSlice"

definition NewEndpointsChangeTracker :: EndpointsChangeTracker where
  "NewEndpointsChangeTracker = \<lparr>ect_slices = Map.empty\<rparr>"

definition EndpointsChangeTracker_Update ::
    "EndpointSlice option \<Rightarrow> bool \<Rightarrow> EndpointsChangeTracker \<Rightarrow> bool \<times> EndpointsChangeTracker" where
  "EndpointsChangeTracker_Update endpointSlice remove ect =
     (case endpointSlice of
        None \<Rightarrow> (False, ect)
      | Some s \<Rightarrow>
          (let key = meta_key (es_Meta s) in
           if remove then (True, ect\<lparr>ect_slices := (ect_slices ect)(key := None)\<rparr>)
           else (True, ect\<lparr>ect_slices := (ect_slices ect)(key \<mapsto> s)\<rparr>)))"

definition frontendKeyForEndpointSlice :: "EndpointSlice option \<Rightarrow> FrontendKey option" where
  "frontendKeyForEndpointSlice endpointSlice =
     (case endpointSlice of
        None \<Rightarrow> None
      | Some s \<Rightarrow>
          if label (es_Meta s) LabelManagedBy \<noteq> ManagedByValue then None
          else
            let gatewayName = label (es_Meta s) GatewayNameLabelKey in
            if gatewayName = [] then None
            else
              let namespace0 = label (es_Meta s) GatewayNamespaceLabelKey;
                  namespace = (if namespace0 = [] then om_Namespace (es_Meta s) else namespace0) in
              if namespace = [] then None
              else Some (FrontendKey (NamespacedName namespace gatewayName)
                     (label (es_Meta s) GatewayListenerLabelKey)))"

text \<open>The body of the snapshot loop over one slice, from the innermost loop outwards. Each level
  threads the map \<open>out\<close> and skips what the code skips with \<open>continue\<close>.\<close>

definition snapshot_addr ::
    "FrontendKey \<Rightarrow> int32 \<Rightarrow> string \<Rightarrow> EndpointsMap \<Rightarrow> EndpointsMap" where
  "snapshot_addr key port addr out =
     (let ip = ParseIP addr in
      if ip = [] \<or> To4 ip = [] then out
      else out(key \<mapsto> map_get [] out key @ [NewEndpoint (IP_String ip) (sint port)]))"

definition snapshot_endpoint ::
    "FrontendKey \<Rightarrow> int32 \<Rightarrow> SliceEndpoint \<Rightarrow> EndpointsMap \<Rightarrow> EndpointsMap" where
  "snapshot_endpoint key port endpoint out =
     (case se_Ready endpoint of
        Some False \<Rightarrow> out
      | _ \<Rightarrow> fold (snapshot_addr key port) (se_Addresses endpoint) out)"

definition snapshot_port ::
    "FrontendKey \<Rightarrow> SliceEndpoint list \<Rightarrow> EndpointPort \<Rightarrow> EndpointsMap \<Rightarrow> EndpointsMap" where
  "snapshot_port key endpoints port out =
     (case ep_Port port of
        None \<Rightarrow> out
      | Some p \<Rightarrow>
          (case ep_Protocol port of
             Some protocol \<Rightarrow>
               if protocol \<noteq> ''TCP'' then out else fold (snapshot_endpoint key p) endpoints out
           | None \<Rightarrow> fold (snapshot_endpoint key p) endpoints out))"

definition snapshot_slice :: "EndpointSlice \<Rightarrow> EndpointsMap \<Rightarrow> EndpointsMap" where
  "snapshot_slice s out =
     (case frontendKeyForEndpointSlice (Some s) of
        None \<Rightarrow> out
      | Some key \<Rightarrow>
          if es_AddressType s \<noteq> ''IPv4'' then out
          else fold (snapshot_port key (es_Endpoints s)) (es_Ports s) out)"

definition EndpointsChangeTracker_Snapshot ::
    "NamespacedName list \<Rightarrow> EndpointsChangeTracker \<Rightarrow> EndpointsMap" where
  "EndpointsChangeTracker_Snapshot order ect =
     (let out = fold (\<lambda>k out. case ect_slices ect k of None \<Rightarrow> out | Some s \<Rightarrow> snapshot_slice s out)
                  order Map.empty
      in (\<lambda>key. map_option (go_sort Endpoint_String) (out key)))"

section \<open>Gateway tracking\<close>

record GatewayChangeTracker =
  gct_gateways :: "NamespacedName \<rightharpoonup> FrontendMap"

definition NewGatewayChangeTracker :: GatewayChangeTracker where
  "NewGatewayChangeTracker = \<lparr>gct_gateways = Map.empty\<rparr>"

text \<open>The listener loop of \<open>gatewaySupported\<close>, with the names and ports seen so far.\<close>

fun supported_listeners :: "string list \<Rightarrow> int32 list \<Rightarrow> Listener list \<Rightarrow> bool" where
  "supported_listeners names ports [] = True"
| "supported_listeners names ports (l # ls) =
     (if l_Protocol l \<noteq> ''TCP'' \<or> l_Name l = [] \<or> l_Port l = 0 then False
      else if l_Name l \<in> set names then False
      else if l_Port l \<in> set ports then False
      else supported_listeners (l_Name l # names) (l_Port l # ports) ls)"

definition gatewaySupported :: "Gateway \<Rightarrow> bool" where
  "gatewaySupported gateway =
     (if gw_Namespace gateway = [] \<or> gw_Name gateway = [] then False
      else if om_DeletionTimestamp (gw_Meta gateway) \<noteq> None then False
      else if gw_GatewayClassName gateway \<noteq> GatewayClassName then False
      else if gw_Listeners gateway = []
           \<or> length (gw_Listeners gateway) > MaxSupportedGatewayListeners then False
      else if \<not> supported_listeners [] [] (gw_Listeners gateway) then False
      else (case gw_Addresses gateway of
              [address] \<Rightarrow> ga_Type address = Some ''IPAddress'' \<and> ga_Value address \<noteq> []
            | _ \<Rightarrow> False))"

text \<open>Assignment into a Go map kept as the sequence of its entries.\<close>

fun map_put :: "'k \<Rightarrow> 'v \<Rightarrow> ('k \<times> 'v) list \<Rightarrow> ('k \<times> 'v) list" where
  "map_put k v [] = [(k, v)]"
| "map_put k v ((k', v') # es) = (if k = k' then (k, v) # es else (k', v') # map_put k v es)"

definition frontend_entry :: "Gateway \<Rightarrow> net_IP \<Rightarrow> Listener \<Rightarrow> FrontendKey \<times> Frontend" where
  "frontend_entry gateway vip listener =
     (FrontendKey (NamespacedName (gw_Namespace gateway) (gw_Name gateway)) (l_Name listener),
      NewFrontend vip (sint (l_Port listener)))"

definition gatewayToFrontendMap :: "Gateway option \<Rightarrow> FrontendMap" where
  "gatewayToFrontendMap gateway =
     (case gateway of
        None \<Rightarrow> []
      | Some g \<Rightarrow>
          if \<not> gatewaySupported g then []
          else
            let vip = ParseIP (ga_Value (hd (gw_Addresses g))) in
            if vip = [] \<or> To4 vip = [] then []
            else fold (\<lambda>l out. case frontend_entry g vip l of (k, f) \<Rightarrow> map_put k f out)
                   (gw_Listeners g) [])"

definition GatewayChangeTracker_Update ::
    "Gateway option \<Rightarrow> Gateway option \<Rightarrow> GatewayChangeTracker \<Rightarrow> bool \<times> GatewayChangeTracker" where
  "GatewayChangeTracker_Update previous current gct =
     (case (case current of Some g \<Rightarrow> Some g | None \<Rightarrow> previous) of
        None \<Rightarrow> (False, gct)
      | Some gateway \<Rightarrow>
          (let key = NamespacedName (gw_Namespace gateway) (gw_Name gateway) in
           case current of
             None \<Rightarrow> (True, gct\<lparr>gct_gateways := (gct_gateways gct)(key := None)\<rparr>)
           | Some c \<Rightarrow>
               (let m = gatewayToFrontendMap current in
                if m = [] then (True, gct\<lparr>gct_gateways := (gct_gateways gct)(key := None)\<rparr>)
                else (True, gct\<lparr>gct_gateways := (gct_gateways gct)(key \<mapsto> m)\<rparr>))))"

definition GatewayChangeTracker_Snapshot ::
    "NamespacedName list \<Rightarrow> GatewayChangeTracker \<Rightarrow> (FrontendKey \<rightharpoonup> Frontend)" where
  "GatewayChangeTracker_Snapshot order gct =
     fold (\<lambda>k out. case gct_gateways gct k of
                     None \<Rightarrow> out
                   | Some frontendPorts \<Rightarrow>
                       fold (\<lambda>(name, port) out. out(name \<mapsto> port)) frontendPorts out)
       order Map.empty"

section \<open>The contract of a change tracker\<close>

text \<open>
  A tracker receives events, each about at most one object (\<open>target\<close>), and remembers for every
  object what its latest event says (\<open>outcome\<close>, \<open>None\<close> for "nothing to serve"). Its snapshot may
  walk a Go map in any order; the contract is that the order never shows.
\<close>

locale change_tracker =
  fixes update :: "'e \<Rightarrow> 's \<Rightarrow> 's"
    and init :: 's
    and invar :: "'s \<Rightarrow> bool"
    and content :: "'s \<Rightarrow> 'i \<rightharpoonup> 'c"
    and target :: "'e \<Rightarrow> 'i option"
    and outcome :: "'e \<Rightarrow> 'c option"
    and snapshot :: "'i list \<Rightarrow> 's \<Rightarrow> ('k \<rightharpoonup> 'v)"
  assumes invar_init: "invar init"
    and invar_update: "invar s \<Longrightarrow> invar (update e s)"
    and content_init: "content init = Map.empty"
    and content_update:
      "content (update e s) =
        (case target e of None \<Rightarrow> content s | Some i \<Rightarrow> (content s)(i := outcome e))"
    and snapshot_order:
      "invar s \<Longrightarrow> range_order (content s) ks \<Longrightarrow> range_order (content s) ls \<Longrightarrow>
        snapshot ks s = snapshot ls s"
begin

lemma invar_run: "invar s \<Longrightarrow> invar (fold update es s)"
  by (induction es arbitrary: s) (simp_all add: invar_update)

text \<open>After any run of events the tracker holds, for each object, the outcome of the last event
  about it: earlier events and events about other objects leave no trace.\<close>

lemma content_run:
  "content (fold update es s) i =
    (if \<exists>e\<in>set es. target e = Some i then outcome (last (filter (\<lambda>e. target e = Some i) es))
     else content s i)"
proof (induction es rule: rev_induct)
  case Nil
  then show ?case by simp
next
  case (snoc e es)
  then show ?case by (auto simp: content_update split: option.splits)
qed

lemma run_snapshot_order:
  assumes "range_order (content (fold update es init)) ks"
    and "range_order (content (fold update es init)) ls"
  shows "snapshot ks (fold update es init) = snapshot ls (fold update es init)"
  using snapshot_order [OF invar_run [OF invar_init]] assms by blast

text \<open>Only the domain can grow by events, so a run visits finitely many objects.\<close>

lemma content_run_finite: "finite (dom (content (fold update es init)))"
proof (induction es rule: rev_induct)
  case Nil
  then show ?case by (simp add: content_init)
next
  case (snoc e es)
  then show ?case by (auto simp: content_update split: option.splits)
qed

end

section \<open>Endpoint snapshots\<close>

subsection \<open>What one slice contributes\<close>

text \<open>The reference reading of the nested loops: one endpoint for every admitted port, ready endpoint
  and IPv4 address.\<close>

definition port_admitted :: "EndpointPort \<Rightarrow> int32 option" where
  "port_admitted p = (if ep_Protocol p \<in> {None, Some ''TCP''} then ep_Port p else None)"

definition addr_endpoints :: "int32 \<Rightarrow> string \<Rightarrow> Endpoint list" where
  "addr_endpoints port addr =
     (if To4 (ParseIP addr) = [] then [] else [NewEndpoint (IP_String (ParseIP addr)) (sint port)])"

definition ready_addresses :: "SliceEndpoint list \<Rightarrow> string list" where
  "ready_addresses es = concat (map se_Addresses (filter (\<lambda>e. se_Ready e \<noteq> Some False) es))"

definition slice_endpoints :: "EndpointSlice \<Rightarrow> Endpoint list" where
  "slice_endpoints s =
     (if es_AddressType s \<noteq> ''IPv4'' then []
      else concat (map (\<lambda>p. case port_admitted p of
                              None \<Rightarrow> []
                            | Some n \<Rightarrow> concat (map (addr_endpoints n) (ready_addresses (es_Endpoints s))))
                     (es_Ports s)))"

text \<open>Appending to the list of a key; appending nothing leaves the map alone.\<close>

definition map_append :: "'k \<Rightarrow> 'v list \<Rightarrow> ('k \<rightharpoonup> 'v list) \<Rightarrow> ('k \<rightharpoonup> 'v list)" where
  "map_append k vs m = (if vs = [] then m else m(k \<mapsto> map_get [] m k @ vs))"

lemma map_append_Nil [simp]: "map_append k [] m = m"
  by (simp add: map_append_def)

lemma map_append_append: "map_append k ws (map_append k vs m) = map_append k (vs @ ws) m"
  by (auto simp: map_append_def)

lemma fold_map_append:
  "fold (\<lambda>x. map_append k (f x)) xs m = map_append k (concat (map f xs)) m"
  by (induction xs arbitrary: m) (simp_all add: map_append_append)

lemma snapshot_addr_eq:
  "snapshot_addr key port = (\<lambda>addr. map_append key (addr_endpoints port addr))"
  by (intro ext) (auto simp: snapshot_addr_def addr_endpoints_def map_append_def Let_def)

lemma snapshot_endpoint_eq:
  "snapshot_endpoint key port =
    (\<lambda>e. map_append key
       (if se_Ready e = Some False then [] else concat (map (addr_endpoints port) (se_Addresses e))))"
  by (intro ext)
    (auto simp: snapshot_endpoint_def snapshot_addr_eq fold_map_append split: option.splits bool.splits)

lemma snapshot_port_eq:
  "snapshot_port key es =
    (\<lambda>p. map_append key (case port_admitted p of
                            None \<Rightarrow> []
                          | Some n \<Rightarrow> concat (map (addr_endpoints n) (ready_addresses es))))"
proof -
  have "concat (map (\<lambda>e. if se_Ready e = Some False then []
                         else concat (map (addr_endpoints n) (se_Addresses e))) es)
        = concat (map (addr_endpoints n) (ready_addresses es))" for n
    by (induction es) (auto simp: ready_addresses_def)
  then show ?thesis
    by (intro ext)
      (simp add: snapshot_port_def port_admitted_def snapshot_endpoint_eq fold_map_append
        split: option.splits)
qed

lemma snapshot_slice_eq:
  "snapshot_slice s =
    (case frontendKeyForEndpointSlice (Some s) of
       None \<Rightarrow> id | Some key \<Rightarrow> map_append key (slice_endpoints s))"
  by (rule ext)
    (simp add: snapshot_slice_def slice_endpoints_def snapshot_port_eq fold_map_append split: option.splits)

subsection \<open>The whole snapshot\<close>

text \<open>What the slices contribute to one frontend key, in visiting order.\<close>

definition key_endpoints ::
    "EndpointsChangeTracker \<Rightarrow> FrontendKey \<Rightarrow> NamespacedName list \<Rightarrow> Endpoint list" where
  "key_endpoints ect key order =
     concat (map (\<lambda>k. case ect_slices ect k of
                        None \<Rightarrow> []
                      | Some s \<Rightarrow> if frontendKeyForEndpointSlice (Some s) = Some key
                                  then slice_endpoints s else []) order)"

lemma map_append_get: "map_get [] (map_append k vs m) key = map_get [] m key @ (if k = key then vs else [])"
  by (auto simp: map_append_def)

lemma map_append_none: "map_append k vs m key = None \<longleftrightarrow> m key = None \<and> (k = key \<longrightarrow> vs = [])"
  by (auto simp: map_append_def)

lemma snapshot_fold_get:
  "map_get [] (fold (\<lambda>k out. case ect_slices ect k of None \<Rightarrow> out | Some s \<Rightarrow> snapshot_slice s out) order m) key
    = map_get [] m key @ key_endpoints ect key order"
  by (induction order arbitrary: m)
    (auto simp: key_endpoints_def snapshot_slice_eq map_append_get split: option.splits)

lemma snapshot_fold_none:
  "fold (\<lambda>k out. case ect_slices ect k of None \<Rightarrow> out | Some s \<Rightarrow> snapshot_slice s out) order m key = None
    \<longleftrightarrow> m key = None \<and> key_endpoints ect key order = []"
  by (induction order arbitrary: m)
    (auto simp: key_endpoints_def snapshot_slice_eq map_append_none split: option.splits)

lemma EndpointsChangeTracker_Snapshot_eq:
  "EndpointsChangeTracker_Snapshot order ect key =
    (if key_endpoints ect key order = [] then None
     else Some (go_sort Endpoint_String (key_endpoints ect key order)))"
proof -
  let ?out = "fold (\<lambda>k out. case ect_slices ect k of None \<Rightarrow> out | Some s \<Rightarrow> snapshot_slice s out) order Map.empty"
  have get: "map_get [] ?out key = key_endpoints ect key order"
    by (simp add: snapshot_fold_get)
  have none: "?out key = None \<longleftrightarrow> key_endpoints ect key order = []"
    by (simp add: snapshot_fold_none)
  show ?thesis
    using get none
    by (auto simp: EndpointsChangeTracker_Snapshot_def map_get_def split: option.splits)
qed

text \<open>Endpoints that the tracker builds carry a dotted-decimal IPv4 text, so their text form tells
  them apart and sorting by it has only one result.\<close>

definition ipv4_endpoint :: "Endpoint \<Rightarrow> bool" where
  "ipv4_endpoint e \<longleftrightarrow> (\<exists>b. length b = 4 \<and> ept_IP e = ipv4_String b)"

lemma Endpoint_String_inj:
  assumes "ipv4_endpoint a" and "ipv4_endpoint b" and "Endpoint_String a = Endpoint_String b"
  shows "a = b"
proof -
  have "CHR '':'' \<notin> set (ept_IP a)" "CHR ''%'' \<notin> set (ept_IP a)"
    "CHR '':'' \<notin> set (ept_IP b)" "CHR ''%'' \<notin> set (ept_IP b)"
    using assms(1,2) by (auto simp: ipv4_endpoint_def)
  with assms(3) have "ept_IP a = ept_IP b \<and> Itoa (ept_Port a) = Itoa (ept_Port b)"
    unfolding Endpoint_String_def by (intro JoinHostPort_inj)
  then show ?thesis by simp
qed

lemma slice_endpoints_ipv4: "e \<in> set (slice_endpoints s) \<Longrightarrow> ipv4_endpoint e"
  by (fastforce simp: slice_endpoints_def addr_endpoints_def NewEndpoint_def IP_String_To4 ipv4_endpoint_def
      dest: length_To4 split: if_splits option.splits)

lemma key_endpoints_ipv4: "e \<in> set (key_endpoints ect key order) \<Longrightarrow> ipv4_endpoint e"
  by (auto simp: key_endpoints_def dest: slice_endpoints_ipv4 split: option.splits if_splits)

lemma key_endpoints_inj: "inj_on Endpoint_String (set (key_endpoints ect key order))"
  by (intro inj_onI Endpoint_String_inj) (auto dest: key_endpoints_ipv4)

lemma key_endpoints_mset:
  "mset ks = mset ls \<Longrightarrow> mset (key_endpoints ect key ks) = mset (key_endpoints ect key ls)"
  unfolding key_endpoints_def by (rule concat_map_mset_cong)

lemma EndpointsChangeTracker_Snapshot_order:
  assumes "range_order (ect_slices ect) ks" and "range_order (ect_slices ect) ls"
  shows "EndpointsChangeTracker_Snapshot ks ect = EndpointsChangeTracker_Snapshot ls ect"
proof (rule ext)
  fix key
  have m: "mset (key_endpoints ect key ks) = mset (key_endpoints ect key ls)"
    by (rule key_endpoints_mset [OF range_order_mset [OF assms]])
  then have "key_endpoints ect key ks = [] \<longleftrightarrow> key_endpoints ect key ls = []"
    by (metis mset_zero_iff)
  moreover have "go_sort Endpoint_String (key_endpoints ect key ks)
      = go_sort Endpoint_String (key_endpoints ect key ls)"
    by (rule go_sort_perm_eq [OF m key_endpoints_inj])
  ultimately show "EndpointsChangeTracker_Snapshot ks ect key = EndpointsChangeTracker_Snapshot ls ect key"
    by (simp add: EndpointsChangeTracker_Snapshot_eq)
qed

section \<open>Gateway snapshots\<close>

lemma supported_listeners_iff:
  "supported_listeners names ports ls \<longleftrightarrow>
    (\<forall>l\<in>set ls. l_Protocol l = ''TCP'' \<and> l_Name l \<noteq> [] \<and> l_Port l \<noteq> 0
       \<and> l_Name l \<notin> set names \<and> l_Port l \<notin> set ports)
    \<and> distinct (map l_Name ls) \<and> distinct (map l_Port ls)"
  by (induction names ports ls rule: supported_listeners.induct) (auto simp: image_iff)

lemma gatewaySupported_address:
  "gatewaySupported g \<Longrightarrow>
    \<exists>address. gw_Addresses g = [address] \<and> ga_Type address = Some ''IPAddress'' \<and> ga_Value address \<noteq> []"
  by (auto simp: gatewaySupported_def split: if_splits list.splits)

lemma gatewaySupported_listeners:
  "gatewaySupported g \<Longrightarrow> supported_listeners [] [] (gw_Listeners g) \<and> gw_Listeners g \<noteq> []"
  by (auto simp: gatewaySupported_def split: if_splits)

lemma map_put_fresh: "k \<notin> fst ` set es \<Longrightarrow> map_put k v es = es @ [(k, v)]"
  by (induction k v es rule: map_put.induct) auto

lemma fold_map_put_distinct:
  assumes "distinct (map (fst \<circ> f) xs)" and "fst ` set es \<inter> (fst \<circ> f) ` set xs = {}"
  shows "fold (\<lambda>x out. case f x of (k, v) \<Rightarrow> map_put k v out) xs es = es @ map f xs"
  using assms
proof (induction xs arbitrary: es)
  case Nil
  then show ?case by simp
next
  case (Cons x xs)
  obtain k v where f: "f x = (k, v)" by (cases "f x")
  with Cons.prems(2) have "k \<notin> fst ` set es" by auto
  then have put: "map_put k v es = es @ [(k, v)]" by (rule map_put_fresh)
  have "fold (\<lambda>x out. case f x of (k, v) \<Rightarrow> map_put k v out) xs (es @ [(k, v)]) = (es @ [(k, v)]) @ map f xs"
    using Cons.prems f by (intro Cons.IH) auto
  with f put show ?case by simp
qed

lemma frontend_entry_keys:
  "supported_listeners [] [] ls \<Longrightarrow> distinct (map (fst \<circ> frontend_entry g vip) ls)"
  by (induction ls) (auto simp: supported_listeners_iff frontend_entry_def)

text \<open>A supported Gateway with an IPv4 address yields one entry per listener, any other Gateway none.\<close>

lemma gatewayToFrontendMap_eq:
  "gatewayToFrontendMap (Some g) =
    (let vip = ParseIP (ga_Value (hd (gw_Addresses g))) in
     if gatewaySupported g \<and> To4 vip \<noteq> [] then map (frontend_entry g vip) (gw_Listeners g) else [])"
  using fold_map_put_distinct [OF frontend_entry_keys, of "gw_Listeners g" "[]" g]
    gatewaySupported_listeners [of g]
  by (auto simp: gatewayToFrontendMap_def Let_def)

definition gct_inv :: "GatewayChangeTracker \<Rightarrow> bool" where
  "gct_inv gct \<longleftrightarrow>
     (\<forall>key m. gct_gateways gct key = Some m \<longrightarrow>
        m \<noteq> [] \<and> distinct (map fst m) \<and> (\<forall>fk\<in>fst ` set m. fk_NamespacedName fk = key))"

lemma gatewayToFrontendMap_inv:
  "distinct (map fst (gatewayToFrontendMap (Some g)))"
  "fk \<in> fst ` set (gatewayToFrontendMap (Some g)) \<Longrightarrow>
    fk_NamespacedName fk = NamespacedName (gw_Namespace g) (gw_Name g)"
  using frontend_entry_keys [of "gw_Listeners g" g] gatewaySupported_listeners [of g]
  by (auto simp: gatewayToFrontendMap_eq Let_def frontend_entry_def)

lemma fold_update_map_of:
  "distinct (map fst es) \<Longrightarrow> fold (\<lambda>(n, p) out. out(n \<mapsto> p)) es m = m ++ map_of es"
proof (induction es arbitrary: m)
  case Nil
  then show ?case by simp
next
  case (Cons e es)
  obtain n p where e: "e = (n, p)" by (cases e)
  with Cons.prems have "n \<notin> dom (map_of es)" by (simp add: dom_map_of_conv_image_fst)
  with Cons e show ?case by (auto simp: map_add_def fun_eq_iff domIff split: option.splits)
qed

lemma GatewayChangeTracker_Snapshot_eq:
  assumes "gct_inv gct"
  shows "GatewayChangeTracker_Snapshot order gct fk =
    (if fk_NamespacedName fk \<in> set order
     then Option.bind (gct_gateways gct (fk_NamespacedName fk)) (\<lambda>m. map_of m fk) else None)"
proof (induction order rule: rev_induct)
  case Nil
  then show ?case by (simp add: GatewayChangeTracker_Snapshot_def)
next
  case (snoc k order)
  show ?case
  proof (cases "gct_gateways gct k")
    case None
    with snoc show ?thesis by (auto simp: GatewayChangeTracker_Snapshot_def)
  next
    case (Some m)
    with assms have d: "distinct (map fst m)" and k: "\<forall>fk\<in>fst ` set m. fk_NamespacedName fk = k"
      by (auto simp: gct_inv_def)
    have snap: "GatewayChangeTracker_Snapshot (order @ [k]) gct
        = GatewayChangeTracker_Snapshot order gct ++ map_of m"
      by (simp add: GatewayChangeTracker_Snapshot_def Some fold_update_map_of [OF d])
    show ?thesis
    proof (cases "fk_NamespacedName fk = k")
      case True
      with snap snoc Some show ?thesis by (auto simp: map_add_def split: option.splits)
    next
      case False
      with k have "map_of m fk = None" by (auto simp: map_of_eq_None_iff)
      with False snap snoc Some show ?thesis by (simp add: map_add_def)
    qed
  qed
qed

text \<open>The events of the two trackers, as the contract sees them.\<close>

definition gateway_target :: "Gateway option \<times> Gateway option \<Rightarrow> NamespacedName option" where
  "gateway_target e =
     (case e of (previous, current) \<Rightarrow>
        map_option (\<lambda>g. NamespacedName (gw_Namespace g) (gw_Name g))
          (case current of Some g \<Rightarrow> Some g | None \<Rightarrow> previous))"

definition gateway_outcome :: "Gateway option \<times> Gateway option \<Rightarrow> FrontendMap option" where
  "gateway_outcome e =
     (case gatewayToFrontendMap (snd e) of [] \<Rightarrow> None | m \<Rightarrow> Some m)"

definition gateway_update :: "Gateway option \<times> Gateway option \<Rightarrow> GatewayChangeTracker \<Rightarrow> GatewayChangeTracker" where
  "gateway_update e gct = snd (GatewayChangeTracker_Update (fst e) (snd e) gct)"

definition slice_target :: "EndpointSlice option \<times> bool \<Rightarrow> NamespacedName option" where
  "slice_target e = map_option (\<lambda>s. meta_key (es_Meta s)) (fst e)"

definition slice_outcome :: "EndpointSlice option \<times> bool \<Rightarrow> EndpointSlice option" where
  "slice_outcome e = (if snd e then None else fst e)"

definition slice_update :: "EndpointSlice option \<times> bool \<Rightarrow> EndpointsChangeTracker \<Rightarrow> EndpointsChangeTracker" where
  "slice_update e ect = snd (EndpointsChangeTracker_Update (fst e) (snd e) ect)"

lemma gatewayToFrontendMap_None [simp]: "gatewayToFrontendMap None = []"
  by (simp add: gatewayToFrontendMap_def)

lemma gateway_update_content:
  "gct_gateways (gateway_update e gct) =
    (case gateway_target e of
       None \<Rightarrow> gct_gateways gct | Some k \<Rightarrow> (gct_gateways gct)(k := gateway_outcome e))"
  by (cases e)
    (auto simp: gateway_update_def GatewayChangeTracker_Update_def gateway_target_def gateway_outcome_def
      Let_def split: option.splits list.splits)

lemma slice_update_content:
  "ect_slices (slice_update e ect) =
    (case slice_target e of
       None \<Rightarrow> ect_slices ect | Some k \<Rightarrow> (ect_slices ect)(k := slice_outcome e))"
  by (cases e)
    (auto simp: slice_update_def EndpointsChangeTracker_Update_def slice_target_def slice_outcome_def
      Let_def split: option.splits)

lemma gateway_outcome_entries:
  assumes "gateway_outcome e = Some m" and "gateway_target e = Some k"
  shows "m \<noteq> [] \<and> distinct (map fst m) \<and> (\<forall>fk\<in>fst ` set m. fk_NamespacedName fk = k)"
proof -
  obtain previous current where e: "e = (previous, current)" by (cases e)
  with assms(1) obtain g where g: "current = Some g"
    by (cases current) (auto simp: gateway_outcome_def)
  with assms e have "m = gatewayToFrontendMap (Some g)" "m \<noteq> []"
    "k = NamespacedName (gw_Namespace g) (gw_Name g)"
    by (auto simp: gateway_outcome_def gateway_target_def split: list.splits)
  then show ?thesis using gatewayToFrontendMap_inv(1) [of g] gatewayToFrontendMap_inv(2) [of _ g] by auto
qed

lemma gct_inv_update: "gct_inv gct \<Longrightarrow> gct_inv (gateway_update e gct)"
  using gateway_outcome_entries [of e]
  unfolding gct_inv_def gateway_update_content
  by (auto split: option.splits if_splits)

interpretation gateways: change_tracker gateway_update NewGatewayChangeTracker gct_inv gct_gateways
    gateway_target gateway_outcome GatewayChangeTracker_Snapshot
proof unfold_locales
  show "gct_inv NewGatewayChangeTracker"
    by (simp add: gct_inv_def NewGatewayChangeTracker_def)
  show "gct_gateways NewGatewayChangeTracker = Map.empty"
    by (simp add: NewGatewayChangeTracker_def)
  show "gct_inv s \<Longrightarrow> gct_inv (gateway_update e s)" for s e
    by (rule gct_inv_update)
  show "gct_gateways (gateway_update e s) =
      (case gateway_target e of
         None \<Rightarrow> gct_gateways s | Some i \<Rightarrow> (gct_gateways s)(i := gateway_outcome e))" for e s
    by (rule gateway_update_content)
  show "GatewayChangeTracker_Snapshot ks s = GatewayChangeTracker_Snapshot ls s"
    if "gct_inv s" "range_order (gct_gateways s) ks" "range_order (gct_gateways s) ls" for s ks ls
    using that by (intro ext) (simp add: GatewayChangeTracker_Snapshot_eq range_order_def)
qed

interpretation slices: change_tracker slice_update NewEndpointsChangeTracker "\<lambda>_. True" ect_slices
    slice_target slice_outcome EndpointsChangeTracker_Snapshot
proof unfold_locales
  show "ect_slices NewEndpointsChangeTracker = Map.empty"
    by (simp add: NewEndpointsChangeTracker_def)
  show "ect_slices (slice_update e s) =
      (case slice_target e of None \<Rightarrow> ect_slices s | Some i \<Rightarrow> (ect_slices s)(i := slice_outcome e))" for e s
    by (rule slice_update_content)
  show "EndpointsChangeTracker_Snapshot ks s = EndpointsChangeTracker_Snapshot ls s"
    if "range_order (ect_slices s) ks" "range_order (ect_slices s) ls" for s ks ls
    using that by (rule EndpointsChangeTracker_Snapshot_order)
qed simp_all

section \<open>What a run of events leaves\<close>

text \<open>The object that the latest event about a name carries; \<open>None\<close> before any event and after a
  deletion.\<close>

definition last_gateway :: "(Gateway option \<times> Gateway option) list \<Rightarrow> NamespacedName \<Rightarrow> Gateway option" where
  "last_gateway es n =
     (case filter (\<lambda>e. gateway_target e = Some n) es of [] \<Rightarrow> None | ds \<Rightarrow> snd (last ds))"

definition last_slice :: "(EndpointSlice option \<times> bool) list \<Rightarrow> NamespacedName \<Rightarrow> EndpointSlice option" where
  "last_slice es n =
     (case filter (\<lambda>e. slice_target e = Some n) es of [] \<Rightarrow> None | ds \<Rightarrow> slice_outcome (last ds))"

lemma gateways_content_run:
  "gct_gateways (fold gateway_update es NewGatewayChangeTracker) n =
    (case last_gateway es n of
       None \<Rightarrow> None
     | Some g \<Rightarrow> (case gatewayToFrontendMap (Some g) of [] \<Rightarrow> None | m \<Rightarrow> Some m))"
proof -
  have "filter (\<lambda>e. gateway_target e = Some n) es = [] \<longleftrightarrow> \<not> (\<exists>e\<in>set es. gateway_target e = Some n)"
    by (auto simp: filter_empty_conv)
  then show ?thesis
    by (auto simp: gateways.content_run last_gateway_def gateway_outcome_def gateways.content_init
        split: list.splits option.splits)
qed

lemma slices_content_run:
  "ect_slices (fold slice_update es NewEndpointsChangeTracker) = last_slice es"
proof (rule ext)
  fix n
  have "filter (\<lambda>e. slice_target e = Some n) es = [] \<longleftrightarrow> \<not> (\<exists>e\<in>set es. slice_target e = Some n)"
    by (auto simp: filter_empty_conv)
  then show "ect_slices (fold slice_update es NewEndpointsChangeTracker) n = last_slice es n"
    by (auto simp: slices.content_run last_slice_def slices.content_init split: list.splits)
qed

lemma last_gateway_name:
  assumes "last_gateway es n = Some g"
  shows "n = NamespacedName (gw_Namespace g) (gw_Name g)"
proof -
  let ?F = "filter (\<lambda>e. gateway_target e = Some n) es"
  from assms have ne: "?F \<noteq> []" and l: "snd (last ?F) = Some g"
    by (auto simp: last_gateway_def split: list.splits)
  from ne have "last ?F \<in> set ?F" by (rule last_in_set)
  then have "gateway_target (last ?F) = Some n" by simp
  with l show ?thesis by (auto simp: gateway_target_def split: prod.splits)
qed

lemma last_gateway_mem:
  assumes "last_gateway es n = Some g"
  shows "\<exists>previous. (previous, Some g) \<in> set es"
proof -
  let ?F = "filter (\<lambda>e. gateway_target e = Some n) es"
  from assms have ne: "?F \<noteq> []" and l: "snd (last ?F) = Some g"
    by (auto simp: last_gateway_def split: list.splits)
  from ne have "last ?F \<in> set ?F" by (rule last_in_set)
  with l show ?thesis by (metis filter_is_subset prod.collapse subsetD)
qed

lemma GatewayChangeTracker_Snapshot_run:
  assumes "range_order (gct_gateways (fold gateway_update es NewGatewayChangeTracker)) ks"
  shows "GatewayChangeTracker_Snapshot ks (fold gateway_update es NewGatewayChangeTracker) fk =
    Option.bind (last_gateway es (fk_NamespacedName fk)) (\<lambda>g. map_of (gatewayToFrontendMap (Some g)) fk)"
proof -
  have inv: "gct_inv (fold gateway_update es NewGatewayChangeTracker)"
    by (rule gateways.invar_run [OF gateways.invar_init])
  show ?thesis
    using range_orderD(2) [OF assms]
    by (auto simp: GatewayChangeTracker_Snapshot_eq [OF inv] gateways_content_run domIff
        split: option.splits list.splits)
qed

lemma map_of_frontend_entries:
  assumes "distinct (map (fst \<circ> frontend_entry g vip) ls)"
  shows "map_of (map (frontend_entry g vip) ls) fk = Some fe \<longleftrightarrow>
    (\<exists>l\<in>set ls. frontend_entry g vip l = (fk, fe))"
  using assms by (auto simp: map_of_eq_Some_iff image_iff eq_commute)

lemma GatewayChangeTracker_Snapshot_run_Some:
  assumes "range_order (gct_gateways (fold gateway_update es NewGatewayChangeTracker)) ks"
  shows "GatewayChangeTracker_Snapshot ks (fold gateway_update es NewGatewayChangeTracker) fk = Some fe \<longleftrightarrow>
    (\<exists>g l vip. last_gateway es (fk_NamespacedName fk) = Some g \<and> gatewaySupported g
       \<and> vip = ParseIP (ga_Value (hd (gw_Addresses g))) \<and> To4 vip \<noteq> []
       \<and> l \<in> set (gw_Listeners g)
       \<and> fk = FrontendKey (NamespacedName (gw_Namespace g) (gw_Name g)) (l_Name l)
       \<and> fe = \<lparr>fe_Address = vip, fe_Port = sint (l_Port l)\<rparr>)"
  using frontend_entry_keys gatewaySupported_listeners
  by (fastforce simp: GatewayChangeTracker_Snapshot_run [OF assms] gatewayToFrontendMap_eq Let_def
      bind_eq_Some_conv map_of_frontend_entries frontend_entry_def NewFrontend_def split: if_splits)

lemma set_ready_addresses:
  "set (ready_addresses es) = {a. \<exists>ep\<in>set es. se_Ready ep \<noteq> Some False \<and> a \<in> set (se_Addresses ep)}"
  by (auto simp: ready_addresses_def)

lemma set_addr_endpoints:
  "e \<in> set (addr_endpoints port a) \<longleftrightarrow>
    To4 (ParseIP a) \<noteq> [] \<and> e = \<lparr>ept_IP = ipv4_String (To4 (ParseIP a)), ept_Port = sint port\<rparr>"
  by (auto simp: addr_endpoints_def NewEndpoint_def IP_String_To4)

lemma port_admitted_Some:
  "port_admitted p = Some n \<longleftrightarrow> ep_Port p = Some n \<and> ep_Protocol p \<in> {None, Some ''TCP''}"
  by (auto simp: port_admitted_def)

lemma set_slice_endpoints:
  "e \<in> set (slice_endpoints s) \<longleftrightarrow>
    es_AddressType s = ''IPv4'' \<and>
    (\<exists>p\<in>set (es_Ports s). \<exists>n. port_admitted p = Some n \<and>
       (\<exists>a\<in>set (ready_addresses (es_Endpoints s)). e \<in> set (addr_endpoints n a)))"
  by (auto simp: slice_endpoints_def split: option.splits) metis+

lemma set_key_endpoints:
  "e \<in> set (key_endpoints t key order) \<longleftrightarrow>
    (\<exists>k\<in>set order. \<exists>s. ect_slices t k = Some s \<and> frontendKeyForEndpointSlice (Some s) = Some key
       \<and> e \<in> set (slice_endpoints s))"
  by (auto simp: key_endpoints_def split: option.splits if_splits) metis+

text \<open>A Gateway is supported by the agent exactly when it meets the documented subset: named,
  not being deleted, of class \<open>clusterip-gw\<close>, 1 to 10 TCP listeners with non-empty distinct names and
  non-zero distinct ports, and exactly one published address, of type \<open>IPAddress\<close> and not empty. The
  early-exit loop with its two seen-sets computes this.\<close>

lemma gatewaySupported_iff:
  "gatewaySupported g \<longleftrightarrow>
    gw_Namespace g \<noteq> [] \<and> gw_Name g \<noteq> [] \<and> om_DeletionTimestamp (gw_Meta g) = None
    \<and> gw_GatewayClassName g = GatewayClassName
    \<and> 1 \<le> length (gw_Listeners g) \<and> length (gw_Listeners g) \<le> 10
    \<and> set (gw_Listeners g) \<subseteq> {l. l_Protocol l = ''TCP'' \<and> l_Name l \<noteq> [] \<and> l_Port l \<noteq> 0}
    \<and> distinct (map l_Name (gw_Listeners g)) \<and> distinct (map l_Port (gw_Listeners g))
    \<and> (\<exists>address. gw_Addresses g = [address] \<and> ga_Type address = Some ''IPAddress'' \<and> ga_Value address \<noteq> [])"
  by (cases "gw_Listeners g")
    (auto simp: gatewaySupported_def supported_listeners_iff MaxSupportedGatewayListeners_def
      split: list.splits)

text \<open>C17: After any sequence of Gateway add, update and delete events, in whatever order the snapshot
  walks its map, the frontends of the snapshot are exactly the listeners of the Gateways whose latest
  event carries a supported object with an IPv4 address, each with that address and the listener's
  port; deleted, superseded and unsupported Gateways leave nothing behind.\<close>

theorem frontend_snapshot_after_events:
  assumes "range_order (gct_gateways (fold gateway_update es NewGatewayChangeTracker)) ks"
  shows "GatewayChangeTracker_Snapshot ks (fold gateway_update es NewGatewayChangeTracker) fk = Some fe \<longleftrightarrow>
    (\<exists>g l vip. last_gateway es (fk_NamespacedName fk) = Some g \<and> gatewaySupported g
       \<and> vip = ParseIP (ga_Value (hd (gw_Addresses g))) \<and> To4 vip \<noteq> []
       \<and> l \<in> set (gw_Listeners g)
       \<and> fk = FrontendKey (NamespacedName (gw_Namespace g) (gw_Name g)) (l_Name l)
       \<and> fe = \<lparr>fe_Address = vip, fe_Port = sint (l_Port l)\<rparr>)"
  by (rule GatewayChangeTracker_Snapshot_run_Some [OF assms])

lemma sample_gateway_supported: "gatewaySupported sample_gateway"
  by (simp add: gatewaySupported_def sample_defs GatewayClassName_def MaxSupportedGatewayListeners_def)

lemma sample_slice_key:
  "frontendKeyForEndpointSlice (Some sample_slice) = Some (FrontendKey sample_nn ''tcp'')"
  by (simp add: frontendKeyForEndpointSlice_def sample_defs label_key_defs ManagedByValue_def map_get_def Let_def)

lemma sample_gateway_content:
  "gct_gateways (fold gateway_update [(None, Some sample_gateway)] NewGatewayChangeTracker) =
    [sample_nn \<mapsto> gatewayToFrontendMap (Some sample_gateway)]"
  by (simp add: gateway_update_content gateway_target_def gateway_outcome_def gatewayToFrontendMap_eq
      sample_gateway_supported NewGatewayChangeTracker_def)
    (simp add: sample_defs sample_ips)

lemma sample_slice_content:
  "ect_slices (fold slice_update [(Some sample_slice, False)] NewEndpointsChangeTracker) =
    [sample_slice_nn \<mapsto> sample_slice]"
  by (simp add: slice_update_content slice_target_def slice_outcome_def NewEndpointsChangeTracker_def
      meta_key_def)
    (simp add: sample_defs)

theorem frontend_snapshot_after_events_witness:
  "range_order (gct_gateways (fold gateway_update [(None, Some sample_gateway)] NewGatewayChangeTracker)) [sample_nn]
    \<and> GatewayChangeTracker_Snapshot [sample_nn]
        (fold gateway_update [(None, Some sample_gateway)] NewGatewayChangeTracker) (FrontendKey sample_nn ''tcp'')
      = Some \<lparr>fe_Address = v4InV6Prefix @ [10, 96, 0, 10], fe_Port = 80\<rparr>"
proof -
  have h: "range_order (gct_gateways (fold gateway_update [(None, Some sample_gateway)] NewGatewayChangeTracker)) [sample_nn]"
    unfolding sample_gateway_content by (simp add: range_order_def)
  have "last_gateway [(None, Some sample_gateway)] sample_nn = Some sample_gateway"
    by (simp add: last_gateway_def gateway_target_def sample_defs)
  then show ?thesis
    using h sample_gateway_supported
    by (subst frontend_snapshot_after_events [OF h])
      (simp add: sample_defs sample_ips)
qed

text \<open>C18: After any sequence of EndpointSlice events, the endpoints of a frontend key are exactly the
  IPv4 addresses of not-unready endpoints on TCP (or unspecified) ports of the managed IPv4 slices
  whose latest event is not a deletion and whose labels name that key; the list is sorted by
  \<open>IP:port\<close>.\<close>

theorem endpoint_snapshot_after_events:
  assumes "range_order (ect_slices (fold slice_update es NewEndpointsChangeTracker)) ks"
  shows "let snap = map_get [] (EndpointsChangeTracker_Snapshot ks
      (fold slice_update es NewEndpointsChangeTracker)) fk in
    sorted (map Endpoint_String snap) \<and>
    (e \<in> set snap \<longleftrightarrow>
      (\<exists>n s p port ep a. last_slice es n = Some s \<and> frontendKeyForEndpointSlice (Some s) = Some fk
         \<and> es_AddressType s = ''IPv4'' \<and> p \<in> set (es_Ports s) \<and> ep_Port p = Some port
         \<and> ep_Protocol p \<in> {None, Some ''TCP''} \<and> ep \<in> set (es_Endpoints s) \<and> se_Ready ep \<noteq> Some False
         \<and> a \<in> set (se_Addresses ep) \<and> To4 (ParseIP a) \<noteq> []
         \<and> e = \<lparr>ept_IP = ipv4_String (To4 (ParseIP a)), ept_Port = sint port\<rparr>))"
proof -
  let ?t = "fold slice_update es NewEndpointsChangeTracker"
  let ?snap = "map_get [] (EndpointsChangeTracker_Snapshot ks ?t) fk"
  have snap: "?snap = go_sort Endpoint_String (key_endpoints ?t fk ks)"
    by (simp add: map_get_def EndpointsChangeTracker_Snapshot_eq)
  have mem: "e \<in> set (slice_endpoints s) \<longleftrightarrow>
      (\<exists>p port ep a. es_AddressType s = ''IPv4'' \<and> p \<in> set (es_Ports s) \<and> ep_Port p = Some port
         \<and> ep_Protocol p \<in> {None, Some ''TCP''} \<and> ep \<in> set (es_Endpoints s) \<and> se_Ready ep \<noteq> Some False
         \<and> a \<in> set (se_Addresses ep) \<and> To4 (ParseIP a) \<noteq> []
         \<and> e = \<lparr>ept_IP = ipv4_String (To4 (ParseIP a)), ept_Port = sint port\<rparr>)" for s
    unfolding set_slice_endpoints port_admitted_Some set_ready_addresses set_addr_endpoints by blast
  have "e \<in> set ?snap \<longleftrightarrow> (\<exists>n s. last_slice es n = Some s \<and> frontendKeyForEndpointSlice (Some s) = Some fk
      \<and> e \<in> set (slice_endpoints s))"
    using range_orderD(2) [OF assms(1)]
    unfolding snap set_go_sort set_key_endpoints by (auto simp: slices_content_run)
  then show ?thesis unfolding Let_def using mem by (simp add: snap sorted_go_sort)
qed

theorem endpoint_snapshot_after_events_witness:
  "range_order (ect_slices (fold slice_update [(Some sample_slice, False)] NewEndpointsChangeTracker)) [sample_slice_nn]
    \<and> \<lparr>ept_IP = ''10.0.0.2'', ept_Port = 8080\<rparr> \<in> set (map_get [] (EndpointsChangeTracker_Snapshot [sample_slice_nn]
        (fold slice_update [(Some sample_slice, False)] NewEndpointsChangeTracker)) (FrontendKey sample_nn ''tcp''))"
proof -
  have h: "range_order (ect_slices (fold slice_update [(Some sample_slice, False)] NewEndpointsChangeTracker)) [sample_slice_nn]"
    unfolding sample_slice_content by (simp add: range_order_def)
  have l: "last_slice [(Some sample_slice, False)] sample_slice_nn = Some sample_slice"
    by (simp add: last_slice_def slice_target_def slice_outcome_def meta_key_def sample_defs)
  have fields: "es_AddressType sample_slice = ''IPv4''"
    "\<lparr>ep_Name = None, ep_Protocol = Some ''TCP'', ep_Port = Some 8080\<rparr> \<in> set (es_Ports sample_slice)"
    "sample_endpoint ''10.0.0.2'' \<in> set (es_Endpoints sample_slice)"
    by (simp_all add: sample_slice_def)
  have mem: "\<lparr>ept_IP = ''10.0.0.2'', ept_Port = 8080\<rparr> = \<lparr>ept_IP = ipv4_String (To4 (ParseIP ''10.0.0.2'')),
      ept_Port = sint (8080 :: int32)\<rparr>"
    by (simp add: sample_ips sample_strings)
  show ?thesis
    using h endpoint_snapshot_after_events [OF h, of "FrontendKey sample_nn ''tcp''"
        "\<lparr>ept_IP = ''10.0.0.2'', ept_Port = 8080\<rparr>", unfolded Let_def] l sample_slice_key fields mem
    by (fastforce simp: sample_endpoint_def sample_ips)
qed

end
