(* ===== verification/Nftables.thy ===== *)
theory Nftables
  imports AgentState
begin

text \<open>
  \<open>internal/agent/nftables/netlink.go\<close>: the ruleset specification, the expressions of its rules, and
  the netlink applier that queues a full-table replacement on a connection and flushes it.

  The connection is an interface of the \<open>google/nftables\<close> package, the context belongs to the caller
  and the byte encoders are that package's too: all of them are fields of \<open>nft_env\<close>, an argument of
  every definition that uses them, over an arbitrary type \<open>'w\<close> of world states. Each call may change
  the world, so a cancellation or a kernel answer can differ from call to call.
\<close>

section \<open>Ruleset specifications\<close>

datatype TableFamily = TableFamilyIPv4 | TableFamilyIPv6 | TableFamilyINet
datatype ChainHook = ChainHookPrerouting | ChainHookInput | ChainHookForward | ChainHookOutput | ChainHookPostrouting
datatype ChainPriority = ChainPriorityNATDest | ChainPriorityFilter | ChainPriorityNATSource
datatype ChainType = ChainTypeNAT | ChainTypeFilter | ChainTypeRoute
datatype ChainPolicy = ChainPolicyAccept | ChainPolicyDrop

definition preroutingChainName :: string where
  "preroutingChainName = ''prerouting''"

definition outputChainName :: string where
  "outputChainName = ''output''"

record baseChainSpec =
  bcs_name :: string
  bcs_hook :: ChainHook
  bcs_priority :: ChainPriority
  bcs_chainType :: ChainType
  bcs_policy :: ChainPolicy

record backendChainSpec =
  bes_chainName :: string
  bes_backendIP :: net_IP
  bes_backendPort :: uint16

record serviceChainSpec =
  scs_serviceKey :: string
  scs_chainName :: string
  scs_dispatchMapName :: string
  scs_clusterIP :: net_IP
  scs_servicePort :: uint16
  scs_backendChains :: "backendChainSpec list"

record rulesetSpec =
  rs_tableName :: string
  rs_family :: TableFamily
  rs_baseChains :: "baseChainSpec list"
  rs_serviceChains :: "serviceChainSpec list"

definition defaultBaseChains :: "baseChainSpec list" where
  "defaultBaseChains =
     [\<lparr>bcs_name = preroutingChainName, bcs_hook = ChainHookPrerouting, bcs_priority = ChainPriorityNATDest,
        bcs_chainType = ChainTypeNAT, bcs_policy = ChainPolicyAccept\<rparr>,
      \<lparr>bcs_name = outputChainName, bcs_hook = ChainHookOutput, bcs_priority = ChainPriorityNATDest,
        bcs_chainType = ChainTypeNAT, bcs_policy = ChainPolicyAccept\<rparr>]"

definition copyIPv4 :: "net_IP \<Rightarrow> net_IP" where
  "copyIPv4 ip = (if ip = [] then [] else let ipv4 = To4 ip in if ipv4 = [] then [] else ipv4)"

section \<open>Objects of the nftables library\<close>

datatype PayloadBase = PayloadBaseNetworkHeader | PayloadBaseTransportHeader
datatype CmpOp = CmpOpEq | CmpOpNeq
datatype MetaKey = MetaKeyL4PROTO
datatype NumgenType = NFT_NG_INCREMENTAL | NFT_NG_RANDOM
datatype NATType = NATTypeSourceNAT | NATTypeDestNAT
datatype VerdictKind = VerdictJump | VerdictGoto | VerdictReturn | VerdictAccept | VerdictDrop

record Verdict =
  v_Kind :: VerdictKind
  v_Chain :: string

datatype expr =
    Payload (pl_DestRegister: nat) (pl_Base: PayloadBase) (pl_Offset: nat) (pl_Len: nat)
  | Cmp (cmp_Op: CmpOp) (cmp_Register: nat) (cmp_Data: "byte list")
  | MetaExpr (meta_Key: MetaKey) (meta_Register: nat)
  | VerdictExpr Verdict
  | Numgen (ng_Register: nat) (ng_Type: NumgenType) (ng_Modulus: uint32) (ng_Offset: uint32)
  | Lookup (lu_SourceRegister: nat) (lu_DestRegister: nat) (lu_IsDestRegSet: bool) (lu_SetName: string)
      (lu_SetID: uint32)
  | Immediate (imm_Register: nat) (imm_Data: "byte list")
  | NAT (nat_Type: NATType) (nat_Family: TableFamily) (nat_RegAddrMin: nat) (nat_RegProtoMin: nat)

record Table =
  tb_Name :: string
  tb_Family :: TableFamily

record Chain =
  ch_Name :: string
  ch_Table :: Table
  ch_Hooknum :: "ChainHook option"
  ch_Priority :: "ChainPriority option"
  ch_Type :: "ChainType option"
  ch_Policy :: "ChainPolicy option"

datatype SetDatatype = TypeInteger | TypeVerdict

record NftSet =
  set_Table :: Table
  set_Name :: string
  set_ID :: uint32
  set_KeyType :: SetDatatype
  set_DataType :: SetDatatype
  set_IsMap :: bool

record SetElement =
  sel_Key :: "byte list"
  sel_VerdictData :: "Verdict option"

record Rule =
  rule_Table :: Table
  rule_Chain :: "Chain option"
  rule_Exprs :: "expr list"

text \<open>The caller's context, the connection factory, the connection and the byte encoders.\<close>

record 'w nft_env =
  ctx_Err :: "'w \<Rightarrow> goerror option \<times> 'w"
  connFactory_New :: "'w \<Rightarrow> goerror option \<times> 'w"
  DelTable :: "Table \<Rightarrow> 'w \<Rightarrow> 'w"
  AddTable :: "Table \<Rightarrow> 'w \<Rightarrow> Table \<times> 'w"
  AddChain :: "Chain \<Rightarrow> 'w \<Rightarrow> Chain \<times> 'w"
  AddSet :: "NftSet \<Rightarrow> SetElement list \<Rightarrow> 'w \<Rightarrow> (goerror + NftSet) \<times> 'w"
  AddRule :: "Rule \<Rightarrow> 'w \<Rightarrow> 'w"
  Flush :: "'w \<Rightarrow> goerror option \<times> 'w"
  BigEndian_PutUint16 :: "uint16 \<Rightarrow> byte list"
  NativeEndian_PutUint32 :: "uint32 \<Rightarrow> byte list"

section \<open>Rule expressions\<close>

definition IPPROTO_TCP :: byte where
  "IPPROTO_TCP = 6"

definition serviceJumpExprs :: "'w nft_env \<Rightarrow> serviceChainSpec \<Rightarrow> expr list" where
  "serviceJumpExprs env service =
     [Payload 1 PayloadBaseNetworkHeader 16 4,
      Cmp CmpOpEq 1 (scs_clusterIP service),
      MetaExpr MetaKeyL4PROTO 1,
      Cmp CmpOpEq 1 [IPPROTO_TCP],
      Payload 1 PayloadBaseTransportHeader 2 2,
      Cmp CmpOpEq 1 (BigEndian_PutUint16 env (scs_servicePort service)),
      VerdictExpr \<lparr>v_Kind = VerdictJump, v_Chain = scs_chainName service\<rparr>]"

definition serviceDispatchExprs :: "serviceChainSpec \<Rightarrow> NftSet \<Rightarrow> expr list" where
  "serviceDispatchExprs service dispatchMap =
     [Numgen 1 NFT_NG_RANDOM (of_nat (length (scs_backendChains service))) 0,
      Lookup 1 0 True (set_Name dispatchMap) (set_ID dispatchMap)]"

text \<open>The elements are built with the loop index, here the position in the enumerated list.\<close>

definition serviceDispatchMapElements :: "'w nft_env \<Rightarrow> serviceChainSpec \<Rightarrow> SetElement list" where
  "serviceDispatchMapElements env service =
     map (\<lambda>(i, backend). \<lparr>sel_Key = NativeEndian_PutUint32 env (of_nat i),
            sel_VerdictData = Some \<lparr>v_Kind = VerdictJump, v_Chain = bes_chainName backend\<rparr>\<rparr>)
       (enumerate 0 (scs_backendChains service))"

definition backendDNATExprs :: "'w nft_env \<Rightarrow> backendChainSpec \<Rightarrow> expr list" where
  "backendDNATExprs env backend =
     [Immediate 1 (bes_backendIP backend),
      Immediate 2 (BigEndian_PutUint16 env (bes_backendPort backend)),
      NAT NATTypeDestNAT TableFamilyIPv4 1 2]"

section \<open>Queueing a ruleset\<close>

fun queue_baseChains ::
    "'w nft_env \<Rightarrow> Table \<Rightarrow> baseChainSpec list \<Rightarrow> (string \<rightharpoonup> Chain) \<Rightarrow> 'w \<Rightarrow> (string \<rightharpoonup> Chain) \<times> 'w" where
  "queue_baseChains env table [] m w = (m, w)"
| "queue_baseChains env table (c # cs) m w =
     (let (chain, w') = AddChain env \<lparr>ch_Name = bcs_name c, ch_Table = table, ch_Hooknum = Some (bcs_hook c),
                          ch_Priority = Some (bcs_priority c), ch_Type = Some (bcs_chainType c),
                          ch_Policy = Some (bcs_policy c)\<rparr> w
      in queue_baseChains env table cs (m(bcs_name c \<mapsto> chain)) w')"

definition regularChain :: "Table \<Rightarrow> string \<Rightarrow> Chain" where
  "regularChain table n = \<lparr>ch_Name = n, ch_Table = table, ch_Hooknum = None, ch_Priority = None,
     ch_Type = None, ch_Policy = None\<rparr>"

fun queue_backends ::
    "'w nft_env \<Rightarrow> Table \<Rightarrow> backendChainSpec list \<Rightarrow> (string \<rightharpoonup> Chain) \<Rightarrow> 'w \<Rightarrow> (string \<rightharpoonup> Chain) \<times> 'w" where
  "queue_backends env table [] m w = (m, w)"
| "queue_backends env table (b # bs) m w =
     (let (chain, w') = AddChain env (regularChain table (bes_chainName b)) w
      in queue_backends env table bs (m(bes_chainName b \<mapsto> chain)) w')"

record queued =
  q_serviceChains :: "string \<rightharpoonup> Chain"
  q_backendChains :: "string \<rightharpoonup> Chain"
  q_dispatchMaps :: "string \<rightharpoonup> NftSet"

fun queue_services ::
    "'w nft_env \<Rightarrow> Table \<Rightarrow> serviceChainSpec list \<Rightarrow> queued \<Rightarrow> 'w \<Rightarrow> (goerror + queued) \<times> 'w" where
  "queue_services env table [] q w = (Inr q, w)"
| "queue_services env table (s # ss) q w =
     (let (chain, w1) = AddChain env (regularChain table (scs_chainName s)) w;
          (bcs, w2) = queue_backends env table (scs_backendChains s) (q_backendChains q) w1;
          dispatchMap = \<lparr>set_Table = table, set_Name = scs_dispatchMapName s, set_ID = 0,
                         set_KeyType = TypeInteger, set_DataType = TypeVerdict, set_IsMap = True\<rparr>;
          (added, w3) = AddSet env dispatchMap (serviceDispatchMapElements env s) w2
      in case added of
           Inl err \<Rightarrow> (Inl (WrapError (''add dispatch map '' @ scs_dispatchMapName s @ '': '') err), w3)
         | Inr dispatchMap' \<Rightarrow>
             queue_services env table ss
               \<lparr>q_serviceChains = (q_serviceChains q)(scs_chainName s \<mapsto> chain),
                q_backendChains = bcs,
                q_dispatchMaps = (q_dispatchMaps q)(scs_chainName s \<mapsto> dispatchMap')\<rparr> w3)"

definition nil_dereference :: goerror where
  "nil_dereference = Panic ''runtime error: invalid memory address or nil pointer dereference''"

text \<open>The rule of a service chain reads the dispatch map through a pointer from the map of dispatch
  maps; a missing entry would be a \<open>nil\<close> dereference.\<close>

fun queue_dispatch_rules ::
    "'w nft_env \<Rightarrow> Table \<Rightarrow> queued \<Rightarrow> serviceChainSpec list \<Rightarrow> 'w \<Rightarrow> goerror option \<times> 'w" where
  "queue_dispatch_rules env table q [] w = (None, w)"
| "queue_dispatch_rules env table q (s # ss) w =
     (case q_dispatchMaps q (scs_chainName s) of
        None \<Rightarrow> (Some nil_dereference, w)
      | Some dispatchMap \<Rightarrow>
          queue_dispatch_rules env table q ss
            (AddRule env \<lparr>rule_Table = table, rule_Chain = q_serviceChains q (scs_chainName s),
                          rule_Exprs = serviceDispatchExprs s dispatchMap\<rparr> w))"

definition queueRuleset :: "'w nft_env \<Rightarrow> rulesetSpec \<Rightarrow> bool \<Rightarrow> 'w \<Rightarrow> goerror option \<times> 'w" where
  "queueRuleset env spec deleteTable w =
     (let table0 = \<lparr>tb_Name = rs_tableName spec, tb_Family = rs_family spec\<rparr>;
          w1 = (if deleteTable then DelTable env table0 w else w);
          (table, w2) = AddTable env table0 w1;
          (baseChains, w3) = queue_baseChains env table (rs_baseChains spec) Map.empty w2;
          (queued, w4) = queue_services env table (rs_serviceChains spec)
             \<lparr>q_serviceChains = Map.empty, q_backendChains = Map.empty, q_dispatchMaps = Map.empty\<rparr> w3
      in case queued of
           Inl err \<Rightarrow> (Some err, w4)
         | Inr q \<Rightarrow>
             let jumps = (\<lambda>base w. fold (\<lambda>s w. AddRule env \<lparr>rule_Table = table, rule_Chain = baseChains base,
                                      rule_Exprs = serviceJumpExprs env s\<rparr> w) (rs_serviceChains spec) w);
                 w5 = jumps preroutingChainName w4;
                 w6 = jumps outputChainName w5;
                 (err, w7) = queue_dispatch_rules env table q (rs_serviceChains spec) w6
             in case err of
                  Some e \<Rightarrow> (Some e, w7)
                | None \<Rightarrow>
                    (None, fold (\<lambda>s w. fold (\<lambda>b w. AddRule env \<lparr>rule_Table = table,
                                      rule_Chain = q_backendChains q (bes_chainName b),
                                      rule_Exprs = backendDNATExprs env b\<rparr> w) (scs_backendChains s) w)
                             (rs_serviceChains spec) w7))"

section \<open>Applying a ruleset\<close>

definition isTableMissingError :: "goerror \<Rightarrow> bool" where
  "isTableMissingError err \<longleftrightarrow> errors_Is_ErrNotExist err \<or> errors_Is_Errno ENOENT err"

definition applyOnce :: "'w nft_env \<Rightarrow> rulesetSpec option \<Rightarrow> bool \<Rightarrow> 'w \<Rightarrow> goerror option \<times> 'w" where
  "applyOnce env spec deleteTable w =
     (case spec of
        None \<Rightarrow> (Some (ErrorString ''ruleset spec must not be nil''), w)
      | Some spec \<Rightarrow>
          (case ctx_Err env w of
             (Some err, w1) \<Rightarrow> (Some err, w1)
           | (None, w1) \<Rightarrow>
               (case connFactory_New env w1 of
                  (Some err, w2) \<Rightarrow> (Some (WrapError ''open nftables conn: '' err), w2)
                | (None, w2) \<Rightarrow>
                    (case queueRuleset env spec deleteTable w2 of
                       (Some err, w3) \<Rightarrow> (Some err, w3)
                     | (None, w3) \<Rightarrow>
                         (case ctx_Err env w3 of
                            (Some err, w4) \<Rightarrow> (Some err, w4)
                          | (None, w4) \<Rightarrow>
                              (case Flush env w4 of
                                 (Some err, w5) \<Rightarrow> (Some (WrapError ''flush nftables ruleset: '' err), w5)
                               | (None, w5) \<Rightarrow> (None, w5)))))))"

definition Apply :: "'w nft_env \<Rightarrow> rulesetSpec option \<Rightarrow> 'w \<Rightarrow> goerror option \<times> 'w" where
  "Apply env spec w =
     (case ctx_Err env w of
        (Some err, w1) \<Rightarrow> (Some err, w1)
      | (None, w1) \<Rightarrow>
          (case applyOnce env spec True w1 of
             (None, w2) \<Rightarrow> (None, w2)
           | (Some err, w2) \<Rightarrow>
               if \<not> isTableMissingError err then (Some err, w2) else applyOnce env spec False w2))"

section \<open>How queueing and applying end\<close>

definition dispatchSet :: "Table \<Rightarrow> serviceChainSpec \<Rightarrow> NftSet" where
  "dispatchSet table s = \<lparr>set_Table = table, set_Name = scs_dispatchMapName s, set_ID = 0,
     set_KeyType = TypeInteger, set_DataType = TypeVerdict, set_IsMap = True\<rparr>"

lemma queue_services_Inr:
  "queue_services env table ss q w = (Inr q', w') \<Longrightarrow>
    dom (q_dispatchMaps q') = dom (q_dispatchMaps q) \<union> scs_chainName ` set ss"
proof (induction ss arbitrary: q w)
  case Nil
  then show ?case by simp
next
  case (Cons s ss)
  from Cons.prems obtain q1 w1 where "queue_services env table ss q1 w1 = (Inr q', w')"
    and "dom (q_dispatchMaps q1) = insert (scs_chainName s) (dom (q_dispatchMaps q))"
    by (auto simp: Let_def split: prod.splits sum.splits)
  with Cons.IH show ?case by auto
qed

lemma queue_services_Inl:
  "queue_services env table ss q w = (Inl e, w') \<Longrightarrow>
    \<exists>s\<in>set ss. \<exists>v err. fst (AddSet env (dispatchSet table s) (serviceDispatchMapElements env s) v) = Inl err
      \<and> e = WrapError (''add dispatch map '' @ scs_dispatchMapName s @ '': '') err"
proof (induction ss arbitrary: q w)
  case Nil
  then show ?case by simp
next
  case (Cons s ss)
  show ?case
  proof (cases "\<exists>q1 w1. queue_services env table ss q1 w1 = (Inl e, w')")
    case True
    then show ?thesis using Cons.IH by auto
  next
    case False
    with Cons.prems show ?thesis
      by (auto simp: Let_def dispatchSet_def split: prod.splits sum.splits) (metis fst_conv)
  qed
qed

lemma queue_dispatch_rules_None:
  "scs_chainName ` set ss \<subseteq> dom (q_dispatchMaps q) \<Longrightarrow> fst (queue_dispatch_rules env table q ss w) = None"
  by (induction ss arbitrary: w) (auto split: option.splits)

lemma queueRuleset_Some:
  assumes "fst (queueRuleset env spec deleteTable w) = Some e"
  shows "\<exists>table. \<exists>s\<in>set (rs_serviceChains spec). \<exists>v err.
    fst (AddSet env (dispatchSet table s) (serviceDispatchMapElements env s) v) = Inl err
    \<and> e = WrapError (''add dispatch map '' @ scs_dispatchMapName s @ '': '') err"
proof -
  let ?table0 = "\<lparr>tb_Name = rs_tableName spec, tb_Family = rs_family spec\<rparr>"
  let ?w1 = "if deleteTable then DelTable env ?table0 w else w"
  let ?q0 = "\<lparr>q_serviceChains = Map.empty, q_backendChains = Map.empty, q_dispatchMaps = Map.empty\<rparr>"
  obtain table w2 where a: "AddTable env ?table0 ?w1 = (table, w2)" by fastforce
  obtain bcs w3 where b: "queue_baseChains env table (rs_baseChains spec) Map.empty w2 = (bcs, w3)" by fastforce
  obtain r w4 where c: "queue_services env table (rs_serviceChains spec) ?q0 w3 = (r, w4)" by fastforce
  show ?thesis
  proof (cases r)
    case (Inl err)
    with assms a b c have "err = e" by (simp add: queueRuleset_def Let_def)
    with c Inl have "queue_services env table (rs_serviceChains spec) ?q0 w3 = (Inl e, w4)" by simp
    from queue_services_Inl [OF this] show ?thesis by blast
  next
    case (Inr q)
    then have "fst (queue_dispatch_rules env table q (rs_serviceChains spec) v) = None" for v
      using queue_services_Inr [OF c [unfolded Inr]] by (intro queue_dispatch_rules_None) auto
    with assms a b c Inr show ?thesis
      by (simp add: queueRuleset_def Let_def split: prod.splits option.splits) (metis fst_conv option.distinct(1))
  qed
qed

text \<open>Queueing a ruleset fails only with the wrapped error of an \<open>AddSet\<close> call for one of its
  services; in particular the dispatch map a rule refers to is always present, so that no \<open>nil\<close>
  pointer is read.\<close>

lemma queueRuleset_errors:
  "fst (queueRuleset env spec deleteTable w) \<in> insert None
     {Some (WrapError (''add dispatch map '' @ scs_dispatchMapName s @ '': '') err) | s err table v.
        s \<in> set (rs_serviceChains spec)
        \<and> fst (AddSet env (dispatchSet table s) (serviceDispatchMapElements env s) v) = Inl err}"
  using queueRuleset_Some [of env spec deleteTable w] by (cases "fst (queueRuleset env spec deleteTable w)") auto

end
