(* ===== verification/GoHash.thy ===== *)
theory GoHash
  imports GoStrings
begin

text \<open>
  The hash functions of Go's \<open>crypto/sha256\<close> and \<open>crypto/sha1\<close>, as FIPS 180-4 gives them, over
  32-bit words. The agent names its nftables chains after a SHA-256 prefix and the controller
  shortens long EndpointSlice names with a SHA-1 suffix; no property below relies on the absence of
  collisions without saying so.
\<close>

unbundle bit_operations_syntax

section \<open>Padding and words\<close>

definition string_bytes :: "string \<Rightarrow> byte list" where
  "string_bytes s = map of_char s"

text \<open>The big-endian bytes of a word of \<open>k\<close> bytes.\<close>

definition be_bytes :: "nat \<Rightarrow> 'a::len word \<Rightarrow> byte list" where
  "be_bytes k w = map (\<lambda>i. ucast (drop_bit (8 * i) w)) (rev [0..<k])"

lemma length_be_bytes [simp]: "length (be_bytes k n) = k"
  by (simp add: be_bytes_def)

definition sha_pad :: "byte list \<Rightarrow> byte list" where
  "sha_pad m =
     m @ 128 # replicate ((119 - length m mod 64) mod 64) 0 @ be_bytes 8 (of_nat (8 * length m) :: 64 word)"

fun be_words :: "byte list \<Rightarrow> uint32 list" where
  "be_words (a # b # c # d # r) =
     (push_bit 24 (ucast a) OR push_bit 16 (ucast b) OR push_bit 8 (ucast c) OR ucast d) # be_words r"
| "be_words _ = []"

fun chunks16 :: "nat \<Rightarrow> 'a list \<Rightarrow> 'a list list" where
  "chunks16 0 ws = []"
| "chunks16 (Suc k) ws = take 16 ws # chunks16 k (drop 16 ws)"

definition blocks :: "byte list \<Rightarrow> uint32 list list" where
  "blocks m = (let ws = be_words (sha_pad m) in chunks16 (length ws div 16) ws)"

section \<open>SHA-256\<close>

definition sha256_K :: "uint32 list" where
  "sha256_K =
     [1116352408, 1899447441, 3049323471, 3921009573, 961987163, 1508970993,
      2453635748, 2870763221, 3624381080, 310598401, 607225278, 1426881987,
      1925078388, 2162078206, 2614888103, 3248222580, 3835390401, 4022224774,
      264347078, 604807628, 770255983, 1249150122, 1555081692, 1996064986,
      2554220882, 2821834349, 2952996808, 3210313671, 3336571891, 3584528711,
      113926993, 338241895, 666307205, 773529912, 1294757372, 1396182291,
      1695183700, 1986661051, 2177026350, 2456956037, 2730485921, 2820302411,
      3259730800, 3345764771, 3516065817, 3600352804, 4094571909, 275423344,
      430227734, 506948616, 659060556, 883997877, 958139571, 1322822218,
      1537002063, 1747873779, 1955562222, 2024104815, 2227730452, 2361852424,
      2428436474, 2756734187, 3204031479, 3329325298]"

definition sha256_H0 :: "uint32 list" where
  "sha256_H0 =
     [1779033703, 3144134277, 1013904242, 2773480762, 
      1359893119, 2600822924, 528734635, 1541459225]"

text \<open>The message schedule, newest word first.\<close>

fun sha256_extend :: "nat \<Rightarrow> uint32 list \<Rightarrow> uint32 list" where
  "sha256_extend 0 ws = ws"
| "sha256_extend (Suc k) ws =
     (let w15 = ws ! 14; w2 = ws ! 1;
          s0 = word_rotr 7 w15 XOR word_rotr 18 w15 XOR drop_bit 3 w15;
          s1 = word_rotr 17 w2 XOR word_rotr 19 w2 XOR drop_bit 10 w2
      in sha256_extend k ((ws ! 15 + s0 + ws ! 6 + s1) # ws))"

fun sha256_round :: "uint32 list \<Rightarrow> uint32 \<times> uint32 \<Rightarrow> uint32 list" where
  "sha256_round [a, b, c, d, e, f, g, h] (k, w) =
     (let t1 = h + (word_rotr 6 e XOR word_rotr 11 e XOR word_rotr 25 e)
               + ((e AND f) XOR (NOT e AND g)) + k + w;
          t2 = (word_rotr 2 a XOR word_rotr 13 a XOR word_rotr 22 a)
               + ((a AND b) XOR (a AND c) XOR (b AND c))
      in [t1 + t2, a, b, c, d + t1, e, f, g])"
| "sha256_round s _ = s"

definition sha256_block :: "uint32 list \<Rightarrow> uint32 list \<Rightarrow> uint32 list" where
  "sha256_block hs block =
     map2 (+) hs (foldl sha256_round hs (zip sha256_K (rev (sha256_extend 48 (rev block)))))"

definition word_bytes :: "uint32 \<Rightarrow> byte list" where
  "word_bytes w = be_bytes 4 w"

text \<open>\<open>sha256.Sum256\<close>\<close>

definition Sum256 :: "byte list \<Rightarrow> byte list" where
  "Sum256 m = concat (map word_bytes (foldl sha256_block sha256_H0 (blocks m)))"

section \<open>SHA-1\<close>

fun sha1_extend :: "nat \<Rightarrow> uint32 list \<Rightarrow> uint32 list" where
  "sha1_extend 0 ws = ws"
| "sha1_extend (Suc k) ws =
     sha1_extend k (word_rotl 1 (ws ! 2 XOR ws ! 7 XOR ws ! 13 XOR ws ! 15) # ws)"

definition sha1_fk :: "nat \<Rightarrow> uint32 \<Rightarrow> uint32 \<Rightarrow> uint32 \<Rightarrow> uint32 \<times> uint32" where
  "sha1_fk t b c d =
     (if t < 20 then ((b AND c) OR (NOT b AND d), 1518500249)
      else if t < 40 then (b XOR c XOR d, 1859775393)
      else if t < 60 then ((b AND c) OR (b AND d) OR (c AND d), 2400959708)
      else (b XOR c XOR d, 3395469782))"

fun sha1_round :: "uint32 list \<Rightarrow> nat \<times> uint32 \<Rightarrow> uint32 list" where
  "sha1_round [a, b, c, d, e] (t, w) =
     (let (f, k) = sha1_fk t b c d
      in [word_rotl 5 a + f + e + k + w, a, word_rotl 30 b, c, d])"
| "sha1_round s _ = s"

definition sha1_H0 :: "uint32 list" where
  "sha1_H0 = [1732584193, 4023233417, 2562383102, 271733878, 3285377520]"

definition sha1_block :: "uint32 list \<Rightarrow> uint32 list \<Rightarrow> uint32 list" where
  "sha1_block hs block =
     map2 (+) hs (foldl sha1_round hs (zip [0..<80] (rev (sha1_extend 64 (rev block)))))"

text \<open>\<open>sha1.Sum\<close>\<close>

definition sha1_Sum :: "byte list \<Rightarrow> byte list" where
  "sha1_Sum m = concat (map word_bytes (foldl sha1_block sha1_H0 (blocks m)))"

section \<open>Digest lengths\<close>

lemma length_sha256_round [simp]: "length (sha256_round s kw) = length s"
  by (cases "(s, kw)" rule: sha256_round.cases) (simp_all add: Let_def)

lemma length_sha1_round [simp]: "length (sha1_round s tw) = length s"
  by (cases "(s, tw)" rule: sha1_round.cases) (simp_all add: Let_def split: prod.splits)

lemma length_foldl_fixed:
  assumes "\<And>s x. length (f s x) = length s"
  shows "length (foldl f s xs) = length s"
  by (induction xs arbitrary: s) (simp_all add: assms)

lemma length_concat_word_bytes: "length (concat (map word_bytes ws)) = 4 * length ws"
  by (induction ws) (simp_all add: word_bytes_def)

lemma length_Sum256 [simp]: "length (Sum256 m) = 32"
  by (simp add: Sum256_def length_concat_word_bytes length_foldl_fixed sha256_block_def sha256_H0_def)

lemma length_sha1_Sum [simp]: "length (sha1_Sum m) = 20"
  by (simp add: sha1_Sum_def length_concat_word_bytes length_foldl_fixed sha1_block_def sha1_H0_def)

end
