(* ===== verification/Proxier.thy ===== *)
theory Proxier
  imports Nftables GoHash
begin

text \<open>
  \<open>internal/agent/nftables/proxier.go\<close>: the proxier turns the two tracker snapshots into a ruleset and
  applies it, at most once per \<open>minSyncPeriod\<close>. Times and durations are integers (nanoseconds), the
  zero \<open>time.Time\<close> of \<open>lastSync\<close> is \<open>None\<close>, the one-slot channel \<open>resyncCh\<close> is the flag "a token
  is waiting". Clock readings and map visiting orders are arguments.
\<close>

section \<open>State and event handlers\<close>

record proxier_Options =
  opt_TableName :: string
  opt_SyncPeriod :: int
  opt_MinSyncPeriod :: int
  opt_ApplyRules :: bool

record Proxier =
  px_tableName :: string
  px_syncPeriod :: int
  px_minSyncPeriod :: int
  px_applyRules :: bool
  px_gatewaysSynced :: bool
  px_endpointSlicesSynced :: bool
  px_syncPending :: bool
  px_gatewayTracker :: GatewayChangeTracker
  px_endpointTracker :: EndpointsChangeTracker
  px_resyncCh :: bool
  px_lastSync :: "int option"

definition NewProxier :: "proxier_Options \<Rightarrow> goerror + Proxier" where
  "NewProxier cfg =
     (if opt_TableName cfg = [] then Inl (ErrorString ''nftables table name must not be empty'')
      else Inr \<lparr>px_tableName = opt_TableName cfg, px_syncPeriod = opt_SyncPeriod cfg,
             px_minSyncPeriod = opt_MinSyncPeriod cfg, px_applyRules = opt_ApplyRules cfg,
             px_gatewaysSynced = False, px_endpointSlicesSynced = False, px_syncPending = False,
             px_gatewayTracker = NewGatewayChangeTracker,
             px_endpointTracker = NewEndpointsChangeTracker,
             px_resyncCh = False, px_lastSync = None\<rparr>)"

definition Ready :: "Proxier \<Rightarrow> bool" where
  "Ready p \<longleftrightarrow> px_gatewaysSynced p \<and> px_endpointSlicesSynced p"

text \<open>\<open>requestSync\<close> marks the sync as pending under the lock, then offers a token to the channel; a
  full channel keeps its token.\<close>

definition markPending :: "Proxier \<Rightarrow> Proxier" where
  "markPending p = p\<lparr>px_syncPending := True\<rparr>"

definition offerToken :: "Proxier \<Rightarrow> Proxier" where
  "offerToken p = (if px_resyncCh p then p else p\<lparr>px_resyncCh := True\<rparr>)"

definition requestSync :: "Proxier \<Rightarrow> Proxier" where
  "requestSync p = offerToken (markPending p)"

definition trackGateway :: "Gateway option \<Rightarrow> Gateway option \<Rightarrow> Proxier \<Rightarrow> Proxier" where
  "trackGateway previous current p =
     p\<lparr>px_gatewayTracker := snd (GatewayChangeTracker_Update previous current (px_gatewayTracker p))\<rparr>"

definition trackEndpointSlice :: "EndpointSlice option \<Rightarrow> bool \<Rightarrow> Proxier \<Rightarrow> Proxier" where
  "trackEndpointSlice endpointSlice remove p =
     p\<lparr>px_endpointTracker := snd (EndpointsChangeTracker_Update endpointSlice remove (px_endpointTracker p))\<rparr>"

definition OnGatewayAdd :: "Gateway \<Rightarrow> Proxier \<Rightarrow> Proxier" where
  "OnGatewayAdd gateway p = requestSync (trackGateway None (Some gateway) p)"

definition OnGatewayUpdate :: "Gateway \<Rightarrow> Gateway \<Rightarrow> Proxier \<Rightarrow> Proxier" where
  "OnGatewayUpdate oldGateway gateway p = requestSync (trackGateway (Some oldGateway) (Some gateway) p)"

definition OnGatewayDelete :: "Gateway \<Rightarrow> Proxier \<Rightarrow> Proxier" where
  "OnGatewayDelete gateway p = requestSync (trackGateway (Some gateway) None p)"

definition OnGatewaySynced :: "Proxier \<Rightarrow> Proxier" where
  "OnGatewaySynced p = requestSync (p\<lparr>px_gatewaysSynced := True\<rparr>)"

definition OnEndpointSliceAdd :: "EndpointSlice \<Rightarrow> Proxier \<Rightarrow> Proxier" where
  "OnEndpointSliceAdd endpointSlice p = requestSync (trackEndpointSlice (Some endpointSlice) False p)"

definition OnEndpointSliceUpdate :: "EndpointSlice \<Rightarrow> EndpointSlice \<Rightarrow> Proxier \<Rightarrow> Proxier" where
  "OnEndpointSliceUpdate oldEndpointSlice newEndpointSlice p =
     requestSync (trackEndpointSlice (Some newEndpointSlice) False p)"

definition OnEndpointSliceDelete :: "EndpointSlice \<Rightarrow> Proxier \<Rightarrow> Proxier" where
  "OnEndpointSliceDelete endpointSlice p = requestSync (trackEndpointSlice (Some endpointSlice) True p)"

definition OnEndpointSlicesSynced :: "Proxier \<Rightarrow> Proxier" where
  "OnEndpointSlicesSynced p = requestSync (p\<lparr>px_endpointSlicesSynced := True\<rparr>)"

section \<open>The desired ruleset\<close>

definition toUint16Port :: "int \<Rightarrow> uint16 option" where
  "toUint16Port port = (if port \<le> 0 \<or> port > 65535 then None else Some (of_int port))"

definition hashedName :: "string \<Rightarrow> string \<Rightarrow> string" where
  "hashedName prefix s = prefix @ EncodeToString (take 8 (Sum256 (string_bytes s)))"

definition chainNameFor :: "string \<Rightarrow> string" where
  "chainNameFor s = hashedName ''svc_'' s"

definition dispatchMapNameFor :: "string \<Rightarrow> string" where
  "dispatchMapNameFor serviceChainName = ''map_'' @ drop (length ''svc_'') serviceChainName"

definition backendChainNameFor :: "string \<Rightarrow> nat \<Rightarrow> string" where
  "backendChainNameFor serviceChainName index = serviceChainName @ ''_be'' @ Itoa (int index)"

fun backend_loop :: "string \<Rightarrow> Endpoint list \<Rightarrow> backendChainSpec list \<Rightarrow> backendChainSpec list" where
  "backend_loop serviceChainName [] backends = backends"
| "backend_loop serviceChainName (endpoint # es) backends =
     (let backendIP = copyIPv4 (ParseIP (ept_IP endpoint)) in
      case toUint16Port (ept_Port endpoint) of
        None \<Rightarrow> backend_loop serviceChainName es backends
      | Some backendPort \<Rightarrow>
          if backendIP = [] then backend_loop serviceChainName es backends
          else backend_loop serviceChainName es
                 (backends @ [\<lparr>bes_chainName = backendChainNameFor serviceChainName (length backends),
                               bes_backendIP = backendIP, bes_backendPort = backendPort\<rparr>]))"

definition backendChainSpecsForEndpoints :: "string \<Rightarrow> Endpoint list \<Rightarrow> backendChainSpec list" where
  "backendChainSpecsForEndpoints serviceChainName endpoints = backend_loop serviceChainName endpoints []"

record range_orders =
  ro_gateways :: "NamespacedName list"
  ro_slices :: "NamespacedName list"
  ro_frontends :: "FrontendKey list"

text \<open>The body of the loop over the sorted keys: the service chain of one key, if it gets one.\<close>

definition serviceChainFor ::
    "(FrontendKey \<rightharpoonup> Frontend) \<Rightarrow> EndpointsMap \<Rightarrow> FrontendKey \<Rightarrow> serviceChainSpec option" where
  "serviceChainFor frontends endpoints key =
     (let frontend = map_get (NewFrontend [] 0) frontends key;
          clusterIP = copyIPv4 (fe_Address frontend) in
      case toUint16Port (fe_Port frontend) of
        None \<Rightarrow> None
      | Some servicePortNumber \<Rightarrow>
          if clusterIP = [] then None
          else
            let serviceKey = FrontendKey_String key;
                serviceChainName = chainNameFor serviceKey;
                backends = backendChainSpecsForEndpoints serviceChainName (map_get [] endpoints key) in
            if backends = [] then None
            else Some \<lparr>scs_serviceKey = serviceKey, scs_chainName = serviceChainName,
                       scs_dispatchMapName = dispatchMapNameFor serviceChainName,
                       scs_clusterIP = clusterIP, scs_servicePort = servicePortNumber,
                       scs_backendChains = backends\<rparr>)"

definition desiredRulesetLocked :: "range_orders \<Rightarrow> Proxier \<Rightarrow> rulesetSpec" where
  "desiredRulesetLocked ro p =
     (let frontends = GatewayChangeTracker_Snapshot (ro_gateways ro) (px_gatewayTracker p);
          endpoints = EndpointsChangeTracker_Snapshot (ro_slices ro) (px_endpointTracker p);
          keys = go_sort FrontendKey_String (ro_frontends ro)
      in \<lparr>rs_tableName = px_tableName p, rs_family = TableFamilyIPv4, rs_baseChains = defaultBaseChains,
          rs_serviceChains =
            fold (\<lambda>key chains. case serviceChainFor frontends endpoints key of
                                 None \<Rightarrow> chains | Some c \<Rightarrow> chains @ [c]) keys []\<rparr>)"

section \<open>Syncing\<close>

text \<open>The early returns of \<open>sync\<close>: \<open>Some delay\<close> when it returns before it computes a ruleset, because a
  cache has not synced or the minimum period has not passed since the last sync.\<close>

definition sync_gate :: "int \<Rightarrow> Proxier \<Rightarrow> int option" where
  "sync_gate now1 p =
     (if \<not> px_gatewaysSynced p \<or> \<not> px_endpointSlicesSynced p then Some 0
      else
        let remaining =
              (case px_lastSync p of
                 None \<Rightarrow> 0
               | Some t \<Rightarrow> if px_minSyncPeriod p > 0 then px_minSyncPeriod p - (now1 - t) else 0)
        in if remaining > 0 then Some (if px_syncPending p then remaining else 0) else None)"

text \<open>\<open>sync\<close> reads the clock once for the rate limit and once after applying; it returns the delay
  and the error, the proxier and the world. The applier is an interface field of the proxier, here a
  function; \<open>Apply\<close> of the netlink applier is the one the agent runs with.\<close>

definition proxier_sync ::
    "(rulesetSpec option \<Rightarrow> 'w \<Rightarrow> goerror option \<times> 'w) \<Rightarrow> range_orders \<Rightarrow> int \<Rightarrow> int \<Rightarrow> Proxier \<Rightarrow> 'w \<Rightarrow>
      (int \<times> goerror option) \<times> Proxier \<times> 'w" where
  "proxier_sync applier ro now1 now2 p w =
     (case sync_gate now1 p of
        Some delay \<Rightarrow> ((delay, None), p, w)
      | None \<Rightarrow>
          let ruleset = desiredRulesetLocked ro p;
              (err, w') = (if px_applyRules p then applier (Some ruleset) w else (None, w))
          in case err of
               Some e \<Rightarrow> ((0, Some e), p, w')
             | None \<Rightarrow> ((0, None), p\<lparr>px_lastSync := Some now2, px_syncPending := False\<rparr>, w'))"

definition Sync ::
    "(rulesetSpec option \<Rightarrow> 'w \<Rightarrow> goerror option \<times> 'w) \<Rightarrow> range_orders \<Rightarrow> int \<Rightarrow> int \<Rightarrow> Proxier \<Rightarrow> 'w \<Rightarrow>
      goerror option \<times> Proxier \<times> 'w" where
  "Sync applier ro now1 now2 p w =
     (case proxier_sync applier ro now1 now2 p w of ((_, err), p', w') \<Rightarrow> (err, p', w'))"

section \<open>Ports, names and backends\<close>

lemma toUint16Port_Some:
  "toUint16Port port = Some u \<longleftrightarrow> 0 < port \<and> port \<le> 65535 \<and> uint u = port"
proof -
  have "uint (of_int port :: uint16) = port" if "0 < port" "port \<le> 65535"
    using that by (simp add: unsigned_of_int take_bit_int_eq_self)
  moreover have "of_int (uint u) = u" by simp
  ultimately show ?thesis by (auto simp: toUint16Port_def)
qed

lemma copyIPv4_eq: "copyIPv4 ip = To4 ip"
  by (auto simp: copyIPv4_def Let_def)

lemma length_chainNameFor [simp]: "length (chainNameFor s) = 20"
  by (simp add: chainNameFor_def hashedName_def)

lemma take_chainNameFor [simp]: "take 4 (chainNameFor s) = ''svc_''"
  by (simp add: chainNameFor_def hashedName_def)

lemma backendChainNameFor_inj: "backendChainNameFor c i = backendChainNameFor c j \<longleftrightarrow> i = j"
  by (simp add: backendChainNameFor_def)

text \<open>The endpoints that become backends, with their parsed form.\<close>

definition usable_endpoint :: "Endpoint \<Rightarrow> (net_IP \<times> uint16) option" where
  "usable_endpoint e =
     (case toUint16Port (ept_Port e) of
        None \<Rightarrow> None
      | Some port \<Rightarrow> let ip = To4 (ParseIP (ept_IP e)) in if ip = [] then None else Some (ip, port))"

definition backend_spec :: "string \<Rightarrow> nat \<times> net_IP \<times> uint16 \<Rightarrow> backendChainSpec" where
  "backend_spec c x =
     (case x of (i, ip, port) \<Rightarrow>
        \<lparr>bes_chainName = backendChainNameFor c i, bes_backendIP = ip, bes_backendPort = port\<rparr>)"

lemma backend_loop_eq:
  "backend_loop c es bs =
    bs @ map (backend_spec c) (enumerate (length bs) (List.map_filter usable_endpoint es))"
  by (induction es arbitrary: bs)
    (auto simp: usable_endpoint_def backend_spec_def copyIPv4_eq Let_def List.map_filter_simps
      split: option.splits)

lemma backendChainSpecsForEndpoints_eq:
  "backendChainSpecsForEndpoints c es =
    map (backend_spec c) (enumerate 0 (List.map_filter usable_endpoint es))"
  by (simp add: backendChainSpecsForEndpoints_def backend_loop_eq)

lemma fold_option_append:
  "fold (\<lambda>k acc. case f k of None \<Rightarrow> acc | Some c \<Rightarrow> acc @ [c]) ks acc = acc @ List.map_filter f ks"
  by (induction ks arbitrary: acc) (auto simp: List.map_filter_simps split: option.splits)

lemma desiredRulesetLocked_services:
  "rs_serviceChains (desiredRulesetLocked ro p) =
    List.map_filter
      (serviceChainFor (GatewayChangeTracker_Snapshot (ro_gateways ro) (px_gatewayTracker p))
        (EndpointsChangeTracker_Snapshot (ro_slices ro) (px_endpointTracker p)))
      (go_sort FrontendKey_String (ro_frontends ro))"
  by (simp add: desiredRulesetLocked_def fold_option_append)

lemma serviceChainFor_Some:
  "serviceChainFor frontends endpoints key = Some c \<longleftrightarrow>
    (\<exists>fe port. frontends key = Some fe \<and> To4 (fe_Address fe) \<noteq> [] \<and> toUint16Port (fe_Port fe) = Some port
      \<and> List.map_filter usable_endpoint (map_get [] endpoints key) \<noteq> []
      \<and> c = \<lparr>scs_serviceKey = FrontendKey_String key, scs_chainName = chainNameFor (FrontendKey_String key),
             scs_dispatchMapName = dispatchMapNameFor (chainNameFor (FrontendKey_String key)),
             scs_clusterIP = To4 (fe_Address fe), scs_servicePort = port,
             scs_backendChains =
               map (backend_spec (chainNameFor (FrontendKey_String key)))
                 (enumerate 0 (List.map_filter usable_endpoint (map_get [] endpoints key)))\<rparr>)"
  by (auto simp: serviceChainFor_def backendChainSpecsForEndpoints_eq copyIPv4_eq Let_def NewFrontend_def
      map_get_def toUint16Port_def enumerate_eq_zip split: option.splits if_splits)

section \<open>Well-formed frontend keys\<close>

text \<open>Kubernetes names contain neither \<open>/\<close> nor \<open>:\<close>; then the text of a frontend key determines the
  key.\<close>

definition dns_name :: "string \<Rightarrow> bool" where
  "dns_name s \<longleftrightarrow> CHR '':'' \<notin> set s \<and> CHR ''/'' \<notin> set s"

definition wf_key :: "FrontendKey \<Rightarrow> bool" where
  "wf_key fk \<longleftrightarrow> dns_name (nn_Namespace (fk_NamespacedName fk)) \<and> dns_name (nn_Name (fk_NamespacedName fk))
     \<and> fk_Listener fk \<noteq> []"

lemma FrontendKey_String_inj:
  assumes "wf_key a" and "wf_key b" and "FrontendKey_String a = FrontendKey_String b"
  shows "a = b"
proof -
  have "NamespacedName_String (fk_NamespacedName a) @ CHR '':'' # fk_Listener a
      = NamespacedName_String (fk_NamespacedName b) @ CHR '':'' # fk_Listener b"
    using assms by (simp add: FrontendKey_String_def wf_key_def)
  moreover have "CHR '':'' \<notin> set (NamespacedName_String (fk_NamespacedName a))"
    "CHR '':'' \<notin> set (NamespacedName_String (fk_NamespacedName b))"
    using assms by (auto simp: NamespacedName_String_def wf_key_def dns_name_def)
  ultimately have l: "fk_Listener a = fk_Listener b"
    and n: "NamespacedName_String (fk_NamespacedName a) = NamespacedName_String (fk_NamespacedName b)"
    by (auto dest: append_sep_inj_first)
  have "nn_Namespace (fk_NamespacedName a) = nn_Namespace (fk_NamespacedName b)
      \<and> nn_Name (fk_NamespacedName a) = nn_Name (fk_NamespacedName b)"
    using n assms unfolding NamespacedName_String_def wf_key_def dns_name_def
    by (intro append_sep_inj_first) auto
  with l show ?thesis
    by (cases a; cases b) (auto intro: NamespacedName.expand)
qed

lemma wf_keys_inj: "(\<And>k. k \<in> K \<Longrightarrow> wf_key k) \<Longrightarrow> inj_on FrontendKey_String K"
  by (intro inj_onI FrontendKey_String_inj) auto

section \<open>Runs of informer events\<close>

text \<open>The events the informers deliver, and the handler each of them calls
  (\<open>registerHandlers\<close> and \<open>Run\<close> of \<open>internal/agent/app/server_linux.go\<close>).\<close>

datatype agent_event =
    GatewayAdded Gateway
  | GatewayUpdated Gateway Gateway
  | GatewayDeleted Gateway
  | GatewaysSynced
  | EndpointSliceAdded EndpointSlice
  | EndpointSliceUpdated EndpointSlice EndpointSlice
  | EndpointSliceDeleted EndpointSlice
  | EndpointSlicesSynced

fun handle :: "agent_event \<Rightarrow> Proxier \<Rightarrow> Proxier" where
  "handle (GatewayAdded g) p = OnGatewayAdd g p"
| "handle (GatewayUpdated old g) p = OnGatewayUpdate old g p"
| "handle (GatewayDeleted g) p = OnGatewayDelete g p"
| "handle GatewaysSynced p = OnGatewaySynced p"
| "handle (EndpointSliceAdded s) p = OnEndpointSliceAdd s p"
| "handle (EndpointSliceUpdated old s) p = OnEndpointSliceUpdate old s p"
| "handle (EndpointSliceDeleted s) p = OnEndpointSliceDelete s p"
| "handle EndpointSlicesSynced p = OnEndpointSlicesSynced p"

fun gateway_event :: "agent_event \<Rightarrow> (Gateway option \<times> Gateway option) option" where
  "gateway_event (GatewayAdded g) = Some (None, Some g)"
| "gateway_event (GatewayUpdated old g) = Some (Some old, Some g)"
| "gateway_event (GatewayDeleted g) = Some (Some g, None)"
| "gateway_event _ = None"

fun slice_event :: "agent_event \<Rightarrow> (EndpointSlice option \<times> bool) option" where
  "slice_event (EndpointSliceAdded s) = Some (Some s, False)"
| "slice_event (EndpointSliceUpdated old s) = Some (Some s, False)"
| "slice_event (EndpointSliceDeleted s) = Some (Some s, True)"
| "slice_event _ = None"

definition gateway_events :: "agent_event list \<Rightarrow> (Gateway option \<times> Gateway option) list" where
  "gateway_events es = List.map_filter gateway_event es"

definition slice_events :: "agent_event list \<Rightarrow> (EndpointSlice option \<times> bool) list" where
  "slice_events es = List.map_filter slice_event es"

lemmas handler_defs = OnGatewayAdd_def OnGatewayUpdate_def OnGatewayDelete_def OnGatewaySynced_def
  OnEndpointSliceAdd_def OnEndpointSliceUpdate_def OnEndpointSliceDelete_def OnEndpointSlicesSynced_def
  requestSync_def markPending_def offerToken_def trackGateway_def trackEndpointSlice_def

lemma handle_trackers:
  "px_gatewayTracker (handle e p) =
    (case gateway_event e of None \<Rightarrow> px_gatewayTracker p | Some d \<Rightarrow> gateway_update d (px_gatewayTracker p))"
  "px_endpointTracker (handle e p) =
    (case slice_event e of None \<Rightarrow> px_endpointTracker p | Some d \<Rightarrow> slice_update d (px_endpointTracker p))"
  by (cases e; simp add: handler_defs gateway_update_def slice_update_def)+

lemma handle_config [simp]:
  "px_tableName (handle e p) = px_tableName p" "px_minSyncPeriod (handle e p) = px_minSyncPeriod p"
  "px_applyRules (handle e p) = px_applyRules p" "px_lastSync (handle e p) = px_lastSync p"
  by (cases e; simp add: handler_defs)+

lemma run_trackers:
  "px_gatewayTracker (fold handle es p) = fold gateway_update (gateway_events es) (px_gatewayTracker p)"
  "px_endpointTracker (fold handle es p) = fold slice_update (slice_events es) (px_endpointTracker p)"
  by (induction es arbitrary: p)
    (auto simp: gateway_events_def slice_events_def handle_trackers List.map_filter_simps split: option.splits)

lemma NewProxier_trackers:
  "NewProxier cfg = Inr p \<Longrightarrow>
    px_gatewayTracker p = NewGatewayChangeTracker \<and> px_endpointTracker p = NewEndpointsChangeTracker"
  by (auto simp: NewProxier_def split: if_splits)

text \<open>The orders in which a sync may walk its three maps.\<close>

definition valid_orders :: "Proxier \<Rightarrow> range_orders \<Rightarrow> bool" where
  "valid_orders p ro \<longleftrightarrow>
     range_order (gct_gateways (px_gatewayTracker p)) (ro_gateways ro)
     \<and> range_order (ect_slices (px_endpointTracker p)) (ro_slices ro)
     \<and> range_order (GatewayChangeTracker_Snapshot (ro_gateways ro) (px_gatewayTracker p)) (ro_frontends ro)"

definition dns_gateway :: "Gateway \<Rightarrow> bool" where
  "dns_gateway g \<longleftrightarrow> dns_name (gw_Namespace g) \<and> dns_name (gw_Name g)"

definition event_gateways :: "agent_event list \<Rightarrow> Gateway set" where
  "event_gateways es = {g. \<exists>previous. (previous, Some g) \<in> set (gateway_events es)}"

lemma run_frontend_keys:
  assumes "NewProxier cfg = Inr p0" and p: "p = fold handle es p0"
    and dns: "\<And>g. g \<in> event_gateways es \<Longrightarrow> dns_gateway g"
    and ks: "range_order (gct_gateways (px_gatewayTracker p)) ks"
    and fk: "GatewayChangeTracker_Snapshot ks (px_gatewayTracker p) fk = Some fe"
  shows "wf_key fk"
proof -
  let ?evs = "gateway_events es"
  have t: "px_gatewayTracker p = fold gateway_update ?evs NewGatewayChangeTracker"
    using NewProxier_trackers [OF assms(1)] by (simp add: p run_trackers)
  obtain g where g: "last_gateway ?evs (fk_NamespacedName fk) = Some g"
    and m: "map_of (gatewayToFrontendMap (Some g)) fk = Some fe"
    using fk ks unfolding t by (auto simp: GatewayChangeTracker_Snapshot_run bind_eq_Some_conv)
  have "dns_gateway g"
    using last_gateway_mem [OF g] dns by (auto simp: event_gateways_def)
  moreover have "fk_NamespacedName fk = NamespacedName (gw_Namespace g) (gw_Name g)"
    by (rule last_gateway_name [OF g])
  moreover have "fk_Listener fk \<noteq> []"
    using m gatewaySupported_listeners [of g]
    by (auto simp: gatewayToFrontendMap_eq Let_def frontend_entry_def supported_listeners_iff
        dest!: map_of_SomeD split: if_splits)
  ultimately show ?thesis by (simp add: wf_key_def dns_gateway_def)
qed

lemma desiredRulesetLocked_cong:
  assumes "GatewayChangeTracker_Snapshot (ro_gateways ro) (px_gatewayTracker p)
      = GatewayChangeTracker_Snapshot (ro_gateways ro') (px_gatewayTracker p)"
    and "EndpointsChangeTracker_Snapshot (ro_slices ro) (px_endpointTracker p)
      = EndpointsChangeTracker_Snapshot (ro_slices ro') (px_endpointTracker p)"
    and "go_sort FrontendKey_String (ro_frontends ro) = go_sort FrontendKey_String (ro_frontends ro')"
  shows "desiredRulesetLocked ro p = desiredRulesetLocked ro' p"
  by (simp add: desiredRulesetLocked_def assms)

text \<open>C16: Go's random map iteration never shows in the dataplane. After any sequence of informer
  events on a new proxier, if the Gateways' names are Kubernetes names (no \<open>/\<close> and no \<open>:\<close>), the
  ruleset the proxier computes is the same for every order in which its loops may walk the tracker
  maps and the frontend map.\<close>

theorem ruleset_deterministic:
  assumes "NewProxier cfg = Inr p0"
    and "event_gateways es \<subseteq> Collect dns_gateway"
    and "valid_orders (fold handle es p0) ro" and "valid_orders (fold handle es p0) ro'"
  shows "desiredRulesetLocked ro (fold handle es p0) = desiredRulesetLocked ro' (fold handle es p0)"
proof (rule desiredRulesetLocked_cong)
  let ?p = "fold handle es p0"
  have gt: "px_gatewayTracker ?p = fold gateway_update (gateway_events es) NewGatewayChangeTracker"
    and et: "px_endpointTracker ?p = fold slice_update (slice_events es) NewEndpointsChangeTracker"
    using NewProxier_trackers [OF assms(1)] by (simp_all add: run_trackers)
  show snap: "GatewayChangeTracker_Snapshot (ro_gateways ro) (px_gatewayTracker ?p)
      = GatewayChangeTracker_Snapshot (ro_gateways ro') (px_gatewayTracker ?p)"
    unfolding gt by (rule gateways.run_snapshot_order) (use assms(3,4) gt in \<open>simp_all add: valid_orders_def\<close>)
  show "EndpointsChangeTracker_Snapshot (ro_slices ro) (px_endpointTracker ?p)
      = EndpointsChangeTracker_Snapshot (ro_slices ro') (px_endpointTracker ?p)"
    unfolding et by (rule slices.run_snapshot_order) (use assms(3,4) et in \<open>simp_all add: valid_orders_def\<close>)
  have "wf_key fk" if "fk \<in> set (ro_frontends ro)" for fk
  proof -
    have "set (ro_frontends ro) = dom (GatewayChangeTracker_Snapshot (ro_gateways ro) (px_gatewayTracker ?p))"
      using assms(3) by (simp add: valid_orders_def range_order_def)
    with that obtain fe where "GatewayChangeTracker_Snapshot (ro_gateways ro) (px_gatewayTracker ?p) fk = Some fe"
      by auto
    then show ?thesis
      using run_frontend_keys [OF assms(1) refl, of es "ro_gateways ro"] assms(2,3)
      by (auto simp: valid_orders_def)
  qed
  then have "inj_on FrontendKey_String (set (ro_frontends ro))" by (rule wf_keys_inj)
  moreover have "mset (ro_frontends ro) = mset (ro_frontends ro')"
    using assms(3,4) snap unfolding valid_orders_def by (metis range_order_mset)
  ultimately show "go_sort FrontendKey_String (ro_frontends ro) = go_sort FrontendKey_String (ro_frontends ro')"
    by (intro go_sort_perm_eq)
qed

text \<open>The valid orders exist after every run, so the statements about them are not empty.\<close>

lemma finite_range_order: "finite (dom m) \<Longrightarrow> \<exists>ks. range_order m ks"
  by (metis finite_distinct_list range_order_def)

lemma finite_frontends: "finite (dom (GatewayChangeTracker_Snapshot ks gct))"
proof (induction ks rule: rev_induct)
  case Nil
  then show ?case by (simp add: GatewayChangeTracker_Snapshot_def)
next
  case (snoc k ks)
  have "finite (dom (fold (\<lambda>(n, p) out. out(n \<mapsto> p)) es m))"
    if "finite (dom m)" for es :: "(FrontendKey \<times> Frontend) list" and m
    using that by (induction es arbitrary: m) auto
  with snoc show ?case
    by (auto simp: GatewayChangeTracker_Snapshot_def split: option.splits)
qed

lemma valid_orders_exist:
  assumes "NewProxier cfg = Inr p0"
  shows "\<exists>ro. valid_orders (fold handle es p0) ro"
proof -
  let ?p = "fold handle es p0"
  have "finite (dom (gct_gateways (px_gatewayTracker ?p)))" "finite (dom (ect_slices (px_endpointTracker ?p)))"
    using gateways.content_run_finite slices.content_run_finite NewProxier_trackers [OF assms]
    by (simp_all add: run_trackers)
  then obtain ks ls where "range_order (gct_gateways (px_gatewayTracker ?p)) ks"
    "range_order (ect_slices (px_endpointTracker ?p)) ls"
    by (metis finite_range_order)
  moreover obtain fs where "range_order (GatewayChangeTracker_Snapshot ks (px_gatewayTracker ?p)) fs"
    using finite_range_order finite_frontends by blast
  ultimately have "valid_orders ?p \<lparr>ro_gateways = ks, ro_slices = ls, ro_frontends = fs\<rparr>"
    by (simp add: valid_orders_def)
  then show ?thesis ..
qed

section \<open>Which services are programmed\<close>

definition service_spec :: "FrontendKey \<Rightarrow> net_IP \<Rightarrow> uint16 \<Rightarrow> (net_IP \<times> uint16) list \<Rightarrow> serviceChainSpec" where
  "service_spec fk vip port backends =
     (let c = chainNameFor (FrontendKey_String fk) in
      \<lparr>scs_serviceKey = FrontendKey_String fk, scs_chainName = c, scs_dispatchMapName = dispatchMapNameFor c,
       scs_clusterIP = vip, scs_servicePort = port,
       scs_backendChains = map (backend_spec c) (enumerate 0 backends)\<rparr>)"

lemma map_filter_mem: "c \<in> set (List.map_filter f xs) \<longleftrightarrow> (\<exists>x\<in>set xs. f x = Some c)"
  by (force simp: List.map_filter_def image_iff)

lemma programmed_services_iff:
  assumes "NewProxier cfg = Inr p0" and "valid_orders (fold handle es p0) ro"
  shows "c \<in> set (rs_serviceChains (desiredRulesetLocked ro (fold handle es p0))) \<longleftrightarrow>
    (\<exists>g l vip port fk backends.
       last_gateway (gateway_events es) (NamespacedName (gw_Namespace g) (gw_Name g)) = Some g
       \<and> gatewaySupported g \<and> l \<in> set (gw_Listeners g)
       \<and> vip = To4 (ParseIP (ga_Value (hd (gw_Addresses g)))) \<and> vip \<noteq> []
       \<and> toUint16Port (sint (l_Port l)) = Some port
       \<and> fk = FrontendKey (NamespacedName (gw_Namespace g) (gw_Name g)) (l_Name l)
       \<and> backends = List.map_filter usable_endpoint (map_get [] (EndpointsChangeTracker_Snapshot (ro_slices ro)
             (fold slice_update (slice_events es) NewEndpointsChangeTracker)) fk)
       \<and> backends \<noteq> [] \<and> c = service_spec fk vip port backends)" (is "?L \<longleftrightarrow> ?R")
proof -
  let ?p = "fold handle es p0"
  let ?gt = "fold gateway_update (gateway_events es) NewGatewayChangeTracker"
  let ?et = "fold slice_update (slice_events es) NewEndpointsChangeTracker"
  let ?F = "GatewayChangeTracker_Snapshot (ro_gateways ro) ?gt"
  let ?E = "EndpointsChangeTracker_Snapshot (ro_slices ro) ?et"
  have t: "px_gatewayTracker ?p = ?gt" "px_endpointTracker ?p = ?et"
    using NewProxier_trackers [OF assms(1)] by (simp_all add: run_trackers)
  have ks: "range_order (gct_gateways ?gt) (ro_gateways ro)" and fs: "set (ro_frontends ro) = dom ?F"
    using assms(2) t by (simp_all add: valid_orders_def range_order_def)
  have "?L \<longleftrightarrow> (\<exists>fk. serviceChainFor ?F ?E fk = Some c)"
    using fs by (auto simp: desiredRulesetLocked_services map_filter_mem t serviceChainFor_Some)
  also have "\<dots> \<longleftrightarrow> (\<exists>fk fe port backends. ?F fk = Some fe \<and> To4 (fe_Address fe) \<noteq> []
      \<and> toUint16Port (fe_Port fe) = Some port
      \<and> backends = List.map_filter usable_endpoint (map_get [] ?E fk) \<and> backends \<noteq> []
      \<and> c = service_spec fk (To4 (fe_Address fe)) port backends)"
    unfolding serviceChainFor_Some service_spec_def Let_def by blast
  also have "\<dots> \<longleftrightarrow> ?R"
    unfolding GatewayChangeTracker_Snapshot_run_Some [OF ks]
  proof ((intro iffI; elim exE conjE), goal_cases)
    case (1 fk fe port backends g l vip)
    then show ?case
      by (intro exI [of _ g] exI [of _ l]) (simp add: last_gateway_name)
  next
    case (2 g l vip port fk backends)
    then show ?case
      by (intro exI [of _ "FrontendKey (NamespacedName (gw_Namespace g) (gw_Name g)) (l_Name l)"])
        (auto intro!: exI [of _ g] exI [of _ l])
  qed
  finally show ?thesis .
qed

text \<open>C4: The join of the two snapshots. After any sequence of informer events and for every map
  order, the service chains of the ruleset are exactly one per listener of a supported Gateway with
  an IPv4 address whose port fits 16 bits and for which the slices give at least one usable endpoint;
  the chain carries that address and port, and one backend per usable endpoint, in the endpoints'
  sorted order.\<close>

theorem programmed_services:
  assumes "NewProxier cfg = Inr p0" and "valid_orders (fold handle es p0) ro"
  shows "c \<in> set (rs_serviceChains (desiredRulesetLocked ro (fold handle es p0))) \<longleftrightarrow>
    (\<exists>g l vip port fk backends.
       last_gateway (gateway_events es) (NamespacedName (gw_Namespace g) (gw_Name g)) = Some g
       \<and> gatewaySupported g \<and> l \<in> set (gw_Listeners g)
       \<and> vip = To4 (ParseIP (ga_Value (hd (gw_Addresses g)))) \<and> vip \<noteq> []
       \<and> toUint16Port (sint (l_Port l)) = Some port
       \<and> fk = FrontendKey (NamespacedName (gw_Namespace g) (gw_Name g)) (l_Name l)
       \<and> backends = List.map_filter usable_endpoint (map_get [] (EndpointsChangeTracker_Snapshot (ro_slices ro)
             (fold slice_update (slice_events es) NewEndpointsChangeTracker)) fk)
       \<and> backends \<noteq> [] \<and> c = service_spec fk vip port backends)"
  by (rule programmed_services_iff [OF assms])

section \<open>Sample runs\<close>

definition sample_options :: proxier_Options where
  "sample_options = \<lparr>opt_TableName = ''clusterip-gw'', opt_SyncPeriod = 30000000000,
     opt_MinSyncPeriod = 1000000000, opt_ApplyRules = True\<rparr>"

definition sample_proxier :: Proxier where
  "sample_proxier = \<lparr>px_tableName = ''clusterip-gw'', px_syncPeriod = 30000000000,
     px_minSyncPeriod = 1000000000, px_applyRules = True, px_gatewaysSynced = False,
     px_endpointSlicesSynced = False, px_syncPending = False, px_gatewayTracker = NewGatewayChangeTracker,
     px_endpointTracker = NewEndpointsChangeTracker, px_resyncCh = False, px_lastSync = None\<rparr>"

lemma NewProxier_sample: "NewProxier sample_options = Inr sample_proxier"
  by (simp add: NewProxier_def sample_options_def sample_proxier_def)

definition sample_events :: "agent_event list" where
  "sample_events = [GatewayAdded sample_gateway2, EndpointSliceAdded sample_slice]"

definition sample_orders :: "FrontendKey list \<Rightarrow> range_orders" where
  "sample_orders fs = \<lparr>ro_gateways = [sample_nn], ro_slices = [sample_slice_nn], ro_frontends = fs\<rparr>"

lemma sample_gateway2_supported: "gatewaySupported sample_gateway2"
  by (simp add: gatewaySupported_def sample_defs GatewayClassName_def MaxSupportedGatewayListeners_def)

lemma sample_gateway2_map:
  "gatewayToFrontendMap (Some sample_gateway2) =
    [(FrontendKey sample_nn ''tcp'', \<lparr>fe_Address = v4InV6Prefix @ [10, 96, 0, 10], fe_Port = 80\<rparr>),
     (FrontendKey sample_nn ''tls'', \<lparr>fe_Address = v4InV6Prefix @ [10, 96, 0, 10], fe_Port = 443\<rparr>)]"
  by (simp add: gatewayToFrontendMap_eq sample_gateway2_supported Let_def)
    (simp add: sample_defs sample_ips frontend_entry_def NewFrontend_def)

lemma sample_run_trackers:
  "gct_gateways (px_gatewayTracker (fold handle sample_events sample_proxier)) =
    [sample_nn \<mapsto> gatewayToFrontendMap (Some sample_gateway2)]"
  "px_endpointTracker (fold handle sample_events sample_proxier) =
    fold slice_update [(Some sample_slice, False)] NewEndpointsChangeTracker"
  "ect_slices (px_endpointTracker (fold handle sample_events sample_proxier)) = [sample_slice_nn \<mapsto> sample_slice]"
proof -
  show "gct_gateways (px_gatewayTracker (fold handle sample_events sample_proxier)) =
    [sample_nn \<mapsto> gatewayToFrontendMap (Some sample_gateway2)]"
    unfolding run_trackers
    by (simp add: sample_events_def gateway_events_def List.map_filter_simps sample_proxier_def
        gateway_update_content gateway_target_def gateway_outcome_def sample_gateway2_map NewGatewayChangeTracker_def)
      (simp add: sample_defs)
  show et: "px_endpointTracker (fold handle sample_events sample_proxier) =
    fold slice_update [(Some sample_slice, False)] NewEndpointsChangeTracker"
    unfolding run_trackers
    by (simp add: sample_events_def slice_events_def List.map_filter_simps sample_proxier_def)
  show "ect_slices (px_endpointTracker (fold handle sample_events sample_proxier)) = [sample_slice_nn \<mapsto> sample_slice]"
    unfolding et by (rule sample_slice_content)
qed

lemma sample_valid_orders:
  assumes "fs \<in> {[FrontendKey sample_nn ''tcp'', FrontendKey sample_nn ''tls''],
    [FrontendKey sample_nn ''tls'', FrontendKey sample_nn ''tcp'']}"
  shows "valid_orders (fold handle sample_events sample_proxier) (sample_orders fs)"
  using assms
  by (auto simp: valid_orders_def sample_orders_def sample_run_trackers(1,3) range_order_def
      GatewayChangeTracker_Snapshot_def sample_gateway2_map)

theorem ruleset_deterministic_witness:
  "let p = fold handle sample_events sample_proxier;
       ro = sample_orders [FrontendKey sample_nn ''tcp'', FrontendKey sample_nn ''tls''];
       ro' = sample_orders [FrontendKey sample_nn ''tls'', FrontendKey sample_nn ''tcp'']
   in ro \<noteq> ro' \<and> valid_orders p ro \<and> valid_orders p ro'
     \<and> desiredRulesetLocked ro p = desiredRulesetLocked ro' p"
proof -
  have "event_gateways sample_events \<subseteq> Collect dns_gateway"
    by (auto simp: event_gateways_def sample_events_def gateway_events_def List.map_filter_simps
        dns_gateway_def dns_name_def sample_defs)
  from ruleset_deterministic [OF NewProxier_sample this sample_valid_orders sample_valid_orders] show ?thesis
    unfolding Let_def by (simp add: sample_valid_orders) (simp add: sample_orders_def)
qed

lemma sample_endpoints:
  "map_get [] (EndpointsChangeTracker_Snapshot [sample_slice_nn]
     (fold slice_update [(Some sample_slice, False)] NewEndpointsChangeTracker)) (FrontendKey sample_nn ''tcp'')
   = [NewEndpoint ''10.0.0.2'' 8080, NewEndpoint ''10.0.0.3'' 8080]"
proof -
  have "slice_endpoints sample_slice = [NewEndpoint ''10.0.0.3'' 8080, NewEndpoint ''10.0.0.2'' 8080]"
    by (simp add: slice_endpoints_def sample_slice_def port_admitted_def ready_addresses_def sample_endpoint_def
        addr_endpoints_def sample_ips IP_String_To4 sample_strings)
  moreover have "Endpoint_String (NewEndpoint ''10.0.0.2'' 8080) = ''10.0.0.2:'' @ Itoa 8080"
    "Endpoint_String (NewEndpoint ''10.0.0.3'' 8080) = ''10.0.0.3:'' @ Itoa 8080"
    by (simp_all add: Endpoint_String_def NewEndpoint_def JoinHostPort_def)
  ultimately show ?thesis
    by (simp add: map_get_def EndpointsChangeTracker_Snapshot_eq key_endpoints_def sample_slice_content
        sample_slice_key go_sort_def del: fold.simps)
qed

theorem programmed_services_witness:
  "let p = fold handle sample_events sample_proxier;
       ro = sample_orders [FrontendKey sample_nn ''tcp'', FrontendKey sample_nn ''tls'']
   in valid_orders p ro \<and> service_spec (FrontendKey sample_nn ''tcp'') [10, 96, 0, 10] 80
        [([10, 0, 0, 2], 8080), ([10, 0, 0, 3], 8080)] \<in> set (rs_serviceChains (desiredRulesetLocked ro p))"
proof -
  let ?ro = "sample_orders [FrontendKey sample_nn ''tcp'', FrontendKey sample_nn ''tls'']"
  let ?c = "service_spec (FrontendKey sample_nn ''tcp'') [10, 96, 0, 10] 80
        [([10, 0, 0, 2], 8080), ([10, 0, 0, 3], 8080)]"
  have v: "valid_orders (fold handle sample_events sample_proxier) ?ro"
    by (simp add: sample_valid_orders)
  have gw: "last_gateway (gateway_events sample_events) sample_nn = Some sample_gateway2"
    "gw_Namespace sample_gateway2 = ''default''" "gw_Name sample_gateway2 = ''demo''"
    "sample_listener \<in> set (gw_Listeners sample_gateway2)" "l_Name sample_listener = ''tcp''"
    "[10, 96, 0, 10] = To4 (ParseIP (ga_Value (hd (gw_Addresses sample_gateway2))))"
    "toUint16Port (sint (l_Port sample_listener)) = Some 80"
    by (simp_all add: last_gateway_def gateway_events_def sample_events_def List.map_filter_simps gateway_target_def)
      (simp_all add: sample_defs sample_ips toUint16Port_def)
  have ev: "slice_events sample_events = [(Some sample_slice, False)]" "ro_slices ?ro = [sample_slice_nn]"
    by (simp_all add: slice_events_def sample_events_def List.map_filter_simps sample_orders_def)
  have "List.map_filter usable_endpoint [NewEndpoint ''10.0.0.2'' 8080, NewEndpoint ''10.0.0.3'' 8080]
      = [([10, 0, 0, 2], 8080), ([10, 0, 0, 3], 8080)]"
    by (simp add: List.map_filter_simps usable_endpoint_def NewEndpoint_def sample_ips toUint16Port_def)
  then show ?thesis
    unfolding Let_def using programmed_services [OF NewProxier_sample v, of ?c] v gw sample_gateway2_supported
    unfolding ev by (metis sample_endpoints list.distinct(1))
qed

end
