(* ===== verification/NftBatch.thy ===== *)
theory NftBatch
  imports Nftables
begin

text \<open>
  The batch a ruleset becomes. The \<open>google/nftables\<close> connection collects the messages of the calls made
  on it until \<open>Flush\<close> sends them in one transaction; \<open>conn_batches\<close> states this documented behaviour of
  the connection, with the set identifiers it chooses left open. Under it, \<open>queueRuleset\<close> queues exactly
  the list \<open>ruleset_commands\<close>, and that list only refers to tables, chains and maps it has created before.
\<close>

section \<open>Commands and the connection\<close>

datatype command =
    CDelTable Table
  | CAddTable Table
  | CAddChain Chain
  | CAddSet NftSet "SetElement list"
  | CAddRule Rule

definition conn_batches :: "'w nft_env \<Rightarrow> ('w \<Rightarrow> command list) \<Rightarrow> bool" where
  "conn_batches env batch \<longleftrightarrow>
     (\<forall>t w. batch (DelTable env t w) = batch w @ [CDelTable t]) \<and>
     (\<forall>t w. fst (AddTable env t w) = t \<and> batch (snd (AddTable env t w)) = batch w @ [CAddTable t]) \<and>
     (\<forall>c w. fst (AddChain env c w) = c \<and> batch (snd (AddChain env c w)) = batch w @ [CAddChain c]) \<and>
     (\<forall>s els w. \<exists>i. fst (AddSet env s els w) = Inr (s\<lparr>set_ID := i\<rparr>)
        \<and> batch (snd (AddSet env s els w)) = batch w @ [CAddSet (s\<lparr>set_ID := i\<rparr>) els]) \<and>
     (\<forall>r w. batch (AddRule env r w) = batch w @ [CAddRule r])"

section \<open>The commands of a ruleset\<close>

definition spec_table :: "rulesetSpec \<Rightarrow> Table" where
  "spec_table spec = \<lparr>tb_Name = rs_tableName spec, tb_Family = rs_family spec\<rparr>"

definition base_chain :: "Table \<Rightarrow> baseChainSpec \<Rightarrow> Chain" where
  "base_chain t c = \<lparr>ch_Name = bcs_name c, ch_Table = t, ch_Hooknum = Some (bcs_hook c),
     ch_Priority = Some (bcs_priority c), ch_Type = Some (bcs_chainType c), ch_Policy = Some (bcs_policy c)\<rparr>"

definition service_set :: "Table \<Rightarrow> serviceChainSpec \<times> uint32 \<Rightarrow> NftSet" where
  "service_set t = (\<lambda>(s, i). (dispatchSet t s)\<lparr>set_ID := i\<rparr>)"

definition service_objects :: "'w nft_env \<Rightarrow> Table \<Rightarrow> serviceChainSpec \<times> uint32 \<Rightarrow> command list" where
  "service_objects env t = (\<lambda>(s, i).
     CAddChain (regularChain t (scs_chainName s))
     # map (\<lambda>b. CAddChain (regularChain t (bes_chainName b))) (scs_backendChains s)
     @ [CAddSet (service_set t (s, i)) (serviceDispatchMapElements env s)])"

definition add_rule :: "Table \<Rightarrow> Chain \<Rightarrow> expr list \<Rightarrow> command" where
  "add_rule t c es = CAddRule \<lparr>rule_Table = t, rule_Chain = Some c, rule_Exprs = es\<rparr>"

definition service_rules :: "'w nft_env \<Rightarrow> Table \<Rightarrow> (serviceChainSpec \<times> uint32) list \<Rightarrow> Chain list \<Rightarrow> command list" where
  "service_rules env t ss bases =
     concat (map (\<lambda>base. map (\<lambda>(s, i). add_rule t base (serviceJumpExprs env s)) ss) bases)
     @ map (\<lambda>(s, i). add_rule t (regularChain t (scs_chainName s))
              (serviceDispatchExprs s (service_set t (s, i)))) ss
     @ concat (map (\<lambda>(s, i). map (\<lambda>b. add_rule t (regularChain t (bes_chainName b)) (backendDNATExprs env b))
                 (scs_backendChains s)) ss)"

definition ruleset_commands :: "'w nft_env \<Rightarrow> rulesetSpec \<Rightarrow> bool \<Rightarrow> uint32 list \<Rightarrow> command list" where
  "ruleset_commands env spec deleteTable ids =
     (let t = spec_table spec; ss = zip (rs_serviceChains spec) ids; bases = map (base_chain t) defaultBaseChains in
      (if deleteTable then [CDelTable t] else []) @ [CAddTable t] @ map CAddChain bases
      @ concat (map (service_objects env t) ss) @ service_rules env t ss bases)"

section \<open>Queueing produces these commands\<close>


lemma batch_calls:
  assumes "conn_batches env batch"
  shows "batch (DelTable env t w) = batch w @ [CDelTable t]"
  "\<exists>w'. AddTable env t w = (t, w') \<and> batch w' = batch w @ [CAddTable t]"
  "\<exists>w'. AddChain env c w = (c, w') \<and> batch w' = batch w @ [CAddChain c]"
  "\<exists>i w'. AddSet env s els w = (Inr (s\<lparr>set_ID := i\<rparr>), w') \<and> batch w' = batch w @ [CAddSet (s\<lparr>set_ID := i\<rparr>) els]"
  "batch (AddRule env r w) = batch w @ [CAddRule r]"
  using assms unfolding conn_batches_def by (auto simp: prod_eq_iff)

lemma queue_baseChains_batch:
  assumes "conn_batches env batch"
  shows "\<exists>w'. queue_baseChains env t cs m w = (fold (\<lambda>c m. m(bcs_name c \<mapsto> base_chain t c)) cs m, w')
    \<and> batch w' = batch w @ map (CAddChain \<circ> base_chain t) cs"
proof (induction cs arbitrary: m w)
  case Nil
  then show ?case by simp
next
  case (Cons c cs)
  obtain w1 where w1: "AddChain env (base_chain t c) w = (base_chain t c, w1)"
    "batch w1 = batch w @ [CAddChain (base_chain t c)]" using batch_calls(3) [OF assms] by blast
  with Cons.IH [of "m(bcs_name c \<mapsto> base_chain t c)" w1] show ?case
    by (fastforce simp: base_chain_def [symmetric] simp del: fun_upd_apply)
qed

lemma queue_backends_batch:
  assumes "conn_batches env batch"
  shows "\<exists>w' m'. queue_backends env t bs m w = (m', w')
    \<and> batch w' = batch w @ map (\<lambda>b. CAddChain (regularChain t (bes_chainName b))) bs
    \<and> (\<forall>n. m' n = (if n \<in> bes_chainName ` set bs then Some (regularChain t n) else m n))"
proof (induction bs arbitrary: m w)
  case Nil
  then show ?case by simp
next
  case (Cons b bs)
  obtain w1 where "AddChain env (regularChain t (bes_chainName b)) w = (regularChain t (bes_chainName b), w1)"
    "batch w1 = batch w @ [CAddChain (regularChain t (bes_chainName b))]" using batch_calls(3) [OF assms] by blast
  moreover obtain w' m' where "queue_backends env t bs (m(bes_chainName b \<mapsto> regularChain t (bes_chainName b))) w1
      = (m', w')"
    "batch w' = batch w1 @ map (\<lambda>b. CAddChain (regularChain t (bes_chainName b))) bs"
    "\<And>n. m' n = (if n \<in> bes_chainName ` set bs then Some (regularChain t n)
      else (m(bes_chainName b \<mapsto> regularChain t (bes_chainName b))) n)"
    using Cons.IH by blast
  ultimately show ?case by (intro exI [of _ w'] exI [of _ m']) (auto simp del: fun_upd_apply simp: fun_upd_def)
qed

text \<open>What the three maps hold after the service loop.\<close>

definition queued_inv :: "Table \<Rightarrow> (serviceChainSpec \<times> uint32) list \<Rightarrow> queued \<Rightarrow> bool" where
  "queued_inv t ss q \<longleftrightarrow>
     (\<forall>(s, i)\<in>set ss. q_serviceChains q (scs_chainName s) = Some (regularChain t (scs_chainName s))
        \<and> q_dispatchMaps q (scs_chainName s) = Some (service_set t (s, i))
        \<and> (\<forall>b\<in>set (scs_backendChains s). q_backendChains q (bes_chainName b) = Some (regularChain t (bes_chainName b))))"

lemma queue_services_batch:
  assumes batches: "conn_batches env batch"
    and "queued_inv t done q" and "distinct (map (scs_chainName \<circ> fst) done @ map scs_chainName ss)"
  shows "\<exists>ids w' q'. queue_services env t ss q w = (Inr q', w') \<and> length ids = length ss
    \<and> batch w' = batch w @ concat (map (service_objects env t) (zip ss ids))
    \<and> queued_inv t (done @ zip ss ids) q'"
  using assms(2,3)
proof (induction ss arbitrary: "done" q w)
  case Nil
  then show ?case by simp
next
  case (Cons s ss)
  obtain w1 where w1: "AddChain env (regularChain t (scs_chainName s)) w = (regularChain t (scs_chainName s), w1)"
    "batch w1 = batch w @ [CAddChain (regularChain t (scs_chainName s))]" using batch_calls(3) [OF batches] by blast
  obtain w2 m where w2: "queue_backends env t (scs_backendChains s) (q_backendChains q) w1 = (m, w2)"
    "batch w2 = batch w1 @ map (\<lambda>b. CAddChain (regularChain t (bes_chainName b))) (scs_backendChains s)"
    and m: "\<And>n. m n = (if n \<in> bes_chainName ` set (scs_backendChains s) then Some (regularChain t n)
      else q_backendChains q n)" using queue_backends_batch [OF batches] by blast
  obtain i w3 where w3: "AddSet env (dispatchSet t s) (serviceDispatchMapElements env s) w2
      = (Inr (service_set t (s, i)), w3)"
    "batch w3 = batch w2 @ [CAddSet (service_set t (s, i)) (serviceDispatchMapElements env s)]"
    using batch_calls(4) [OF batches] unfolding service_set_def by fastforce
  define q1 where "q1 = \<lparr>q_serviceChains = (q_serviceChains q)(scs_chainName s \<mapsto> regularChain t (scs_chainName s)),
    q_backendChains = m, q_dispatchMaps = (q_dispatchMaps q)(scs_chainName s \<mapsto> service_set t (s, i))\<rparr>"
  have step: "queue_services env t (s # ss) q w = queue_services env t ss q1 w3"
    using w1 w2 w3 by (simp add: q1_def dispatchSet_def)
  have "queued_inv t (done @ [(s, i)]) q1"
    using Cons.prems by (auto simp: queued_inv_def q1_def m image_iff)
  moreover have "distinct (map (scs_chainName \<circ> fst) (done @ [(s, i)]) @ map scs_chainName ss)"
    using Cons.prems(2) by (simp add: comp_def)
  ultimately obtain ids w' q' where "queue_services env t ss q1 w3 = (Inr q', w')" "length ids = length ss"
    "batch w' = batch w3 @ concat (map (service_objects env t) (zip ss ids))"
    "queued_inv t ((done @ [(s, i)]) @ zip ss ids) q'" using Cons.IH by blast
  then show ?case
    by (intro exI [of _ "i # ids"] exI [of _ w'] exI [of _ q']) 
      (simp add: step w1 w2 w3 service_objects_def del: queue_services.simps)
qed

lemma fold_add_rules:
  assumes "conn_batches env batch"
  shows "batch (fold (\<lambda>x. AddRule env (f x)) xs w) = batch w @ map (\<lambda>x. CAddRule (f x)) xs"
  by (induction xs arbitrary: w) (simp_all add: batch_calls(5) [OF assms])

lemma queue_dispatch_rules_batch:
  assumes "conn_batches env batch" and "queued_inv t ss q"
  shows "\<exists>w'. queue_dispatch_rules env t q (map fst ss) w = (None, w')
    \<and> batch w' = batch w @ map (\<lambda>(s, i). add_rule t (regularChain t (scs_chainName s))
              (serviceDispatchExprs s (service_set t (s, i)))) ss"
  using assms(2)
proof (induction ss arbitrary: w)
  case Nil
  then show ?case by simp
next
  case (Cons x ss)
  obtain s i where x: "x = (s, i)" by fastforce
  with Cons.prems have "q_serviceChains q (scs_chainName s) = Some (regularChain t (scs_chainName s))"
    "q_dispatchMaps q (scs_chainName s) = Some (service_set t (s, i))" "queued_inv t ss q"
    by (auto simp: queued_inv_def)
  moreover define w1 where "w1 = AddRule env \<lparr>rule_Table = t, rule_Chain = Some (regularChain t (scs_chainName s)),
    rule_Exprs = serviceDispatchExprs s (service_set t (s, i))\<rparr> w"
  ultimately show ?case
    using Cons.IH [of w1] by (auto simp: x add_rule_def batch_calls(5) [OF assms(1)])
qed

lemma fold_backend_rules:
  assumes "conn_batches env batch" and "queued_inv t ss q"
  shows "batch (fold (\<lambda>s w. fold (\<lambda>b w. AddRule env \<lparr>rule_Table = t,
        rule_Chain = q_backendChains q (bes_chainName b), rule_Exprs = backendDNATExprs env b\<rparr> w)
      (scs_backendChains s) w) (map fst ss) w) =
    batch w @ concat (map (\<lambda>(s, i). map (\<lambda>b. add_rule t (regularChain t (bes_chainName b)) (backendDNATExprs env b))
                 (scs_backendChains s)) ss)"
  using assms(2)
proof (induction ss arbitrary: w)
  case Nil
  then show ?case by simp
next
  case (Cons x ss)
  obtain s i where x: "x = (s, i)" by fastforce
  with Cons.prems have "queued_inv t ss q"
    and "\<And>b. b \<in> set (scs_backendChains s) \<Longrightarrow> q_backendChains q (bes_chainName b) = Some (regularChain t (bes_chainName b))"
    by (auto simp: queued_inv_def)
  with Cons.IH show ?case
    by (simp add: x fold_add_rules [OF assms(1)] add_rule_def)
qed

text \<open>On a connection that batches, queueing a ruleset whose service chain names are distinct
  succeeds and appends exactly the replacement batch to the queue: the optional table deletion, the
  table, the two base chains, the chains and dispatch map of every service, then the jump rules of both
  hooks, the dispatch rules and the DNAT rules. The loops through the three name-indexed maps of the
  code find the objects they queued.\<close>

lemma queueRuleset_batch:
  assumes "conn_batches env batch" and "rs_baseChains spec = defaultBaseChains"
    and "distinct (map scs_chainName (rs_serviceChains spec))"
  shows "\<exists>ids w'. queueRuleset env spec deleteTable w = (None, w') \<and> length ids = length (rs_serviceChains spec)
    \<and> batch w' = batch w @ ruleset_commands env spec deleteTable ids"
proof -
  let ?t = "spec_table spec"
  let ?w1 = "if deleteTable then DelTable env ?t w else w"
  let ?q0 = "\<lparr>q_serviceChains = Map.empty, q_backendChains = Map.empty, q_dispatchMaps = Map.empty\<rparr>"
  let ?bases = "[preroutingChainName \<mapsto> base_chain ?t (defaultBaseChains ! 0),
    outputChainName \<mapsto> base_chain ?t (defaultBaseChains ! 1)]"
  obtain w2 where w2: "AddTable env ?t ?w1 = (?t, w2)" "batch w2 = batch ?w1 @ [CAddTable ?t]"
    using batch_calls(2) [OF assms(1)] by blast
  obtain w3 where w3: "queue_baseChains env ?t defaultBaseChains Map.empty w2 = (?bases, w3)"
    "batch w3 = batch w2 @ map (CAddChain \<circ> base_chain ?t) defaultBaseChains"
    using queue_baseChains_batch [OF assms(1), of ?t defaultBaseChains Map.empty w2]
    by (auto simp: defaultBaseChains_def simp del: fun_upd_apply)
  obtain ids w4 q where w4: "queue_services env ?t (rs_serviceChains spec) ?q0 w3 = (Inr q, w4)"
    "length ids = length (rs_serviceChains spec)"
    "batch w4 = batch w3 @ concat (map (service_objects env ?t) (zip (rs_serviceChains spec) ids))"
    and q: "queued_inv ?t (zip (rs_serviceChains spec) ids) q"
    using queue_services_batch [OF assms(1), of ?t "[]" ?q0 "rs_serviceChains spec" w3] assms(3)
    by (auto simp: queued_inv_def)
  let ?ss = "zip (rs_serviceChains spec) ids"
  have fst_ss: "map fst ?ss = rs_serviceChains spec" using w4(2) by simp
  have ss_map: "map (\<lambda>(s, i). f s) ?ss = map f (rs_serviceChains spec)" for f :: "serviceChainSpec \<Rightarrow> command"
  proof -
    have "map (\<lambda>(s, i). f s) ?ss = map f (map fst ?ss)" by (simp add: case_prod_beta)
    then show ?thesis by (simp only: fst_ss)
  qed
  define jumps where "jumps = (\<lambda>base w. fold (\<lambda>s w. AddRule env \<lparr>rule_Table = ?t, rule_Chain = ?bases base,
    rule_Exprs = serviceJumpExprs env s\<rparr> w) (rs_serviceChains spec) w)"
  have jb: "batch (jumps base w) = batch w @ map (\<lambda>(s, i). add_rule ?t c (serviceJumpExprs env s)) ?ss"
    if "?bases base = Some c" for base c w
    unfolding jumps_def that fold_add_rules [OF assms(1)] add_rule_def ss_map ..
  obtain w7 where w7: "queue_dispatch_rules env ?t q (rs_serviceChains spec)
      (jumps outputChainName (jumps preroutingChainName w4)) = (None, w7)"
    "batch w7 = batch (jumps outputChainName (jumps preroutingChainName w4))
      @ map (\<lambda>(s, i). add_rule ?t (regularChain ?t (scs_chainName s)) (serviceDispatchExprs s (service_set ?t (s, i)))) ?ss"
    using queue_dispatch_rules_batch [OF assms(1) q] unfolding fst_ss by blast
  have "queueRuleset env spec deleteTable w = (None, fold (\<lambda>s w. fold (\<lambda>b w. AddRule env \<lparr>rule_Table = ?t,
        rule_Chain = q_backendChains q (bes_chainName b), rule_Exprs = backendDNATExprs env b\<rparr> w)
      (scs_backendChains s) w) (rs_serviceChains spec) w7)"
    using w7(1) unfolding queueRuleset_def Let_def spec_table_def [symmetric] assms(2)
    by (simp add: w2(1) w3(1) w4(1) jumps_def del: fun_upd_apply)
  moreover have "batch w7 = batch w @ (if deleteTable then [CDelTable ?t] else []) @ [CAddTable ?t]
      @ map CAddChain (map (base_chain ?t) defaultBaseChains) @ concat (map (service_objects env ?t) ?ss)
      @ concat (map (\<lambda>base. map (\<lambda>(s, i). add_rule ?t base (serviceJumpExprs env s)) ?ss)
          (map (base_chain ?t) defaultBaseChains))
      @ map (\<lambda>(s, i). add_rule ?t (regularChain ?t (scs_chainName s)) (serviceDispatchExprs s (service_set ?t (s, i)))) ?ss"
  proof -
    have "batch (jumps outputChainName (jumps preroutingChainName w4)) = batch w4
        @ concat (map (\<lambda>base. map (\<lambda>(s, i). add_rule ?t base (serviceJumpExprs env s)) ?ss)
            (map (base_chain ?t) defaultBaseChains))"
      by (subst jb, rule fun_upd_same, subst jb)
        (auto simp: preroutingChainName_def outputChainName_def defaultBaseChains_def)
    then show ?thesis
      by (simp add: w7(2) w4(3) w3(2) w2(2) batch_calls(1) [OF assms(1)] comp_def)
  qed
  ultimately show ?thesis
    using w4(2) fold_backend_rules [OF assms(1) q, of w7]
    by (intro exI [of _ ids]) (simp add: ruleset_commands_def service_rules_def Let_def fst_ss)
qed

section \<open>References inside the batch\<close>

fun jump_targets :: "expr \<Rightarrow> string set" where
  "jump_targets (VerdictExpr v) = (if v_Kind v \<in> {VerdictJump, VerdictGoto} then {v_Chain v} else {})"
| "jump_targets _ = {}"

fun looked_up :: "expr \<Rightarrow> string set" where
  "looked_up (Lookup _ _ _ n _) = {n}"
| "looked_up _ = {}"

definition element_targets :: "SetElement \<Rightarrow> string set" where
  "element_targets el = (case sel_VerdictData el of None \<Rightarrow> {} | Some v \<Rightarrow> {v_Chain v})"

text \<open>Reading the batch in order with the tables, and the chains and maps of each table, so far: every
  chain and map goes to a table that exists, every rule to a chain that exists in the rule's table, it
  jumps to chains and looks up maps of that table, and so do the verdicts of map elements. Deleting a
  table forgets what is in it.\<close>

fun closed_from :: "Table set \<Rightarrow> (Table \<times> string) set \<Rightarrow> (Table \<times> string) set \<Rightarrow> command list \<Rightarrow> bool" where
  "closed_from tables known maps [] = True"
| "closed_from tables known maps (CDelTable t # cs) =
     closed_from (tables - {t}) (Set.filter (\<lambda>x. fst x \<noteq> t) known) (Set.filter (\<lambda>x. fst x \<noteq> t) maps) cs"
| "closed_from tables known maps (CAddTable t # cs) = closed_from (insert t tables) known maps cs"
| "closed_from tables known maps (CAddChain c # cs) =
     (ch_Table c \<in> tables \<and> closed_from tables (insert (ch_Table c, ch_Name c) known) maps cs)"
| "closed_from tables known maps (CAddSet s els # cs) =
     (set_Table s \<in> tables \<and> Pair (set_Table s) ` \<Union> (element_targets ` set els) \<subseteq> known
      \<and> closed_from tables known (insert (set_Table s, set_Name s) maps) cs)"
| "closed_from tables known maps (CAddRule r # cs) =
     (rule_Table r \<in> tables
      \<and> (case rule_Chain r of
            None \<Rightarrow> False
          | Some c \<Rightarrow> ch_Table c = rule_Table r \<and> (ch_Table c, ch_Name c) \<in> known)
      \<and> Pair (rule_Table r) ` \<Union> (jump_targets ` set (rule_Exprs r)) \<subseteq> known
      \<and> Pair (rule_Table r) ` \<Union> (looked_up ` set (rule_Exprs r)) \<subseteq> maps
      \<and> closed_from tables known maps cs)"

text \<open>The batch of a ruleset has one table; inside it names are enough.\<close>

definition closed_in :: "Table \<Rightarrow> string set \<Rightarrow> string set \<Rightarrow> command list \<Rightarrow> bool" where
  "closed_in t known maps = closed_from {t} (Pair t ` known) (Pair t ` maps)"

lemma Pair_image [simp]: "(t, n) \<in> Pair t ` A \<longleftrightarrow> n \<in> A" "Pair t ` A \<subseteq> Pair t ` B \<longleftrightarrow> A \<subseteq> B"
  by auto

lemma closed_in_simps:
  "closed_in t known maps []"
  "closed_in t known maps (CAddChain c # cs) \<longleftrightarrow> ch_Table c = t \<and> closed_in t (insert (ch_Name c) known) maps cs"
  "closed_in t known maps (CAddSet s els # cs) \<longleftrightarrow> set_Table s = t \<and> \<Union> (element_targets ` set els) \<subseteq> known
     \<and> closed_in t known (insert (set_Name s) maps) cs"
  "closed_in t known maps (add_rule t c es # cs) \<longleftrightarrow> ch_Table c = t \<and> ch_Name c \<in> known
     \<and> \<Union> (jump_targets ` set es) \<subseteq> known \<and> \<Union> (looked_up ` set es) \<subseteq> maps \<and> closed_in t known maps cs"
  by (auto simp: closed_in_def add_rule_def)

lemma closed_from_chains:
  "(\<And>x. x \<in> set xs \<Longrightarrow> ch_Table (f x) = t) \<Longrightarrow>
    closed_in t known maps (map (\<lambda>x. CAddChain (f x)) xs @ cs)
      = closed_in t (known \<union> (\<lambda>x. ch_Name (f x)) ` set xs) maps cs"
  by (induction xs arbitrary: known) (simp_all add: closed_in_simps insert_commute Un_commute)

definition rule_ok :: "Table \<Rightarrow> string set \<Rightarrow> string set \<Rightarrow> command \<Rightarrow> bool" where
  "rule_ok t known maps c \<longleftrightarrow> (\<exists>ch es. c = add_rule t ch es \<and> ch_Table ch = t \<and> ch_Name ch \<in> known
     \<and> \<Union> (jump_targets ` set es) \<subseteq> known \<and> \<Union> (looked_up ` set es) \<subseteq> maps)"

lemma closed_from_rules: "(\<And>c. c \<in> set cs \<Longrightarrow> rule_ok t known maps c) \<Longrightarrow> closed_in t known maps cs"
proof (induction cs)
  case Nil
  then show ?case by (simp add: closed_in_simps)
next
  case (Cons c cs)
  have "closed_in t known maps cs" and "rule_ok t known maps c" using Cons by simp_all
  then show ?case unfolding rule_ok_def by (auto simp: closed_in_simps)
qed

lemma rule_okI:
  "ch_Table ch = t \<Longrightarrow> ch_Name ch \<in> known \<Longrightarrow> \<Union> (jump_targets ` set es) \<subseteq> known \<Longrightarrow> \<Union> (looked_up ` set es) \<subseteq> maps \<Longrightarrow>
    rule_ok t known maps (add_rule t ch es)"
  unfolding rule_ok_def by blast

lemma expr_references:
  "\<Union> (jump_targets ` set (serviceJumpExprs env s)) = {scs_chainName s}"
  "\<Union> (looked_up ` set (serviceJumpExprs env s)) = {}"
  "\<Union> (jump_targets ` set (serviceDispatchExprs s d)) = {}"
  "\<Union> (looked_up ` set (serviceDispatchExprs s d)) = {set_Name d}"
  "\<Union> (jump_targets ` set (backendDNATExprs env b)) = {}"
  "\<Union> (looked_up ` set (backendDNATExprs env b)) = {}"
  by (simp_all add: serviceJumpExprs_def serviceDispatchExprs_def backendDNATExprs_def)

lemmas rule_ok_intros =
  rule_okI [where es = "serviceJumpExprs env s" for env s, unfolded expr_references]
  rule_okI [where es = "serviceDispatchExprs s d" for s d, unfolded expr_references]
  rule_okI [where es = "backendDNATExprs env b" for env b, unfolded expr_references]

definition service_chains :: "serviceChainSpec list \<Rightarrow> string set" where
  "service_chains ss = scs_chainName ` set ss \<union> (\<Union>s\<in>set ss. bes_chainName ` set (scs_backendChains s))"

lemma dispatch_targets:
  "\<Union> (element_targets ` set (serviceDispatchMapElements env s)) = bes_chainName ` set (scs_backendChains s)"
  by (force simp: serviceDispatchMapElements_def element_targets_def enumerate_eq_zip in_set_zip image_iff
      set_conv_nth)

lemma closed_from_services:
  "length ids = length ss \<Longrightarrow>
    closed_in t known maps (concat (map (service_objects env t) (zip ss ids)) @ cs) =
    closed_in t (known \<union> service_chains ss) (maps \<union> scs_dispatchMapName ` set ss) cs"
proof (induction ss ids arbitrary: known maps rule: list_induct2')
  case (4 s ss i ids)
  have "closed_in t known maps (concat (map (service_objects env t) (zip (s # ss) (i # ids))) @ cs) =
    closed_in t (insert (scs_chainName s) known \<union> bes_chainName ` set (scs_backendChains s))
      (insert (scs_dispatchMapName s) maps) (concat (map (service_objects env t) (zip ss ids)) @ cs)"
    by (simp add: service_objects_def closed_in_simps closed_from_chains regularChain_def dispatch_targets service_set_def dispatchSet_def
        subset_insertI2)
  also have "\<dots> = closed_in t (known \<union> service_chains (s # ss)) (maps \<union> scs_dispatchMapName ` set (s # ss)) cs"
    using 4 by (simp add: service_chains_def Un_ac insert_commute)
  finally show ?case .
qed (simp_all add: service_chains_def)

lemma service_rules_ok:
  assumes "ch_Name ` set bases \<subseteq> known" and "\<And>base. base \<in> set bases \<Longrightarrow> ch_Table base = t" and "service_chains (map fst ss) \<subseteq> known"
    and "scs_dispatchMapName ` set (map fst ss) \<subseteq> maps" and "c \<in> set (service_rules env t ss bases)"
  shows "rule_ok t known maps c"
proof -
  consider (jump) s base where "s \<in> fst ` set ss" "base \<in> set bases" "c = add_rule t base (serviceJumpExprs env s)"
    | (dispatch) s i where "s \<in> fst ` set ss"
        "c = add_rule t (regularChain t (scs_chainName s)) (serviceDispatchExprs s (service_set t (s, i)))"
    | (dnat) s b where "s \<in> fst ` set ss" "b \<in> set (scs_backendChains s)"
        "c = add_rule t (regularChain t (bes_chainName b)) (backendDNATExprs env b)"
    using assms(5) unfolding service_rules_def by force
  moreover have "scs_chainName s \<in> known" "scs_dispatchMapName s \<in> maps"
    "b \<in> set (scs_backendChains s) \<Longrightarrow> bes_chainName b \<in> known" if "(s, i) \<in> set ss" for s i b
    using assms(3,4) imageI [OF that, of fst] unfolding service_chains_def set_map fst_conv by blast+
  ultimately show ?thesis
    using assms(1,2) by cases (auto simp: regularChain_def service_set_def dispatchSet_def intro!: rule_ok_intros)
qed

lemma ruleset_commands_closed:
  assumes "length ids = length (rs_serviceChains spec)"
  shows "closed_from {} {} {} (ruleset_commands env spec deleteTable ids)"
proof -
  let ?ss = "zip (rs_serviceChains spec) ids"
  let ?bases = "map (base_chain (spec_table spec)) defaultBaseChains"
  let ?C = "ch_Name ` set ?bases \<union> service_chains (rs_serviceChains spec)"
  have "closed_in (spec_table spec) ?C (scs_dispatchMapName ` set (rs_serviceChains spec)) (service_rules env (spec_table spec) ?ss ?bases)"
    by (rule closed_from_rules, erule service_rules_ok [rotated 4]) (use assms in \<open>auto simp: base_chain_def\<close>)
  then show ?thesis
    using closed_from_chains [of defaultBaseChains "base_chain (spec_table spec)" "spec_table spec" "{}" "{}"]
    by (simp add: ruleset_commands_def Let_def comp_def image_image closed_from_services [OF assms]
        closed_in_def [of _ "{}" "{}", simplified, symmetric] base_chain_def [of _ c for c])
qed

section \<open>What is queued\<close>

text \<open>C9: The batch is self-contained: for a ruleset with distinct service chain names, queueing succeeds,
  and read in order, every chain and every map is added to a table added before, every rule to a chain
  of its table added before, every jump and every dispatch element names a chain of that table added
  before and every lookup a map of it added before, after the deletion of the old table.\<close>

theorem queued_batch_closed:
  assumes "conn_batches env batch" and "rs_baseChains spec = defaultBaseChains"
    and "distinct (map scs_chainName (rs_serviceChains spec))" and "batch w = []"
  shows "\<exists>w'. queueRuleset env spec deleteTable w = (None, w') \<and> closed_from {} {} {} (batch w')"
  using queueRuleset_batch [OF assms(1-3), of deleteTable w] ruleset_commands_closed assms(4) by force


text \<open>A new connection starts with an empty queue, and asking the context does not touch it.\<close>

definition conn_fresh :: "'w nft_env \<Rightarrow> ('w \<Rightarrow> command list) \<Rightarrow> bool" where
  "conn_fresh env batch \<longleftrightarrow>
     (\<forall>w. batch (snd (connFactory_New env w)) = []) \<and> (\<forall>w. batch (snd (ctx_Err env w)) = batch w)"

lemma applyOnce_None:
  assumes "conn_batches env batch" and "conn_fresh env batch" and "rs_baseChains spec = defaultBaseChains"
    and "distinct (map scs_chainName (rs_serviceChains spec))"
    and "applyOnce env (Some spec) deleteTable w = (None, w')"
  shows "\<exists>v ids. Flush env v = (None, w') \<and> batch v = ruleset_commands env spec deleteTable ids
    \<and> length ids = length (rs_serviceChains spec)"
proof -
  from assms(5) obtain w1 w2 w3 w4 where c: "connFactory_New env w1 = (None, w2)"
    and q: "queueRuleset env spec deleteTable w2 = (None, w3)" and x: "ctx_Err env w3 = (None, w4)"
    and f: "Flush env w4 = (None, w')"
    by (auto simp: applyOnce_def split: prod.splits option.splits)
  have "batch w2 = []" "batch w4 = batch w3"
    using assms(2) c x by (auto simp: conn_fresh_def dest: spec [of _ w1] spec [of _ w3])
  with queueRuleset_batch [OF assms(1,3,4), of deleteTable w2] q f show ?thesis by (auto intro!: exI [of _ w4])
qed

text \<open>C34: A successful \<open>Apply\<close> has flushed the whole ruleset: the last flush of its connection succeeded
  on a queue that holds the complete replacement batch and nothing else. The batch deletes the old
  table, unless a first attempt that did so failed because the table was missing.\<close>

theorem Apply_flushes_ruleset:
  assumes "conn_batches env batch" and "conn_fresh env batch" and "rs_baseChains spec = defaultBaseChains"
    and "distinct (map scs_chainName (rs_serviceChains spec))"
    and "Apply env (Some spec) w = (None, w')"
  shows "\<exists>v ids deleteTable. Flush env v = (None, w') \<and> batch v = ruleset_commands env spec deleteTable ids
    \<and> length ids = length (rs_serviceChains spec)
    \<and> (deleteTable \<or> (\<exists>w1 w2 err. applyOnce env (Some spec) True w1 = (Some err, w2) \<and> isTableMissingError err))"
proof -
  from assms(5) obtain w1 where "ctx_Err env w = (None, w1)"
    and "applyOnce env (Some spec) True w1 = (None, w') \<or>
      (\<exists>err w2. applyOnce env (Some spec) True w1 = (Some err, w2) \<and> isTableMissingError err
         \<and> applyOnce env (Some spec) False w2 = (None, w'))"
    by (auto simp: Apply_def split: prod.splits option.splits if_splits)
  then show ?thesis using applyOnce_None [OF assms(1-4)] by metis
qed

section \<open>A recording connection\<close>

text \<open>The simplest connection that batches: the world is the list of messages so far; contexts are
  never cancelled, set identifiers are all 1, and a flush empties the queue.\<close>

definition recording_env :: "command list nft_env" where
  "recording_env = \<lparr>ctx_Err = (\<lambda>w. (None, w)), connFactory_New = (\<lambda>w. (None, [])),
     DelTable = (\<lambda>t w. w @ [CDelTable t]), AddTable = (\<lambda>t w. (t, w @ [CAddTable t])),
     AddChain = (\<lambda>c w. (c, w @ [CAddChain c])),
     AddSet = (\<lambda>s els w. (Inr (s\<lparr>set_ID := 1\<rparr>), w @ [CAddSet (s\<lparr>set_ID := 1\<rparr>) els])),
     AddRule = (\<lambda>r w. w @ [CAddRule r]), Flush = (\<lambda>w. (None, [])),
     BigEndian_PutUint16 = (\<lambda>p. [ucast (drop_bit 8 p), ucast p]),
     NativeEndian_PutUint32 = (\<lambda>n. [ucast n, ucast (drop_bit 8 n), ucast (drop_bit 16 n), ucast (drop_bit 24 n)])\<rparr>"

lemma recording_env_batches: "conn_batches recording_env id"
  by (auto simp: conn_batches_def recording_env_def)

definition sample_spec :: rulesetSpec where
  "sample_spec = \<lparr>rs_tableName = ''clusterip-gw'', rs_family = TableFamilyIPv4, rs_baseChains = defaultBaseChains,
     rs_serviceChains = [\<lparr>scs_serviceKey = ''default/demo:tcp'', scs_chainName = ''svc_1'', scs_dispatchMapName = ''map_1'',
       scs_clusterIP = [10, 96, 0, 10], scs_servicePort = 80, scs_backendChains =
         [\<lparr>bes_chainName = ''svc_1_be0'', bes_backendIP = [10, 0, 0, 2], bes_backendPort = 8080\<rparr>]\<rparr>]\<rparr>"

lemma sample_spec_ok:
  "rs_baseChains sample_spec = defaultBaseChains" "distinct (map scs_chainName (rs_serviceChains sample_spec))"
  by (simp_all add: sample_spec_def)

theorem queued_batch_closed_witness:
  "\<exists>w'. queueRuleset recording_env sample_spec True [] = (None, w') \<and> closed_from {} {} {} w'"
  using queued_batch_closed [OF recording_env_batches sample_spec_ok, of "[]" True] by simp

theorem Apply_flushes_ruleset_witness:
  "\<exists>v ids deleteTable w'. Apply recording_env (Some sample_spec) [] = (None, w')
    \<and> Flush recording_env v = (None, w') \<and> v = ruleset_commands recording_env sample_spec deleteTable ids"
proof -
  have fresh: "conn_fresh recording_env id" by (simp add: conn_fresh_def recording_env_def)
  have env: "ctx_Err recording_env w = (None, w)" "connFactory_New recording_env w = (None, [])"
    "Flush recording_env w = (None, [])" for w
    by (simp_all add: recording_env_def)
  have "Apply recording_env (Some sample_spec) [] = (None, [])"
    using queueRuleset_batch [OF recording_env_batches sample_spec_ok, of True "[]"]
    by (auto simp: Apply_def applyOnce_def env)
  then show ?thesis
    using Apply_flushes_ruleset [OF recording_env_batches fresh sample_spec_ok] by auto blast
qed

end
