(* ===== verification/SyncLoop.thy ===== *)
theory SyncLoop
  imports Proxier NftBatch
begin

text \<open>
  \<open>SyncLoop\<close> of \<open>internal/agent/nftables/proxier.go\<close> running beside the informer handlers, as a step
  relation. Informer goroutines update a tracker (under the tracker's own lock), then mark the sync as
  pending (under the proxier's lock), then offer a token; the loop goroutine waits in its \<open>select\<close>, takes
  the proxier's lock, captures one tracker snapshot after the other, applies, unlocks, and treats its
  retry timer. Every step below is one such atomic section, so tracker updates may fall between the two
  captures and during the apply, while handlers that need the proxier's lock wait for the sync to end.

  Time is a component of the state that may advance at any step. The ticker is its next tick; the retry
  timer is its deadline, \<open>None\<close> when \<open>retryTimer\<close> is \<open>nil\<close>. Five components record the past for the
  statements only: whether the latest sync returned an error, the tracker contents of the last completed
  sync, the ruleset it computed, the times of the completed syncs, and the successful calls of the
  applier. The last is not computed beside the code: \<open>sync\<close> runs with an applier that passes every call
  on to the netlink applier and writes the successful ones down.

  Every step has an actor, so that statements can say which of them are needed to get somewhere.
\<close>

section \<open>The loop and its environment\<close>

datatype phase =
    Selecting
  | Woken
  | Locked int
  | CapturedGateways int GatewayChangeTracker
  | CapturedAll int GatewayChangeTracker EndpointsChangeTracker
  | Returned int "goerror option"
  | Stopped

datatype actor = Clock | Environment | Handler | Loop

record 'w loop_state =
  ls_proxier :: Proxier
  ls_world :: 'w
  ls_now :: int
  ls_tick :: int
  ls_retry :: "int option"
  ls_phase :: phase
  ls_tracked :: nat
  ls_marked :: nat
  ls_failed :: bool
  ls_view :: "GatewayChangeTracker \<times> EndpointsChangeTracker"
  ls_ruleset :: "rulesetSpec option"
  ls_syncs :: "int list"
  ls_applied :: "(int \<times> rulesetSpec) list"

fun lock_free :: "phase \<Rightarrow> bool" where
  "lock_free (Locked _) = False"
| "lock_free (CapturedGateways _ _) = False"
| "lock_free (CapturedAll _ _ _) = False"
| "lock_free _ = True"

text \<open>What a handler does before it calls \<open>requestSync\<close>.\<close>

fun track :: "agent_event \<Rightarrow> Proxier \<Rightarrow> Proxier" where
  "track (GatewayAdded g) p = trackGateway None (Some g) p"
| "track (GatewayUpdated old g) p = trackGateway (Some old) (Some g) p"
| "track (GatewayDeleted g) p = trackGateway (Some g) None p"
| "track GatewaysSynced p = p\<lparr>px_gatewaysSynced := True\<rparr>"
| "track (EndpointSliceAdded s) p = trackEndpointSlice (Some s) False p"
| "track (EndpointSliceUpdated old s) p = trackEndpointSlice (Some s) False p"
| "track (EndpointSliceDeleted s) p = trackEndpointSlice (Some s) True p"
| "track EndpointSlicesSynced p = p\<lparr>px_endpointSlicesSynced := True\<rparr>"

fun takes_proxier_lock :: "agent_event \<Rightarrow> bool" where
  "takes_proxier_lock GatewaysSynced = True"
| "takes_proxier_lock EndpointSlicesSynced = True"
| "takes_proxier_lock _ = False"

definition with_trackers :: "GatewayChangeTracker \<Rightarrow> EndpointsChangeTracker \<Rightarrow> Proxier \<Rightarrow> Proxier" where
  "with_trackers g e p = p\<lparr>px_gatewayTracker := g, px_endpointTracker := e\<rparr>"

definition sync_remaining :: "int \<Rightarrow> Proxier \<Rightarrow> int" where
  "sync_remaining now1 p =
     (case px_lastSync p of
        None \<Rightarrow> 0
      | Some t \<Rightarrow> if px_minSyncPeriod p > 0 then px_minSyncPeriod p - (now1 - t) else 0)"

definition sync_due :: "int \<Rightarrow> Proxier \<Rightarrow> bool" where
  "sync_due now1 p \<longleftrightarrow> Ready p \<and> sync_remaining now1 p \<le> 0"

text \<open>The runtime advances a ticker past the current time in whole periods.\<close>

definition next_tick :: "int \<Rightarrow> int \<Rightarrow> int \<Rightarrow> int" where
  "next_tick period when now = when + period * (1 + (now - when) div period)"

definition scheduleRetry :: "int \<Rightarrow> int \<Rightarrow> int" where
  "scheduleRetry now delay = now + (if delay \<le> 0 then 1 else delay)"

definition SyncLoop_start :: "Proxier \<Rightarrow> 'w \<Rightarrow> int \<Rightarrow> 'w loop_state" where
  "SyncLoop_start p w now =
     \<lparr>ls_proxier = p, ls_world = w, ls_now = now, ls_tick = now + px_syncPeriod p, ls_retry = None,
      ls_phase = Selecting, ls_tracked = 0, ls_marked = 0, ls_failed = False,
      ls_view = (NewGatewayChangeTracker, NewEndpointsChangeTracker), ls_ruleset = None, ls_syncs = [],
      ls_applied = []\<rparr>"

text \<open>The applier of the proxier, observed: the world is paired with the rulesets applied successfully.\<close>

definition observed_Apply ::
    "'w nft_env \<Rightarrow> rulesetSpec option \<Rightarrow> 'w \<times> rulesetSpec list \<Rightarrow>
      goerror option \<times> 'w \<times> rulesetSpec list" where
  "observed_Apply env spec x =
     (case Apply env spec (fst x) of
        (None, w') \<Rightarrow> (None, w', (case spec of None \<Rightarrow> snd x | Some r \<Rightarrow> r # snd x))
      | (Some e, w') \<Rightarrow> (Some e, w', snd x))"

inductive loop_step :: "'w nft_env \<Rightarrow> actor \<Rightarrow> 'w loop_state \<Rightarrow> 'w loop_state \<Rightarrow> bool" for env where
  time_passes: "0 \<le> d \<Longrightarrow> loop_step env Clock s (s\<lparr>ls_now := ls_now s + d\<rparr>)"
| world_moves: "loop_step env Environment s (s\<lparr>ls_world := w\<rparr>)"
| handler_tracks:
    "takes_proxier_lock e \<longrightarrow> lock_free (ls_phase s) \<Longrightarrow>
     loop_step env Handler s (s\<lparr>ls_proxier := track e (ls_proxier s), ls_tracked := Suc (ls_tracked s)\<rparr>)"
| handler_marks:
    "ls_tracked s = Suc n \<Longrightarrow> lock_free (ls_phase s) \<Longrightarrow>
     loop_step env Handler s (s\<lparr>ls_proxier := markPending (ls_proxier s), ls_tracked := n,
                        ls_marked := Suc (ls_marked s)\<rparr>)"
| handler_offers:
    "ls_marked s = Suc n \<Longrightarrow>
     loop_step env Handler s (s\<lparr>ls_proxier := offerToken (ls_proxier s), ls_marked := n\<rparr>)"
| loop_done: "ls_phase s = Selecting \<Longrightarrow> loop_step env Environment s (s\<lparr>ls_phase := Stopped, ls_retry := None\<rparr>)"
| loop_ticks:
    "ls_phase s = Selecting \<Longrightarrow> ls_tick s \<le> ls_now s \<Longrightarrow>
     loop_step env Loop s (s\<lparr>ls_phase := Woken, ls_failed := False,
                        ls_tick := next_tick (px_syncPeriod (ls_proxier s)) (ls_tick s) (ls_now s)\<rparr>)"
| loop_token:
    "ls_phase s = Selecting \<Longrightarrow> px_resyncCh (ls_proxier s) \<Longrightarrow>
     loop_step env Loop s (s\<lparr>ls_phase := Woken, ls_failed := False, ls_proxier := (ls_proxier s)\<lparr>px_resyncCh := False\<rparr>\<rparr>)"
| loop_retries:
    "ls_phase s = Selecting \<Longrightarrow> ls_retry s = Some t \<Longrightarrow> t \<le> ls_now s \<Longrightarrow>
     loop_step env Loop s (s\<lparr>ls_phase := Woken, ls_failed := False, ls_retry := None\<rparr>)"
| sync_locks: "ls_phase s = Woken \<Longrightarrow> loop_step env Loop s (s\<lparr>ls_phase := Locked (ls_now s)\<rparr>)"
| sync_captures_gateways:
    "ls_phase s = Locked now1 \<Longrightarrow>
     loop_step env Loop s (s\<lparr>ls_phase := CapturedGateways now1 (px_gatewayTracker (ls_proxier s))\<rparr>)"
| sync_captures_endpoints:
    "ls_phase s = CapturedGateways now1 g \<Longrightarrow>
     loop_step env Loop s (s\<lparr>ls_phase := CapturedAll now1 g (px_endpointTracker (ls_proxier s))\<rparr>)"
| sync_returns:
    "ls_phase s = CapturedAll now1 g e \<Longrightarrow> valid_orders (with_trackers g e (ls_proxier s)) ro \<Longrightarrow>
     proxier_sync (observed_Apply env) ro now1 (ls_now s) (with_trackers g e (ls_proxier s)) (ls_world s, [])
       = ((delay, err), p', w', applied) \<Longrightarrow>
     completed = (sync_gate now1 (ls_proxier s) = None \<and> err = None) \<Longrightarrow>
     loop_step env Loop s (s\<lparr>
       ls_proxier := with_trackers (px_gatewayTracker (ls_proxier s)) (px_endpointTracker (ls_proxier s)) p',
       ls_world := w', ls_phase := Returned delay err,
       ls_view := (if completed then (g, e) else ls_view s),
       ls_ruleset := (if completed then Some (desiredRulesetLocked ro (with_trackers g e (ls_proxier s)))
                      else ls_ruleset s),
       ls_syncs := (if completed then ls_now s # ls_syncs s else ls_syncs s),
       ls_applied := map (Pair (ls_now s)) applied @ ls_applied s\<rparr>)"
| loop_after_error:
    "ls_phase s = Returned delay (Some err) \<Longrightarrow>
     loop_step env Loop s (s\<lparr>ls_phase := Selecting, ls_failed := True\<rparr>)"
| loop_schedules:
    "ls_phase s = Returned delay None \<Longrightarrow> delay > 0 \<Longrightarrow>
     loop_step env Loop s (s\<lparr>ls_phase := Selecting, ls_retry := Some (scheduleRetry (ls_now s) delay)\<rparr>)"
| loop_stops_retry:
    "ls_phase s = Returned delay None \<Longrightarrow> \<not> delay > 0 \<Longrightarrow>
     loop_step env Loop s (s\<lparr>ls_phase := Selecting, ls_retry := None\<rparr>)"

text \<open>Runs in which only the given actors take steps, and runs of all of them.\<close>

inductive reachable_by :: "'w nft_env \<Rightarrow> actor set \<Rightarrow> 'w loop_state \<Rightarrow> 'w loop_state \<Rightarrow> bool" for env A s where
  reachable_refl: "reachable_by env A s s"
| reachable_step: "reachable_by env A s t \<Longrightarrow> loop_step env a t u \<Longrightarrow> a \<in> A \<Longrightarrow> reachable_by env A s u"

abbreviation reachable :: "'w nft_env \<Rightarrow> 'w loop_state \<Rightarrow> 'w loop_state \<Rightarrow> bool" where
  "reachable env \<equiv> reachable_by env UNIV"

lemma reachable_trans: "reachable_by env A t u \<Longrightarrow> reachable_by env A s t \<Longrightarrow> reachable_by env A s u"
  by (induction rule: reachable_by.induct) (auto intro: reachable_by.intros)

lemma reachable_mono: "reachable_by env A s t \<Longrightarrow> A \<subseteq> B \<Longrightarrow> reachable_by env B s t"
  by (induction rule: reachable_by.induct) (auto intro: reachable_by.intros)

section \<open>What a sync does to the proxier\<close>

lemmas proxier_access = with_trackers_def markPending_def offerToken_def trackGateway_def trackEndpointSlice_def

lemma handle_track: "handle e p = requestSync (track e p)"
  by (cases e) (simp_all add: OnGatewayAdd_def OnGatewayUpdate_def OnGatewayDelete_def OnGatewaySynced_def
      OnEndpointSliceAdd_def OnEndpointSliceUpdate_def OnEndpointSliceDelete_def OnEndpointSlicesSynced_def)

lemma track_fields [simp]:
  "px_tableName (track e p) = px_tableName p" "px_syncPeriod (track e p) = px_syncPeriod p"
  "px_minSyncPeriod (track e p) = px_minSyncPeriod p" "px_applyRules (track e p) = px_applyRules p"
  "px_syncPending (track e p) = px_syncPending p" "px_resyncCh (track e p) = px_resyncCh p"
  "px_lastSync (track e p) = px_lastSync p"
  by (cases e; simp add: proxier_access)+

lemma track_trackers:
  "px_gatewayTracker (track e p) =
    (case gateway_event e of None \<Rightarrow> px_gatewayTracker p | Some d \<Rightarrow> gateway_update d (px_gatewayTracker p))"
  "px_endpointTracker (track e p) =
    (case slice_event e of None \<Rightarrow> px_endpointTracker p | Some d \<Rightarrow> slice_update d (px_endpointTracker p))"
  by (cases e; simp add: proxier_access gateway_update_def slice_update_def)+

lemma pending_token_fields [simp]:
  "px_tableName (markPending p) = px_tableName p" "px_tableName (offerToken p) = px_tableName p"
  "px_minSyncPeriod (markPending p) = px_minSyncPeriod p" "px_minSyncPeriod (offerToken p) = px_minSyncPeriod p"
  "px_syncPeriod (markPending p) = px_syncPeriod p" "px_syncPeriod (offerToken p) = px_syncPeriod p"
  "px_applyRules (markPending p) = px_applyRules p" "px_applyRules (offerToken p) = px_applyRules p"
  "px_lastSync (markPending p) = px_lastSync p" "px_lastSync (offerToken p) = px_lastSync p"
  "px_syncPending (markPending p)" "px_syncPending (offerToken p) = px_syncPending p"
  "px_resyncCh (markPending p) = px_resyncCh p" "px_resyncCh (offerToken p)"
  "px_gatewayTracker (markPending p) = px_gatewayTracker p" "px_gatewayTracker (offerToken p) = px_gatewayTracker p"
  "px_endpointTracker (markPending p) = px_endpointTracker p"
  "px_endpointTracker (offerToken p) = px_endpointTracker p"
  "Ready (markPending p) = Ready p" "Ready (offerToken p) = Ready p"
  by (simp_all add: markPending_def offerToken_def Ready_def)

lemma with_trackers_fields [simp]:
  "px_tableName (with_trackers g e p) = px_tableName p" "px_syncPeriod (with_trackers g e p) = px_syncPeriod p"
  "px_minSyncPeriod (with_trackers g e p) = px_minSyncPeriod p"
  "px_applyRules (with_trackers g e p) = px_applyRules p"
  "px_syncPending (with_trackers g e p) = px_syncPending p" "px_resyncCh (with_trackers g e p) = px_resyncCh p"
  "px_lastSync (with_trackers g e p) = px_lastSync p" "px_gatewayTracker (with_trackers g e p) = g"
  "px_endpointTracker (with_trackers g e p) = e" "Ready (with_trackers g e p) = Ready p"
  "with_trackers (px_gatewayTracker p) (px_endpointTracker p) p = p"
  "with_trackers g e (with_trackers g' e' p) = with_trackers g e p"
  by (simp_all add: with_trackers_def Ready_def)

lemma sync_due_with_trackers [simp]: "sync_due n (with_trackers g e p) = sync_due n p"
  by (simp add: sync_due_def sync_remaining_def split: option.split)

lemma sync_gate_eq:
  "sync_gate now1 p =
    (if \<not> Ready p then Some 0
     else if sync_remaining now1 p > 0 then Some (if px_syncPending p then sync_remaining now1 p else 0) else None)"
  by (auto simp: sync_gate_def Ready_def sync_remaining_def Let_def)

lemma sync_gate_None: "sync_gate now1 p = None \<longleftrightarrow> sync_due now1 p"
  by (auto simp: sync_gate_eq sync_due_def)

lemma sync_gate_with_trackers [simp]: "sync_gate n (with_trackers g e p) = sync_gate n p"
  by (simp add: sync_gate_eq sync_remaining_def split: option.split)

text \<open>The four ways a sync ends.\<close>

lemma proxier_sync_cases:
  assumes "proxier_sync applier ro now1 now2 p w = ((delay, err), p', w')"
  obtains (not_ready) "\<not> Ready p" "delay = 0" "err = None" "p' = p" "w' = w"
  | (limited) "Ready p" "sync_remaining now1 p > 0" "err = None" "p' = p" "w' = w"
      "delay = (if px_syncPending p then sync_remaining now1 p else 0)"
  | (failed) e where "sync_due now1 p" "px_applyRules p" "err = Some e" "delay = 0" "p' = p"
      "applier (Some (desiredRulesetLocked ro p)) w = (Some e, w')"
  | (completed) "sync_due now1 p" "err = None" "delay = 0"
      "p' = p\<lparr>px_lastSync := Some now2, px_syncPending := False\<rparr>"
      "(if px_applyRules p then applier (Some (desiredRulesetLocked ro p)) w else (None, w)) = (None, w')"
  using assms
  by (auto simp: proxier_sync_def sync_gate_eq sync_due_def Let_def intro: that
      split: if_splits option.splits prod.splits)

lemma proxier_sync_fields:
  assumes "proxier_sync applier ro now1 now2 p w = ((delay, err), p', w')"
  shows "px_tableName p' = px_tableName p" "px_syncPeriod p' = px_syncPeriod p"
    "px_minSyncPeriod p' = px_minSyncPeriod p" "px_applyRules p' = px_applyRules p"
    "px_resyncCh p' = px_resyncCh p" "Ready p' = Ready p"
    "px_gatewayTracker p' = px_gatewayTracker p" "px_endpointTracker p' = px_endpointTracker p"
    "px_lastSync p' = (if sync_due now1 p \<and> err = None then Some now2 else px_lastSync p)"
    "px_syncPending p' = (if sync_due now1 p \<and> err = None then False else px_syncPending p)"
proof -
  have ready: "Ready (p\<lparr>px_lastSync := l, px_syncPending := b\<rparr>) = Ready p" for l b
    by (simp add: Ready_def)
  have due: "sync_due now1 p \<Longrightarrow> Ready p" "sync_remaining now1 p > 0 \<Longrightarrow> \<not> sync_due now1 p"
    "\<not> Ready p \<Longrightarrow> \<not> sync_due now1 p"
    by (auto simp: sync_due_def)
  show "px_tableName p' = px_tableName p" "px_syncPeriod p' = px_syncPeriod p"
    "px_minSyncPeriod p' = px_minSyncPeriod p" "px_applyRules p' = px_applyRules p"
    "px_resyncCh p' = px_resyncCh p" "Ready p' = Ready p"
    "px_gatewayTracker p' = px_gatewayTracker p" "px_endpointTracker p' = px_endpointTracker p"
    "px_lastSync p' = (if sync_due now1 p \<and> err = None then Some now2 else px_lastSync p)"
    "px_syncPending p' = (if sync_due now1 p \<and> err = None then False else px_syncPending p)"
    using assms by (cases rule: proxier_sync_cases; simp add: ready due; fail)+
qed

text \<open>What the applier saw: one ruleset, in a completed sync of a proxier that applies rules.\<close>

lemma observed_Apply_Some:
  "observed_Apply env (Some r) (w, l) = (err, w', l') \<longleftrightarrow>
    Apply env (Some r) w = (err, w') \<and> l' = (if err = None then r # l else l)"
  by (auto simp: observed_Apply_def split: prod.splits option.splits)

lemma proxier_sync_applied:
  assumes "proxier_sync (observed_Apply env) ro now1 now2 p (w, []) = ((delay, err), p', w', applied)"
  shows "applied = (if sync_due now1 p \<and> err = None \<and> px_applyRules p then [desiredRulesetLocked ro p] else [])"
  using assms
  by (cases rule: proxier_sync_cases) (auto simp: observed_Apply_Some sync_due_def split: if_splits)

lemma desiredRulesetLocked_trackers:
  "px_tableName p = px_tableName p' \<Longrightarrow> px_gatewayTracker p = px_gatewayTracker p' \<Longrightarrow>
    px_endpointTracker p = px_endpointTracker p' \<Longrightarrow> desiredRulesetLocked ro p = desiredRulesetLocked ro p'"
  by (simp add: desiredRulesetLocked_def)

section \<open>Invariants\<close>

text \<open>No update is lost: when nothing is pending and no handler is about to say so, the last completed
  sync saw the current trackers; the captures of a running sync are current or a handler waits.\<close>

definition view_inv :: "'w loop_state \<Rightarrow> bool" where
  "view_inv s \<longleftrightarrow>
     (let p = ls_proxier s; g = px_gatewayTracker p; e = px_endpointTracker p in
      (px_syncPending p \<or> ls_tracked s > 0 \<or> ls_view s = (g, e)) \<and>
      (case ls_phase s of
         CapturedGateways now1 cg \<Rightarrow> cg = g \<or> ls_tracked s > 0
       | CapturedAll now1 cg ce \<Rightarrow> (cg, ce) = (g, e) \<or> ls_tracked s > 0
       | _ \<Rightarrow> True))"

text \<open>A pending sync has something that will wake the loop, or failed and waits for the ticker.\<close>

definition wakeup :: "'w loop_state \<Rightarrow> bool" where
  "wakeup s \<longleftrightarrow>
     px_resyncCh (ls_proxier s) \<or> ls_tracked s > 0 \<or> ls_marked s > 0 \<or> \<not> Ready (ls_proxier s)"

definition wake_inv :: "'w loop_state \<Rightarrow> bool" where
  "wake_inv s \<longleftrightarrow>
     \<not> px_syncPending (ls_proxier s) \<or> wakeup s \<or>
     (case ls_phase s of
        Selecting \<Rightarrow> ls_retry s \<noteq> None \<or> ls_failed s
      | Returned delay err \<Rightarrow> delay > 0 \<or> err \<noteq> None
      | _ \<Rightarrow> True)"

text \<open>The clock readings of the running sync and of the past ones.\<close>

definition time_inv :: "'w loop_state \<Rightarrow> bool" where
  "time_inv s \<longleftrightarrow>
     px_lastSync (ls_proxier s) = (case ls_syncs s of [] \<Rightarrow> None | t # _ \<Rightarrow> Some t) \<and>
     list_all (\<lambda>t. t \<le> ls_now s) (ls_syncs s) \<and>
     (case ls_phase s of
        Locked now1 \<Rightarrow> now1 \<le> ls_now s
      | CapturedGateways now1 _ \<Rightarrow> now1 \<le> ls_now s
      | CapturedAll now1 _ _ \<Rightarrow> now1 \<le> ls_now s
      | _ \<Rightarrow> True) \<and>
     successively (\<lambda>t u. u + max 0 (px_minSyncPeriod (ls_proxier s)) \<le> t) (ls_syncs s)"

definition ruleset_inv :: "'w loop_state \<Rightarrow> bool" where
  "ruleset_inv s \<longleftrightarrow>
     (ls_ruleset s = None) = (ls_syncs s = []) \<and>
     (case ls_ruleset s of
        None \<Rightarrow> True
      | Some r \<Rightarrow>
          (\<exists>ro. valid_orders (with_trackers (fst (ls_view s)) (snd (ls_view s)) (ls_proxier s)) ro
             \<and> r = desiredRulesetLocked ro (with_trackers (fst (ls_view s)) (snd (ls_view s)) (ls_proxier s))))"

definition finite_trackers :: "GatewayChangeTracker \<Rightarrow> EndpointsChangeTracker \<Rightarrow> bool" where
  "finite_trackers g e \<longleftrightarrow> finite (dom (gct_gateways g)) \<and> finite (dom (ect_slices e))"

lemma view_inv_step: "loop_step env a s t \<Longrightarrow> view_inv s \<Longrightarrow> view_inv t"
proof (induction rule: loop_step.induct)
  case (sync_returns s now1 g e ro delay err p' w' applied completed)
  then show ?case by (auto simp: view_inv_def Let_def proxier_sync_fields sync_gate_None)
qed (auto simp: view_inv_def Let_def split: phase.splits)

lemma wake_inv_step: "loop_step env a s t \<Longrightarrow> wake_inv s \<Longrightarrow> wake_inv t"
proof (induction rule: loop_step.induct)
  case (sync_returns s now1 g e ro delay err p' w' applied completed)
  from sync_returns(3) show ?case
    by (cases rule: proxier_sync_cases) (auto simp: wake_inv_def wakeup_def)
next
  case (handler_tracks e s)
  then show ?case by (auto simp: wake_inv_def wakeup_def)
qed (auto simp: wake_inv_def wakeup_def Ready_def markPending_def offerToken_def split: phase.splits if_splits)

lemma time_inv_step: "loop_step env a s t \<Longrightarrow> time_inv s \<Longrightarrow> time_inv t"
proof (induction rule: loop_step.induct)
  case (sync_returns s now1 g e ro delay err p' w' applied completed)
  then show ?case
    by (auto simp: time_inv_def proxier_sync_fields sync_gate_None sync_due_def sync_remaining_def successively_Cons
        split: list.splits if_splits)
qed (auto simp: time_inv_def list_all_iff split: phase.splits)

text \<open>What was applied, newest first: exactly the completed syncs, unless the proxier does not apply.\<close>

definition applied_inv :: "'w loop_state \<Rightarrow> bool" where
  "applied_inv s \<longleftrightarrow>
     (if px_applyRules (ls_proxier s)
      then map fst (ls_applied s) = ls_syncs s
        \<and> ls_ruleset s = (case ls_applied s of [] \<Rightarrow> None | (_, r) # _ \<Rightarrow> Some r)
      else ls_applied s = [])"

lemma applied_inv_step: "loop_step env a s t \<Longrightarrow> applied_inv s \<Longrightarrow> applied_inv t"
proof (induction rule: loop_step.induct)
  case (sync_returns s now1 g e ro delay err p' w' applied completed)
  then show ?case
    by (auto simp: applied_inv_def proxier_sync_fields sync_gate_None
        proxier_sync_applied [OF sync_returns(3)] desiredRulesetLocked_def)
qed (auto simp: applied_inv_def)

lemma valid_orders_trackers:
  "px_gatewayTracker p = px_gatewayTracker q \<Longrightarrow> px_endpointTracker p = px_endpointTracker q \<Longrightarrow>
    valid_orders p ro = valid_orders q ro"
  by (simp add: valid_orders_def)

lemma ruleset_inv_step: "loop_step env a s t \<Longrightarrow> ruleset_inv s \<Longrightarrow> ruleset_inv t"
proof (induction rule: loop_step.induct)
  case (sync_returns s now1 g e ro delay err p' w' applied completed)
  then show ?case
    by (auto simp: ruleset_inv_def valid_orders_def desiredRulesetLocked_def proxier_sync_fields sync_gate_None
        split: option.splits)
qed (auto simp: ruleset_inv_def valid_orders_def desiredRulesetLocked_def split: option.splits)


lemma finite_trackers_track:
  "finite_trackers (px_gatewayTracker p) (px_endpointTracker p) \<Longrightarrow>
    finite_trackers (px_gatewayTracker (track e p)) (px_endpointTracker (track e p))"
  by (auto simp: finite_trackers_def track_trackers gateways.content_update slices.content_update
      split: option.splits)

lemma finite_trackers_step:
  "loop_step env a s t \<Longrightarrow>
    finite_trackers (px_gatewayTracker (ls_proxier s)) (px_endpointTracker (ls_proxier s)) \<Longrightarrow>
    finite_trackers (px_gatewayTracker (ls_proxier t)) (px_endpointTracker (ls_proxier t))"
  by (induction rule: loop_step.induct) (auto simp: finite_trackers_track)

definition loop_inv :: "'w loop_state \<Rightarrow> bool" where
  "loop_inv s \<longleftrightarrow> view_inv s \<and> wake_inv s \<and> time_inv s \<and> ruleset_inv s \<and> applied_inv s
     \<and> finite_trackers (px_gatewayTracker (ls_proxier s)) (px_endpointTracker (ls_proxier s))"

lemma loop_inv_start:
  assumes "NewProxier cfg = Inr p"
  shows "loop_inv (SyncLoop_start p w now)"
  using assms
  by (auto simp: NewProxier_def SyncLoop_start_def loop_inv_def view_inv_def wake_inv_def time_inv_def
      ruleset_inv_def applied_inv_def finite_trackers_def NewGatewayChangeTracker_def NewEndpointsChangeTracker_def
      split: if_splits)

interpretation loop_runs: preserved "\<lambda>s t. \<exists>a. loop_step env a s t" loop_inv for env
  by unfold_locales (auto simp: loop_inv_def intro: view_inv_step wake_inv_step time_inv_step ruleset_inv_step
      applied_inv_step finite_trackers_step)

lemma reachable_runs: "reachable_by env A s t \<Longrightarrow> (\<lambda>s t. \<exists>a. loop_step env a s t)\<^sup>*\<^sup>* s t"
  by (induction rule: reachable_by.induct) (auto intro: rtranclp.rtrancl_into_rtrancl)

lemmas loop_inv_reachable = loop_runs.runs_keep [OF reachable_runs]

lemmas start_inv = loop_inv_reachable [OF _ loop_inv_start]

lemma finite_valid_orders:
  assumes "finite_trackers (px_gatewayTracker p) (px_endpointTracker p)"
  shows "\<exists>ro. valid_orders p ro"
proof -
  from assms obtain ks ls where "range_order (gct_gateways (px_gatewayTracker p)) ks"
    "range_order (ect_slices (px_endpointTracker p)) ls"
    unfolding finite_trackers_def by (metis finite_range_order)
  moreover obtain fs where "range_order (GatewayChangeTracker_Snapshot ks (px_gatewayTracker p)) fs"
    using finite_range_order finite_frontends by blast
  ultimately have "valid_orders p \<lparr>ro_gateways = ks, ro_slices = ls, ro_frontends = fs\<rparr>"
    by (simp add: valid_orders_def)
  then show ?thesis ..
qed

definition same_config :: "Proxier \<Rightarrow> Proxier \<Rightarrow> bool" where
  "same_config p q \<longleftrightarrow> px_tableName p = px_tableName q \<and> px_syncPeriod p = px_syncPeriod q
     \<and> px_minSyncPeriod p = px_minSyncPeriod q \<and> px_applyRules p = px_applyRules q"

lemma same_config_step: "loop_step env a s t \<Longrightarrow> same_config (ls_proxier s) (ls_proxier t)"
  by (induction rule: loop_step.induct) (auto simp: same_config_def proxier_sync_fields)

lemma same_config_reachable: "reachable_by env A s t \<Longrightarrow> same_config (ls_proxier s) (ls_proxier t)"
  by (induction rule: reachable_by.induct) (auto simp: same_config_def dest!: same_config_step)

lemma catch_up_steps:
  assumes "loop_inv s"
    and "ls_phase s = Selecting" and "Ready (ls_proxier s)"
    and apply_ok: "\<And>spec w. \<exists>w'. Apply env (Some spec) w = (None, w')"
  shows "\<exists>t ro. reachable_by env {Clock, Loop} s t \<and> ls_tracked t = ls_tracked s \<and> ls_syncs t \<noteq> []
     \<and> \<not> px_syncPending (ls_proxier t)
     \<and> px_gatewayTracker (ls_proxier t) = px_gatewayTracker (ls_proxier s)
     \<and> px_endpointTracker (ls_proxier t) = px_endpointTracker (ls_proxier s)
     \<and> valid_orders (ls_proxier t) ro \<and> ls_ruleset t = Some (desiredRulesetLocked ro (ls_proxier t))
     \<and> (px_applyRules (ls_proxier s) \<longrightarrow>
          ls_applied t = (ls_now t, desiredRulesetLocked ro (ls_proxier t)) # ls_applied s)"
proof -
  let ?p = "ls_proxier s"
  let ?g = "px_gatewayTracker ?p" and ?e = "px_endpointTracker ?p"
  obtain d where d: "0 \<le> d" "ls_tick s \<le> ls_now s + d" "sync_remaining (ls_now s + d) ?p \<le> 0"
  proof (rule that)
    let ?d = "max 0 (max (ls_tick s - ls_now s) (case px_lastSync ?p of None \<Rightarrow> 0
      | Some t \<Rightarrow> t + px_minSyncPeriod ?p - ls_now s))"
    show "0 \<le> ?d" "ls_tick s \<le> ls_now s + ?d" "sync_remaining (ls_now s + ?d) ?p \<le> 0"
      by (auto simp: sync_remaining_def split: option.split)
  qed
  define s1 where "s1 = s\<lparr>ls_now := ls_now s + d\<rparr>"
  define s2 where "s2 = s1\<lparr>ls_phase := Woken, ls_failed := False,
    ls_tick := next_tick (px_syncPeriod (ls_proxier s1)) (ls_tick s1) (ls_now s1)\<rparr>"
  define s3 where "s3 = s2\<lparr>ls_phase := Locked (ls_now s2)\<rparr>"
  define s4 where "s4 = s3\<lparr>ls_phase := CapturedGateways (ls_now s2) (px_gatewayTracker (ls_proxier s3))\<rparr>"
  define s5 where "s5 = s4\<lparr>ls_phase := CapturedAll (ls_now s2) (px_gatewayTracker (ls_proxier s3))
    (px_endpointTracker (ls_proxier s4))\<rparr>"
  note sdefs = s1_def s2_def s3_def s4_def s5_def
  have r: "reachable_by env {Clock, Loop} s s5"
    unfolding s5_def s4_def s3_def s2_def s1_def
    by (intro reachable_step [OF _ sync_captures_endpoints] reachable_step [OF _ sync_captures_gateways]
        reachable_step [OF _ sync_locks] reachable_step [OF _ loop_ticks] reachable_step [OF _ time_passes]
        reachable_refl) (use assms(2) d in simp_all)
  have "finite_trackers ?g ?e" using assms(1) by (simp add: loop_inv_def)
  then obtain ro where ro: "valid_orders ?p ro" using finite_valid_orders by blast
  have due: "sync_due (ls_now s + d) ?p" using d assms(3) by (simp add: sync_due_def)
  obtain delay err p' w' log where sy: "proxier_sync (observed_Apply env) ro (ls_now s + d) (ls_now s + d) ?p
      (ls_world s, []) = ((delay, err), p', w', log)" by (metis prod.exhaust_sel)
  have err: "err = None"
    using sy apply_ok [of "desiredRulesetLocked ro ?p" "ls_world s"]
    by (cases rule: proxier_sync_cases) (auto simp: observed_Apply_Some)
  let ?t = "s5\<lparr>ls_proxier := with_trackers ?g ?e p', ls_world := w', ls_phase := Returned delay err,
       ls_view := (?g, ?e), ls_ruleset := Some (desiredRulesetLocked ro ?p), ls_syncs := ls_now s5 # ls_syncs s5,
       ls_applied := map (Pair (ls_now s5)) log @ ls_applied s5\<rparr>"
  have "loop_step env Loop s5 ?t"
    using sync_returns [of s5 "ls_now s + d" ?g ?e ro env delay err p' w' log True] sy err ro due
    by (simp add: sdefs sync_gate_None)
  then have "reachable_by env {Clock, Loop} s ?t" by (rule reachable_step [OF r]) simp
  moreover have "valid_orders (ls_proxier ?t) ro \<and> ls_ruleset ?t = Some (desiredRulesetLocked ro (ls_proxier ?t))
      \<and> \<not> px_syncPending (ls_proxier ?t)"
    using ro err due by (simp add: valid_orders_def desiredRulesetLocked_def proxier_sync_fields [OF sy])
  moreover have "px_applyRules ?p \<longrightarrow> ls_applied ?t = (ls_now ?t, desiredRulesetLocked ro (ls_proxier ?t)) # ls_applied s"
    using err due
    by (simp add: sdefs desiredRulesetLocked_def proxier_sync_fields [OF sy] proxier_sync_applied [OF sy])
  ultimately show ?thesis by (intro exI [of _ ?t] exI [of _ ro]) (simp add: sdefs)
qed

lemma config_of_options:
  assumes "NewProxier cfg = Inr p" and "reachable_by env A (SyncLoop_start p w now) s"
  shows "px_minSyncPeriod (ls_proxier s) = opt_MinSyncPeriod cfg"
    and "px_applyRules (ls_proxier s) = opt_ApplyRules cfg"
  using same_config_reachable [OF assms(2)] assms(1)
  by (auto simp: same_config_def SyncLoop_start_def NewProxier_def split: if_splits)

section \<open>Guarantees of the loop\<close>

text \<open>C1: No update is lost. In every interleaving of informer handlers with the loop, at every moment
  at which no sync is pending and no handler is between its tracker update and its pending mark, the
  ruleset of the last completed sync is the one desired for the current trackers; and when the agent
  applies rules, it is the ruleset of the last successful call of the applier.\<close>

theorem no_lost_update:
  assumes "NewProxier cfg = Inr p" and "reachable env (SyncLoop_start p w now) s"
    and "\<not> px_syncPending (ls_proxier s)" and "ls_tracked s = 0" and "ls_syncs s \<noteq> []"
  shows "\<exists>ro. valid_orders (ls_proxier s) ro \<and> ls_ruleset s = Some (desiredRulesetLocked ro (ls_proxier s))
    \<and> (opt_ApplyRules cfg \<longrightarrow> ls_applied s \<noteq> [] \<and> snd (hd (ls_applied s)) = desiredRulesetLocked ro (ls_proxier s))"
proof -
  have inv: "loop_inv s" by (rule start_inv [OF assms(2,1)])
  then obtain ro where ro: "valid_orders (ls_proxier s) ro"
    "ls_ruleset s = Some (desiredRulesetLocked ro (ls_proxier s))"
    using assms(3-5) by (auto simp: loop_inv_def view_inv_def ruleset_inv_def Let_def)
  moreover have "opt_ApplyRules cfg \<longrightarrow> ls_applied s \<noteq> []
      \<and> snd (hd (ls_applied s)) = desiredRulesetLocked ro (ls_proxier s)"
    using inv ro(2) config_of_options(2) [OF assms(1,2)]
    by (auto simp: loop_inv_def applied_inv_def split: list.splits)
  ultimately show ?thesis by blast
qed

text \<open>C25: A requested sync is never forgotten. Whenever the loop waits in its \<open>select\<close> with a sync
  pending and the caches synced, a token is in the channel, a handler is about to offer one, the
  rate-limit retry timer is armed, or the latest sync failed (and the periodic ticker repeats it).\<close>

theorem pending_sync_wakes_loop:
  assumes "NewProxier cfg = Inr p" and "reachable env (SyncLoop_start p w now) s"
    and "ls_phase s = Selecting" and "px_syncPending (ls_proxier s)" and "Ready (ls_proxier s)"
  shows "px_resyncCh (ls_proxier s) \<or> ls_tracked s + ls_marked s > 0 \<or> ls_retry s \<noteq> None \<or> ls_failed s"
proof -
  have "wake_inv s" using start_inv [OF assms(2,1)] by (simp add: loop_inv_def)
  then show ?thesis using assms(3-5) by (auto simp: wake_inv_def wakeup_def)
qed

text \<open>C38: The rate limit. In every interleaving, completed syncs are at least \<open>minSyncPeriod\<close> apart, and
  so are the successful calls of the applier.\<close>

theorem completed_syncs_spaced:
  assumes "NewProxier cfg = Inr p" and "reachable env (SyncLoop_start p w now) s"
  shows "successively (\<lambda>later earlier. later - earlier \<ge> opt_MinSyncPeriod cfg) (ls_syncs s)
    \<and> successively (\<lambda>later earlier. later - earlier \<ge> opt_MinSyncPeriod cfg) (map fst (ls_applied s))"
proof -
  have inv: "time_inv s" "applied_inv s" using start_inv [OF assms(2,1)] by (simp_all add: loop_inv_def)
  then have "successively (\<lambda>t u. u + max 0 (opt_MinSyncPeriod cfg) \<le> t) (ls_syncs s)"
    using config_of_options(1) [OF assms] by (simp add: time_inv_def)
  then have "successively (\<lambda>later earlier. later - earlier \<ge> opt_MinSyncPeriod cfg) (ls_syncs s)"
    by (auto elim!: successively_mono)
  then show ?thesis using inv(2) by (auto simp: applied_inv_def split: if_splits)
qed

text \<open>C39: The rate limit does not cover failures: a sync whose apply fails leaves the proxier as it
  was, so that a further sync at any later time is due at once and applies again.\<close>

theorem failed_sync_not_limited:
  assumes "proxier_sync (Apply env) ro now1 now2 p w = ((delay, Some err), p', w')" and "now1 \<le> now3"
    and "px_applyRules p"
  shows "proxier_sync (Apply env) ro now3 now4 p' w'' =
    (case Apply env (Some (desiredRulesetLocked ro p)) w'' of
       (Some e, w3) \<Rightarrow> ((0, Some e), p, w3)
     | (None, w3) \<Rightarrow> ((0, None), p\<lparr>px_lastSync := Some now4, px_syncPending := False\<rparr>, w3))"
proof -
  have p': "p' = p" and "sync_due now1 p"
    using assms(1) by (cases rule: proxier_sync_cases; simp)+
  then have "sync_due now3 p"
    using assms(2) by (auto simp: sync_due_def sync_remaining_def split: option.splits if_splits)
  then show ?thesis
    unfolding p' using assms(3)
    by (auto simp: proxier_sync_def sync_gate_None [symmetric] split: option.splits prod.splits)
qed

text \<open>C13: The loop can always catch up. From every reachable state in which it waits in its \<open>select\<close>
  with both caches synced, and if applying succeeds, the loop reaches a state with nothing pending,
  by steps of the clock and its own only (no handler and no environment step), and the last ruleset
  handed to the applier, unless rules are not applied at all, is the one of the current trackers.\<close>

theorem loop_catches_up:
  assumes "NewProxier cfg = Inr p" and "reachable env (SyncLoop_start p w now) s"
    and "ls_phase s = Selecting" and "Ready (ls_proxier s)"
    and apply_ok: "\<And>spec w. \<exists>w'. Apply env (Some spec) w = (None, w')"
  shows "\<exists>t ro. reachable_by env {Clock, Loop} s t \<and> \<not> px_syncPending (ls_proxier t)
     \<and> px_gatewayTracker (ls_proxier t) = px_gatewayTracker (ls_proxier s)
     \<and> px_endpointTracker (ls_proxier t) = px_endpointTracker (ls_proxier s)
     \<and> valid_orders (ls_proxier t) ro \<and> ls_ruleset t = Some (desiredRulesetLocked ro (ls_proxier t))
     \<and> (opt_ApplyRules cfg \<longrightarrow>
          ls_applied t = (ls_now t, desiredRulesetLocked ro (ls_proxier t)) # ls_applied s)"
  using catch_up_steps [OF start_inv [OF assms(2,1)] assms(3,4) apply_ok] config_of_options(2) [OF assms(1,2)]
  by simp blast

section \<open>Sample runs\<close>

lemma recording_env_applies: "\<exists>w'. Apply recording_env (Some spec) w = (None, w')"
proof -
  have "fst (queueRuleset recording_env spec d w) = None" for d w
  proof (rule ccontr)
    assume "fst (queueRuleset recording_env spec d w) \<noteq> None"
    then obtain e where "fst (queueRuleset recording_env spec d w) = Some e" by auto
    from queueRuleset_Some [OF this] show False by (auto simp: recording_env_def)
  qed
  then obtain w1 where "queueRuleset recording_env spec True [] = (None, w1)" by (metis prod.collapse)
  moreover have "ctx_Err recording_env w = (None, w)" "connFactory_New recording_env w = (None, [])"
    "Flush recording_env w = (None, [])" for w
    by (simp_all add: recording_env_def)
  ultimately show ?thesis by (simp add: Apply_def applyOnce_def)
qed

text \<open>Both caches have synced, the two handlers have requested their syncs.\<close>

definition sample_loop :: "command list loop_state" where
  "sample_loop = (SyncLoop_start sample_proxier [] 0)\<lparr>
     ls_proxier := sample_proxier\<lparr>px_gatewaysSynced := True, px_endpointSlicesSynced := True,
       px_syncPending := True, px_resyncCh := True\<rparr>\<rparr>"

lemma sample_loop_reachable: "reachable recording_env (SyncLoop_start sample_proxier [] 0) sample_loop"
proof -
  let ?s0 = "SyncLoop_start sample_proxier [] 0 :: command list loop_state"
  let ?s1 = "?s0\<lparr>ls_proxier := track GatewaysSynced (ls_proxier ?s0), ls_tracked := Suc (ls_tracked ?s0)\<rparr>"
  let ?s2 = "?s1\<lparr>ls_proxier := track EndpointSlicesSynced (ls_proxier ?s1), ls_tracked := Suc (ls_tracked ?s1)\<rparr>"
  let ?s3 = "?s2\<lparr>ls_proxier := markPending (ls_proxier ?s2), ls_tracked := 1, ls_marked := Suc (ls_marked ?s2)\<rparr>"
  let ?s4 = "?s3\<lparr>ls_proxier := markPending (ls_proxier ?s3), ls_tracked := 0, ls_marked := Suc (ls_marked ?s3)\<rparr>"
  let ?s5 = "?s4\<lparr>ls_proxier := offerToken (ls_proxier ?s4), ls_marked := 1\<rparr>"
  let ?s6 = "?s5\<lparr>ls_proxier := offerToken (ls_proxier ?s5), ls_marked := 0\<rparr>"
  note start = SyncLoop_start_def
  have "reachable recording_env ?s0 ?s6"
    by (intro reachable_step [OF _ handler_offers] reachable_step [OF _ handler_marks]
        reachable_step [OF _ handler_tracks] reachable_refl) (simp_all add: start)
  moreover have "?s6 = sample_loop"
    by (simp add: sample_loop_def start sample_proxier_def markPending_def offerToken_def)
  ultimately show ?thesis by simp
qed

lemma sample_loop_state:
  "ls_phase sample_loop = Selecting" "Ready (ls_proxier sample_loop)" "px_syncPending (ls_proxier sample_loop)"
  "ls_tracked sample_loop = 0" "ls_applied sample_loop = []"
  by (simp_all add: sample_loop_def SyncLoop_start_def Ready_def)

lemma sample_options_apply: "opt_ApplyRules sample_options"
  by (simp add: sample_options_def)

lemma sample_synced:
  "\<exists>t. reachable recording_env (SyncLoop_start sample_proxier [] 0) t \<and> \<not> px_syncPending (ls_proxier t)
    \<and> ls_tracked t = 0 \<and> ls_syncs t \<noteq> []"
  using catch_up_steps [OF start_inv [OF sample_loop_reachable NewProxier_sample] sample_loop_state(1,2)
      recording_env_applies] reachable_trans [OF reachable_mono sample_loop_reachable] sample_loop_state(4)
  by (metis top_greatest)

theorem no_lost_update_witness:
  "\<exists>s ro. reachable recording_env (SyncLoop_start sample_proxier [] 0) s \<and> ls_syncs s \<noteq> []
    \<and> valid_orders (ls_proxier s) ro \<and> ls_ruleset s = Some (desiredRulesetLocked ro (ls_proxier s))
    \<and> snd (hd (ls_applied s)) = desiredRulesetLocked ro (ls_proxier s)"
  using sample_synced no_lost_update [OF NewProxier_sample] sample_options_apply by metis

theorem pending_sync_wakes_loop_witness:
  "reachable recording_env (SyncLoop_start sample_proxier [] 0) sample_loop
    \<and> (px_resyncCh (ls_proxier sample_loop) \<or> ls_tracked sample_loop + ls_marked sample_loop > 0
       \<or> ls_retry sample_loop \<noteq> None \<or> ls_failed sample_loop)"
  using sample_loop_reachable
    pending_sync_wakes_loop [OF NewProxier_sample sample_loop_reachable sample_loop_state(1,3,2)] by blast

theorem completed_syncs_spaced_witness:
  "\<exists>s. reachable recording_env (SyncLoop_start sample_proxier [] 0) s \<and> ls_syncs s \<noteq> []
    \<and> successively (\<lambda>later earlier. later - earlier \<ge> opt_MinSyncPeriod sample_options) (map fst (ls_applied s))"
  using sample_synced completed_syncs_spaced [OF NewProxier_sample] by metis

theorem loop_catches_up_witness:
  "\<exists>t ro. reachable_by recording_env {Clock, Loop} sample_loop t \<and> \<not> px_syncPending (ls_proxier t)
     \<and> valid_orders (ls_proxier t) ro
     \<and> ls_applied t = [(ls_now t, desiredRulesetLocked ro (ls_proxier t))]"
  using loop_catches_up [OF NewProxier_sample sample_loop_reachable sample_loop_state(1,2) recording_env_applies]
    sample_options_apply sample_loop_state(5) by auto

definition cancelled_env :: "command list nft_env" where
  "cancelled_env = recording_env\<lparr>ctx_Err := (\<lambda>w. (Some (ContextError ''context canceled''), w))\<rparr>"

theorem failed_sync_not_limited_witness:
  "proxier_sync (Apply cancelled_env) (sample_orders []) 5 5 (ls_proxier sample_loop) []
      = ((0, Some (ContextError ''context canceled'')), ls_proxier sample_loop, [])
    \<and> proxier_sync (Apply cancelled_env) (sample_orders []) 5 6 (ls_proxier sample_loop) []
      = ((0, Some (ContextError ''context canceled'')), ls_proxier sample_loop, [])"
proof -
  have "px_applyRules (ls_proxier sample_loop)" "px_lastSync (ls_proxier sample_loop) = None"
    "px_gatewaysSynced (ls_proxier sample_loop)" "px_endpointSlicesSynced (ls_proxier sample_loop)"
    by (simp_all add: sample_loop_def sample_proxier_def)
  moreover from this have "proxier_sync (Apply cancelled_env) (sample_orders []) 5 5 (ls_proxier sample_loop) []
      = ((0, Some (ContextError ''context canceled'')), ls_proxier sample_loop, [])"
    by (simp add: proxier_sync_def sync_gate_def Apply_def cancelled_env_def)
  ultimately show ?thesis
    using failed_sync_not_limited [of cancelled_env "sample_orders []" 5 5 "ls_proxier sample_loop" "[]" 0
        "ContextError ''context canceled''" "ls_proxier sample_loop" "[]" 5 6 "[]"]
    by (simp add: Apply_def cancelled_env_def)
qed

end
