(* ===== verification/PacketPath.thy ===== *)
theory PacketPath
  imports NftBatch Proxier
begin

text \<open>
  What the rules do to a packet. The batch of \<open>NftBatch\<close> is read as nftables documents its objects: a
  chain runs its rules in order, a rule its expressions from left to right until one does not match, a jump
  comes back when the chain it names runs out of rules, and an address translation ends the evaluation.
  A packet enters a chain only through the hook the chain was added with; hooks of IPv4 address
  translation are served by the base chains of type \<open>nat\<close> in IPv4 tables.
  The definitions here are the specification side, they translate no code of the repository; the number a
  \<open>numgen\<close> expression draws is the parameter \<open>draw\<close>.
\<close>

section \<open>Packets and rules\<close>

record packet =
  pk_network :: "byte list"
  pk_transport :: "byte list"
  pk_l4proto :: byte

type_synonym registers = "nat \<Rightarrow> byte list"

text \<open>An expression goes on, stops its rule, or ends in a verdict or a translation.\<close>

datatype expr_result =
    Proceed registers
  | Mismatch
  | Reached Verdict
  | Translate NATType TableFamily "byte list" "byte list"

fun header :: "PayloadBase \<Rightarrow> packet \<Rightarrow> byte list" where
  "header PayloadBaseNetworkHeader p = pk_network p"
| "header PayloadBaseTransportHeader p = pk_transport p"

fun eval_expr :: "'w nft_env \<Rightarrow> (string \<Rightarrow> byte list \<Rightarrow> Verdict option) \<Rightarrow> (uint32 \<Rightarrow> uint32) \<Rightarrow> packet \<Rightarrow> expr \<Rightarrow>
    registers \<Rightarrow> expr_result" where
  "eval_expr env maps draw p (Payload d base off n) r =
     (if off + n \<le> length (header base p) then Proceed (r(d := take n (drop off (header base p)))) else Mismatch)"
| "eval_expr env maps draw p (Cmp cmp s content) r =
     (if (take (length content) (r s) = content) = (cmp = CmpOpEq) then Proceed r else Mismatch)"
| "eval_expr env maps draw p (MetaExpr MetaKeyL4PROTO d) r = Proceed (r(d := [pk_l4proto p]))"
| "eval_expr env maps draw p (VerdictExpr v) r = Reached v"
| "eval_expr env maps draw p (Numgen d kind modulus off) r = Proceed (r(d := NativeEndian_PutUint32 env (draw modulus + off)))"
| "eval_expr env maps draw p (Lookup s d dset name i) r = (case maps name (r s) of None \<Rightarrow> Mismatch | Some v \<Rightarrow> Reached v)"
| "eval_expr env maps draw p (Immediate d content) r = Proceed (r(d := content))"
| "eval_expr env maps draw p (NAT kind family a q) r = Translate kind family (r a) (r q)"

fun eval_rule :: "'w nft_env \<Rightarrow> (string \<Rightarrow> byte list \<Rightarrow> Verdict option) \<Rightarrow> (uint32 \<Rightarrow> uint32) \<Rightarrow> packet \<Rightarrow> registers \<Rightarrow>
    expr list \<Rightarrow> expr_result" where
  "eval_rule env maps draw p r [] = Proceed r"
| "eval_rule env maps draw p r (e # es) =
     (case eval_expr env maps draw p e r of Proceed r' \<Rightarrow> eval_rule env maps draw p r' es | done \<Rightarrow> done)"

section \<open>Chains\<close>

datatype outcome =
    Untouched
  | NATed NATType TableFamily "byte list" "byte list"
  | Decided Verdict
  | Dropped
  | JumpStackFull

text \<open>The destination of an IPv4 packet rewritten to an address and a port.\<close>

abbreviation DNATed :: "byte list \<Rightarrow> byte list \<Rightarrow> outcome" where
  "DNATed \<equiv> NATed NATTypeDestNAT TableFamilyIPv4"

fun run_rules :: "(string \<Rightarrow> outcome) \<Rightarrow> (expr list \<Rightarrow> expr_result) \<Rightarrow> expr list list \<Rightarrow> outcome" where
  "run_rules call ev [] = Untouched"
| "run_rules call ev (r # rs) =
     (case ev r of
        Translate kind family a q \<Rightarrow> NATed kind family a q
      | Reached v \<Rightarrow>
          (case v_Kind v of
             VerdictJump \<Rightarrow> (case call (v_Chain v) of Untouched \<Rightarrow> run_rules call ev rs | res \<Rightarrow> res)
           | VerdictGoto \<Rightarrow> call (v_Chain v)
           | VerdictReturn \<Rightarrow> Untouched
           | _ \<Rightarrow> Decided v)
      | _ \<Rightarrow> run_rules call ev rs)"

text \<open>The rules of a chain and the elements of a map, each by its table and name.\<close>

definition rule_of :: "Table \<Rightarrow> string \<Rightarrow> command \<Rightarrow> expr list option" where
  "rule_of t n c =
     (case c of
        CAddRule r \<Rightarrow>
          (case rule_Chain r of
             None \<Rightarrow> None
           | Some ch \<Rightarrow> if rule_Table r = t \<and> ch_Table ch = t \<and> ch_Name ch = n then Some (rule_Exprs r) else None)
      | _ \<Rightarrow> None)"

abbreviation chain_rules :: "command list \<Rightarrow> Table \<Rightarrow> string \<Rightarrow> expr list list" where
  "chain_rules cmds t n \<equiv> List.map_filter (rule_of t n) cmds"

definition elements_of :: "Table \<Rightarrow> string \<Rightarrow> command \<Rightarrow> SetElement list" where
  "elements_of t n c = (case c of CAddSet s els \<Rightarrow> if set_Table s = t \<and> set_Name s = n then els else [] | _ \<Rightarrow> [])"

definition map_lookup :: "command list \<Rightarrow> Table \<Rightarrow> string \<Rightarrow> byte list \<Rightarrow> Verdict option" where
  "map_lookup cmds t n key =
     Option.bind (find (\<lambda>e. sel_Key e = key) (concat (map (elements_of t n) cmds))) sel_VerdictData"

text \<open>The kernel bounds the depth of jumps; the bound is the first argument.\<close>

fun run_chain :: "nat \<Rightarrow> 'w nft_env \<Rightarrow> command list \<Rightarrow> (uint32 \<Rightarrow> uint32) \<Rightarrow> packet \<Rightarrow> registers \<Rightarrow> Table \<Rightarrow> string \<Rightarrow>
    outcome" where
  "run_chain 0 env cmds draw p r t n = JumpStackFull"
| "run_chain (Suc d) env cmds draw p r t n =
     run_rules (run_chain d env cmds draw p r t) (eval_rule env (map_lookup cmds t) draw p r) (chain_rules cmds t n)"

text \<open>The chains a packet enters at a hook for IPv4 address translation. A base chain that leaves the
  packet alone applies its policy.\<close>

definition hooked :: "ChainHook \<Rightarrow> command \<Rightarrow> Chain option" where
  "hooked hook c =
     (case c of
        CAddChain ch \<Rightarrow>
          if ch_Hooknum ch = Some hook \<and> ch_Type ch = Some ChainTypeNAT \<and> tb_Family (ch_Table ch) = TableFamilyIPv4
          then Some ch else None
      | _ \<Rightarrow> None)"

abbreviation hooked_chains :: "command list \<Rightarrow> ChainHook \<Rightarrow> Chain list" where
  "hooked_chains cmds hook \<equiv> List.map_filter (hooked hook) cmds"

fun run_bases :: "(Chain \<Rightarrow> outcome) \<Rightarrow> Chain list \<Rightarrow> outcome" where
  "run_bases run [] = Untouched"
| "run_bases run (c # cs) =
     (case run c of
        Untouched \<Rightarrow> if ch_Policy c = Some ChainPolicyDrop then Dropped else run_bases run cs
      | res \<Rightarrow> res)"

definition run_hook :: "nat \<Rightarrow> 'w nft_env \<Rightarrow> command list \<Rightarrow> (uint32 \<Rightarrow> uint32) \<Rightarrow> packet \<Rightarrow> registers \<Rightarrow> ChainHook \<Rightarrow>
    outcome" where
  "run_hook d env cmds draw p r hook =
     run_bases (\<lambda>c. run_chain d env cmds draw p r (ch_Table c) (ch_Name c)) (hooked_chains cmds hook)"

section \<open>The rules of each chain\<close>

text \<open>Names are the hashes of the frontend keys; the objects are kept apart as long as these do not collide.\<close>

definition names_apart :: "rulesetSpec \<Rightarrow> bool" where
  "names_apart spec \<longleftrightarrow>
     (let ss = rs_serviceChains spec; bs = concat (map scs_backendChains ss); bases = {preroutingChainName, outputChainName} in
      distinct (map scs_chainName ss) \<and> distinct (map bes_chainName bs) \<and> distinct (map scs_dispatchMapName ss)
      \<and> scs_chainName ` set ss \<inter> bes_chainName ` set bs = {}
      \<and> (scs_chainName ` set ss \<union> bes_chainName ` set bs) \<inter> bases = {})"

lemma names_apartD:
  assumes "names_apart spec" and "s \<in> set (rs_serviceChains spec)"
  shows "scs_chainName s \<notin> {preroutingChainName, outputChainName}"
    and "b \<in> set (scs_backendChains s) \<Longrightarrow> bes_chainName b \<notin> {preroutingChainName, outputChainName}"
    and "s' \<in> set (rs_serviceChains spec) \<Longrightarrow> b \<in> set (scs_backendChains s') \<Longrightarrow> scs_chainName s \<noteq> bes_chainName b"
proof -
  let ?S = "scs_chainName ` set (rs_serviceChains spec)"
  let ?B = "bes_chainName ` set (concat (map scs_backendChains (rs_serviceChains spec)))"
  have apart: "?S \<inter> ?B = {}" "(?S \<union> ?B) \<inter> {preroutingChainName, outputChainName} = {}"
    using assms(1) by (simp_all add: names_apart_def Let_def)
  have "scs_chainName s \<in> ?S" using assms(2) by simp
  then show "scs_chainName s \<notin> {preroutingChainName, outputChainName}" using apart(2) by blast
  show "bes_chainName b \<notin> {preroutingChainName, outputChainName}" if "b \<in> set (scs_backendChains s)"
  proof -
    have "bes_chainName b \<in> ?B" using that assms(2) by auto
    then show ?thesis using apart(2) by blast
  qed
  show "scs_chainName s \<noteq> bes_chainName b" if "s' \<in> set (rs_serviceChains spec)" "b \<in> set (scs_backendChains s')"
  proof -
    have "bes_chainName b \<in> ?B" using that by auto
    then show ?thesis using apart(1) \<open>scs_chainName s \<in> ?S\<close> by (metis disjoint_iff)
  qed
qed

lemma map_filter_append: "List.map_filter f (xs @ ys) = List.map_filter f xs @ List.map_filter f ys"
  by (simp add: List.map_filter_def)

lemma map_filter_concat: "List.map_filter f (concat xss) = concat (map (List.map_filter f) xss)"
  by (induction xss) (simp_all add: map_filter_append List.map_filter_simps)

lemma map_filter_map: "List.map_filter f (map g xs) = List.map_filter (f \<circ> g) xs"
  by (simp add: List.map_filter_def comp_def filter_map)

lemma map_filter_none: "(\<And>x. x \<in> set xs \<Longrightarrow> f x = None) \<Longrightarrow> List.map_filter f xs = []"
  by (induction xs) (simp_all add: List.map_filter_simps)

lemma map_filter_some: "(\<And>x. x \<in> set xs \<Longrightarrow> f x = Some (g x)) \<Longrightarrow> List.map_filter f xs = map g xs"
  by (induction xs) (simp_all add: List.map_filter_simps)

lemma map_filter_unique:
  assumes "distinct (map key xs)" and "x \<in> set xs" and "\<And>y. y \<in> set xs \<Longrightarrow> f y = (if key y = key x then Some (g y) else None)"
  shows "List.map_filter f xs = [g x]"
  using assms
proof (induction xs)
  case (Cons y ys)
  show ?case
  proof (cases "y = x")
    case True
    with Cons.prems have "List.map_filter f ys = []" by (intro map_filter_none) (auto simp: image_iff)
    with True Cons.prems(3) [of y] show ?thesis by (simp add: List.map_filter_simps)
  next
    case False
    then have "x \<in> set ys" "key y \<noteq> key x" using Cons.prems(1,2) by (auto simp: image_iff)
    with Cons show ?thesis by (simp add: List.map_filter_simps)
  qed
qed simp

lemma rule_of_simps [simp]:
  "rule_of t n (CDelTable t') = None" "rule_of t n (CAddTable t') = None" "rule_of t n (CAddChain c) = None"
  "rule_of t n (CAddSet s els) = None"
  "rule_of t n (add_rule t c es) = (if ch_Table c = t \<and> ch_Name c = n then Some es else None)"
  by (simp_all add: rule_of_def add_rule_def)

lemma regularChain_name [simp]: "ch_Name (regularChain t n) = n" "ch_Table (regularChain t n) = t"
  by (simp_all add: regularChain_def)

lemma base_chain_fields [simp]:
  "ch_Name (base_chain t c) = bcs_name c" "ch_Table (base_chain t c) = t" "ch_Hooknum (base_chain t c) = Some (bcs_hook c)"
  "ch_Type (base_chain t c) = Some (bcs_chainType c)" "ch_Policy (base_chain t c) = Some (bcs_policy c)"
  "ch_Priority (base_chain t c) = Some (bcs_priority c)"
  by (simp_all add: base_chain_def)

text \<open>Only the rule commands matter to the rules of a chain.\<close>

lemma chain_rules_commands:
  "chain_rules (ruleset_commands env spec del ids) t n =
    chain_rules (service_rules env (spec_table spec) (zip (rs_serviceChains spec) ids) (map (base_chain (spec_table spec)) defaultBaseChains)) t n"
proof -
  have "chain_rules (map (\<lambda>x. CAddChain (f x)) cs) t n = []" for f and cs :: "baseChainSpec list" by (rule map_filter_none) auto
  moreover have "chain_rules (service_objects env t' x) t n = []" for t' x
    by (rule map_filter_none) (auto simp: service_objects_def split: prod.splits)
  ultimately show ?thesis
    by (simp add: ruleset_commands_def Let_def map_filter_append map_filter_concat List.map_filter_simps comp_def)
qed

text \<open>Only the base chains are entered from a hook.\<close>

lemma hooked_simps [simp]:
  "hooked hook (CDelTable t) = None" "hooked hook (CAddTable t) = None" "hooked hook (CAddSet s els) = None"
  "hooked hook (add_rule t ch es) = None" "hooked hook (CAddChain (regularChain t n)) = None"
  "hooked hook (CAddChain (base_chain t c)) =
    (if bcs_hook c = hook \<and> bcs_chainType c = ChainTypeNAT \<and> tb_Family t = TableFamilyIPv4 then Some (base_chain t c) else None)"
  by (simp_all add: hooked_def add_rule_def regularChain_def)

lemma hooked_chains_commands:
  assumes "rs_family spec = TableFamilyIPv4"
  shows "hooked_chains (ruleset_commands env spec del ids) hook =
    map (base_chain (spec_table spec)) (filter (\<lambda>c. bcs_hook c = hook) defaultBaseChains)"
proof -
  have "hooked_chains (service_objects env t x) h = []" for t x h
    by (rule map_filter_none) (auto simp: service_objects_def split: prod.splits)
  moreover have "hooked_chains (service_rules env t ss bases) h = []" for t ss bases h
    by (rule map_filter_none) (auto simp: service_rules_def split: prod.splits)
  moreover have "tb_Family (spec_table spec) = TableFamilyIPv4" using assms by (simp add: spec_table_def)
  ultimately show ?thesis
    by (simp add: ruleset_commands_def Let_def map_filter_append map_filter_concat List.map_filter_simps comp_def
        defaultBaseChains_def concat_eq_Nil_conv)
qed

lemma run_hook_commands:
  assumes "rs_family spec = TableFamilyIPv4"
  shows "run_hook d env (ruleset_commands env spec del ids) draw p r hook =
    (if hook = ChainHookPrerouting then run_chain d env (ruleset_commands env spec del ids) draw p r (spec_table spec) preroutingChainName
     else if hook = ChainHookOutput then run_chain d env (ruleset_commands env spec del ids) draw p r (spec_table spec) outputChainName
     else Untouched)"
  unfolding run_hook_def hooked_chains_commands [OF assms]
  by (auto simp: defaultBaseChains_def split: outcome.splits)

lemma service_rules_chain:
  assumes "\<And>base. base \<in> set bases \<Longrightarrow> ch_Table base = t"
  shows "chain_rules (service_rules env t ss bases) t n =
    concat (map (\<lambda>base. if ch_Name base = n then map (\<lambda>(s, i). serviceJumpExprs env s) ss else []) bases)
    @ List.map_filter (\<lambda>(s, i). if scs_chainName s = n then Some (serviceDispatchExprs s (service_set t (s, i))) else None) ss
    @ List.map_filter (\<lambda>b. if bes_chainName b = n then Some (backendDNATExprs env b) else None)
        (concat (map (\<lambda>(s, i). scs_backendChains s) ss))"
proof -
  have "chain_rules (map (\<lambda>(s, i). add_rule t base (serviceJumpExprs env s)) ss) t n =
      (if ch_Name base = n then map (\<lambda>(s, i). serviceJumpExprs env s) ss else [])" if "base \<in> set bases" for base
    using assms [OF that] by (induction ss) (auto simp: List.map_filter_simps)
  then have jumps: "map (\<lambda>base. chain_rules (map (\<lambda>(s, i). add_rule t base (serviceJumpExprs env s)) ss) t n) bases =
      map (\<lambda>base. if ch_Name base = n then map (\<lambda>(s, i). serviceJumpExprs env s) ss else []) bases"
    by (intro map_cong) auto
  have "chain_rules (map (\<lambda>(s, i). add_rule t (regularChain t (scs_chainName s)) (f s i)) ss) t n =
      List.map_filter (\<lambda>(s, i). if scs_chainName s = n then Some (f s i) else None) ss" for f
    by (induction ss) (auto simp: List.map_filter_simps)
  moreover have "chain_rules (map (\<lambda>b. add_rule t (regularChain t (bes_chainName b)) (f b)) bs) t n =
      List.map_filter (\<lambda>b. if bes_chainName b = n then Some (f b) else None) bs" for f and bs :: "backendChainSpec list"
    by (induction bs) (auto simp: List.map_filter_simps)
  ultimately show ?thesis
    unfolding service_rules_def map_filter_append map_filter_concat map_map comp_def jumps
    by (simp add: case_prod_beta)
qed

lemma table_rules:
  "chain_rules (service_rules env t ss (map (base_chain t) cs)) t n =
    concat (map (\<lambda>base. if ch_Name base = n then map (\<lambda>(s, i). serviceJumpExprs env s) ss else []) (map (base_chain t) cs))
    @ List.map_filter (\<lambda>(s, i). if scs_chainName s = n then Some (serviceDispatchExprs s (service_set t (s, i))) else None) ss
    @ List.map_filter (\<lambda>b. if bes_chainName b = n then Some (backendDNATExprs env b) else None)
        (concat (map (\<lambda>(s, i). scs_backendChains s) ss))"
  by (rule service_rules_chain) auto

lemma zip_services:
  assumes "length ids = length ss"
  shows "map (\<lambda>(s, i). f s) (zip ss ids) = map f ss"
proof -
  have "map (\<lambda>(s, i). f s) (zip ss ids) = map f (map fst (zip ss ids))" by (simp add: case_prod_beta)
  then show ?thesis using assms by (simp only: map_fst_zip)
qed

lemma base_rules:
  assumes "names_apart spec" and "length ids = length (rs_serviceChains spec)" and "n \<in> {preroutingChainName, outputChainName}"
  shows "chain_rules (ruleset_commands env spec del ids) (spec_table spec) n = map (serviceJumpExprs env) (rs_serviceChains spec)"
proof -
  have "List.map_filter (\<lambda>(s, i). if scs_chainName s = n then Some (serviceDispatchExprs s (service_set (spec_table spec) (s, i))) else None)
      (zip (rs_serviceChains spec) ids) = []"
    using names_apartD(1) [OF assms(1)] assms(3) by (intro map_filter_none) (auto dest!: set_zip_leftD)
  moreover have "List.map_filter (\<lambda>b. if bes_chainName b = n then Some (backendDNATExprs env b) else None)
      (concat (map scs_backendChains (rs_serviceChains spec))) = []"
    using names_apartD(2) [OF assms(1)] assms(3) by (intro map_filter_none) auto
  moreover have "concat (map (\<lambda>base. if ch_Name base = n then xs else []) (map (base_chain t) defaultBaseChains)) = xs" for t and xs :: "expr list list"
    using assms(3) by (auto simp: defaultBaseChains_def base_chain_def preroutingChainName_def outputChainName_def)
  ultimately show ?thesis by (simp add: chain_rules_commands table_rules zip_services [OF assms(2)])
qed

lemma base_names: "n \<notin> {preroutingChainName, outputChainName} \<Longrightarrow>
  concat (map (\<lambda>base. if ch_Name base = n then xs else []) (map (base_chain t) defaultBaseChains)) = []"
  by (auto simp: defaultBaseChains_def base_chain_def)

lemma dispatch_rules:
  assumes "names_apart spec" and "length ids = length (rs_serviceChains spec)" and "s \<in> set (rs_serviceChains spec)"
  shows "\<exists>i. chain_rules (ruleset_commands env spec del ids) (spec_table spec) (scs_chainName s) = [serviceDispatchExprs s (service_set (spec_table spec) (s, i))]"
proof -
  let ?n = "scs_chainName s" and ?ss = "zip (rs_serviceChains spec) ids"
  obtain i where i: "(s, i) \<in> set ?ss"
    using assms(2,3) by (metis in_set_impl_in_set_zip1)
  have "map (scs_chainName \<circ> fst) ?ss = map scs_chainName (rs_serviceChains spec)"
    using assms(2) by (metis list.map_comp map_fst_zip)
  then have "distinct (map (scs_chainName \<circ> fst) ?ss)" using assms(1) by (simp add: names_apart_def Let_def)
  then have "List.map_filter (\<lambda>(s, i). if scs_chainName s = ?n then Some (serviceDispatchExprs s (service_set (spec_table spec) (s, i))) else None) ?ss
      = [serviceDispatchExprs s (service_set (spec_table spec) (s, i))]"
    using map_filter_unique [OF _ i, where key = "scs_chainName \<circ> fst" and g = "\<lambda>(s, i). serviceDispatchExprs s (service_set (spec_table spec) (s, i))"]
    by (simp add: case_prod_beta)
  moreover have "List.map_filter (\<lambda>b. if bes_chainName b = ?n then Some (backendDNATExprs env b) else None)
      (concat (map scs_backendChains (rs_serviceChains spec))) = []"
    using names_apartD(3) [OF assms(1,3)] by (intro map_filter_none) (auto, metis)
  ultimately show ?thesis
    unfolding chain_rules_commands table_rules zip_services [OF assms(2)] base_names [OF names_apartD(1) [OF assms(1,3)]]
    by (intro exI [of _ i]) simp
qed

lemma backend_rules:
  assumes "names_apart spec" and "length ids = length (rs_serviceChains spec)" and "s \<in> set (rs_serviceChains spec)"
    and "b \<in> set (scs_backendChains s)"
  shows "chain_rules (ruleset_commands env spec del ids) (spec_table spec) (bes_chainName b) = [backendDNATExprs env b]"
proof -
  let ?n = "bes_chainName b" and ?bs = "concat (map scs_backendChains (rs_serviceChains spec))"
  have b: "b \<in> set ?bs" using assms(3,4) by auto
  have "List.map_filter (\<lambda>(s, i). if scs_chainName s = ?n then Some (serviceDispatchExprs s (service_set (spec_table spec) (s, i))) else None)
      (zip (rs_serviceChains spec) ids) = []"
    using names_apartD(3) [OF assms(1) _ assms(3,4)] by (intro map_filter_none) (auto dest!: set_zip_leftD)
  moreover have "List.map_filter (\<lambda>b'. if bes_chainName b' = ?n then Some (backendDNATExprs env b') else None) ?bs = [backendDNATExprs env b]"
    using assms(1) by (intro map_filter_unique [OF _ b, where key = bes_chainName]) (simp_all add: names_apart_def Let_def)
  ultimately show ?thesis
    unfolding chain_rules_commands table_rules zip_services [OF assms(2)] base_names [OF names_apartD(2) [OF assms(1,3,4)]]
    by simp
qed

text \<open>The dispatch map of a service holds its backends under their positions.\<close>

lemma find_enumerate:
  assumes "inj key" and "j < length xs" and "length xs \<le> 2 ^ 32" and "k + length xs \<le> 2 ^ 32"
  shows "find (\<lambda>e. sel_Key e = key (of_nat (k + j))) (map (\<lambda>(i, x). \<lparr>sel_Key = key (of_nat i :: uint32), sel_VerdictData = f x\<rparr>) (enumerate k xs))
    = Some \<lparr>sel_Key = key (of_nat (k + j)), sel_VerdictData = f (xs ! j)\<rparr>"
  using assms(2-)
proof (induction xs arbitrary: k j)
  case (Cons x xs)
  show ?case
  proof (cases j)
    case 0
    then show ?thesis by simp
  next
    case (Suc j')
    have u: "unat (of_nat m :: uint32) = m" if "m < 2 ^ 32" for m
      using that by (simp add: unat_of_nat take_bit_nat_eq_self)
    have "k + j < 2 ^ 32" "k < 2 ^ 32" "k + j \<noteq> k" using Cons.prems Suc by simp_all
    then have "(of_nat (k + j) :: uint32) \<noteq> of_nat k" using u by metis
    then have "key (of_nat k) \<noteq> key (of_nat (k + j))" using assms(1) by (metis injD)
    then show ?thesis using Cons.IH [of j' "Suc k"] Cons.prems Suc by simp
  qed
qed simp

lemma elements_of_simps [simp]:
  "elements_of t n (CDelTable t') = []" "elements_of t n (CAddTable t') = []" "elements_of t n (CAddChain c) = []"
  "elements_of t n (add_rule t' c es) = []" "elements_of t n (CAddSet s els) = (if set_Table s = t \<and> set_Name s = n then els else [])"
  by (simp_all add: elements_of_def add_rule_def)

lemma concat_map_concat: "concat (map f (concat (map g xs))) = concat (map (\<lambda>x. concat (map f (g x))) xs)"
  by (induction xs) simp_all

lemma ruleset_elements:
  assumes "names_apart spec" and "length ids = length (rs_serviceChains spec)" and "s \<in> set (rs_serviceChains spec)"
  shows "concat (map (elements_of (spec_table spec) (scs_dispatchMapName s)) (ruleset_commands env spec del ids)) = serviceDispatchMapElements env s"
proof -
  let ?n = "scs_dispatchMapName s" and ?t = "spec_table spec"
  have objects: "concat (map (elements_of ?t ?n) (service_objects env ?t x)) =
      (if scs_dispatchMapName (fst x) = ?n then serviceDispatchMapElements env (fst x) else [])" for x
    by (cases x) (simp add: service_objects_def service_set_def dispatchSet_def comp_def)
  have rules: "elements_of ?t ?n c = []" if "c \<in> set (service_rules env ?t ss bases)" for c ss bases
    using that by (auto simp: service_rules_def split: prod.splits)
  then have rules: "concat (map (elements_of ?t ?n) (service_rules env ?t ss bases)) = []" for ss bases
    by (simp add: concat_eq_Nil_conv)
  have unique: "concat (map (\<lambda>s'. if scs_dispatchMapName s' = ?n then g s' else []) ss) = g s"
    if "distinct (map scs_dispatchMapName ss)" "s \<in> set ss" for ss and g :: "serviceChainSpec \<Rightarrow> SetElement list"
    using that
  proof (induction ss)
    case (Cons x xs)
    show ?case
    proof (cases "x = s")
      case True
      then have "?n \<notin> scs_dispatchMapName ` set xs" using Cons.prems(1) by simp
      then have "map (\<lambda>s'. if scs_dispatchMapName s' = ?n then g s' else []) xs = map (\<lambda>_. []) xs" by (intro map_cong) (auto, metis image_eqI)
      then show ?thesis using True by (simp add: concat_eq_Nil_conv)
    next
      case False
      then have "s \<in> set xs" using Cons.prems(2) by simp
      moreover from this have "scs_dispatchMapName x \<noteq> ?n" using Cons.prems(1) by (metis distinct.simps(2) image_eqI list.set_map list.simps(9))
      ultimately show ?thesis using Cons.IH Cons.prems(1) by simp
    qed
  qed simp
  have "concat (map (elements_of ?t ?n) (concat (map (service_objects env ?t) (zip (rs_serviceChains spec) ids)))) =
      concat (map (\<lambda>(s', i). if scs_dispatchMapName s' = ?n then serviceDispatchMapElements env s' else []) (zip (rs_serviceChains spec) ids))"
    unfolding concat_map_concat objects by (intro arg_cong [where f = concat] map_cong) auto
  also have "\<dots> = serviceDispatchMapElements env s"
    unfolding zip_services [OF assms(2)] using assms(1,3) by (intro unique) (simp_all add: names_apart_def Let_def)
  finally show ?thesis by (simp add: ruleset_commands_def Let_def rules comp_def)
qed

section \<open>Where a packet goes\<close>

text \<open>The encoders of the netlink library, as documented: two bytes for a port, and different bytes for
  different indices.\<close>

definition encoders_api :: "'w nft_env \<Rightarrow> bool" where
  "encoders_api env \<longleftrightarrow> (\<forall>port. length (BigEndian_PutUint16 env port) = 2) \<and> inj (NativeEndian_PutUint32 env)"

text \<open>A packet is addressed to a service when it is TCP with the service's address and port.\<close>

definition packet_for :: "'w nft_env \<Rightarrow> packet \<Rightarrow> net_IP \<Rightarrow> uint16 \<Rightarrow> bool" where
  "packet_for env p vip port \<longleftrightarrow> 20 \<le> length (pk_network p) \<and> take 4 (drop 16 (pk_network p)) = vip
     \<and> pk_l4proto p = IPPROTO_TCP
     \<and> 4 \<le> length (pk_transport p) \<and> take 2 (drop 2 (pk_transport p)) = BigEndian_PutUint16 env port"

abbreviation addressed :: "'w nft_env \<Rightarrow> packet \<Rightarrow> serviceChainSpec \<Rightarrow> bool" where
  "addressed env p s \<equiv> packet_for env p (scs_clusterIP s) (scs_servicePort s)"

definition usable_service :: "serviceChainSpec \<Rightarrow> bool" where
  "usable_service s \<longleftrightarrow> length (scs_clusterIP s) = 4 \<and> scs_backendChains s \<noteq> [] \<and> length (scs_backendChains s) < 2 ^ 32"

lemma jump_rule:
  assumes "encoders_api env" and "length (scs_clusterIP s) = 4"
  shows "eval_rule env maps draw p r (serviceJumpExprs env s) =
    (if addressed env p s then Reached \<lparr>v_Kind = VerdictJump, v_Chain = scs_chainName s\<rparr> else Mismatch)"
  using assms by (simp add: serviceJumpExprs_def packet_for_def encoders_api_def)

lemma backend_chain:
  assumes "names_apart spec" and "length ids = length (rs_serviceChains spec)" and "s \<in> set (rs_serviceChains spec)"
    and "b \<in> set (scs_backendChains s)"
  shows "run_chain (Suc d) env (ruleset_commands env spec del ids) draw p r (spec_table spec) (bes_chainName b)
    = DNATed (bes_backendIP b) (BigEndian_PutUint16 env (bes_backendPort b))"
  by (simp add: backend_rules [OF assms] backendDNATExprs_def)

lemma service_chain:
  assumes "encoders_api env" and "names_apart spec" and "length ids = length (rs_serviceChains spec)"
    and "s \<in> set (rs_serviceChains spec)" and "usable_service s" and "\<forall>m>0. draw m < m"
  shows "\<exists>j < length (scs_backendChains s). j = unat (draw (of_nat (length (scs_backendChains s))))
    \<and> run_chain (Suc (Suc d)) env (ruleset_commands env spec del ids) draw p r (spec_table spec) (scs_chainName s)
      = DNATed (bes_backendIP (scs_backendChains s ! j)) (BigEndian_PutUint16 env (bes_backendPort (scs_backendChains s ! j)))"
proof -
  let ?n = "length (scs_backendChains s)" and ?cmds = "ruleset_commands env spec del ids"
  let ?j = "unat (draw (of_nat ?n))"
  have n: "0 < ?n" "?n < 2 ^ 32" using assms(5) by (simp_all add: usable_service_def)
  then have u: "unat (of_nat ?n :: uint32) = ?n" by (simp add: unat_of_nat take_bit_nat_eq_self)
  then have "(of_nat ?n :: uint32) > 0" using n by (metis unat_0 word_gt_0 neq0_conv)
  then have "draw (of_nat ?n) < of_nat ?n" using assms(6) by blast
  then have j: "?j < ?n" using u by (metis word_less_nat_alt)
  obtain i where rules: "chain_rules ?cmds (spec_table spec) (scs_chainName s) = [serviceDispatchExprs s (service_set (spec_table spec) (s, i))]"
    using dispatch_rules [OF assms(2-4)] by blast
  have "map_lookup ?cmds (spec_table spec) (scs_dispatchMapName s) (NativeEndian_PutUint32 env (of_nat ?j))
      = Some \<lparr>v_Kind = VerdictJump, v_Chain = bes_chainName (scs_backendChains s ! ?j)\<rparr>"
    unfolding map_lookup_def ruleset_elements [OF assms(2-4)] serviceDispatchMapElements_def
    using find_enumerate [of "NativeEndian_PutUint32 env" ?j "scs_backendChains s" 0
        "\<lambda>b. Some \<lparr>v_Kind = VerdictJump, v_Chain = bes_chainName b\<rparr>"] assms(1) j n
    by (simp add: encoders_api_def case_prod_beta)
  then have "eval_rule env (map_lookup ?cmds (spec_table spec)) draw p r (serviceDispatchExprs s (service_set (spec_table spec) (s, i)))
      = Reached \<lparr>v_Kind = VerdictJump, v_Chain = bes_chainName (scs_backendChains s ! ?j)\<rparr>"
    by (simp add: serviceDispatchExprs_def service_set_def dispatchSet_def)
  moreover have "scs_backendChains s ! ?j \<in> set (scs_backendChains s)" using j by simp
  note backend_chain [OF assms(2-4) this, of d env del draw p r]
  ultimately have "run_chain (Suc (Suc d)) env ?cmds draw p r (spec_table spec) (scs_chainName s)
      = DNATed (bes_backendIP (scs_backendChains s ! ?j)) (BigEndian_PutUint16 env (bes_backendPort (scs_backendChains s ! ?j)))"
    by (subst run_chain.simps(2)) (simp add: rules del: run_chain.simps)
  then show ?thesis using j by blast
qed

lemma run_jumps:
  assumes "encoders_api env" and "\<And>s. s \<in> set ss \<Longrightarrow> length (scs_clusterIP s) = 4"
    and "\<And>s. s \<in> set ss \<Longrightarrow> call (scs_chainName s) \<noteq> Untouched"
  shows "run_rules call (eval_rule env maps draw p r) (map (serviceJumpExprs env) ss) =
    (case find (addressed env p) ss of None \<Rightarrow> Untouched | Some s \<Rightarrow> call (scs_chainName s))"
  using assms(2,3) by (induction ss) (auto simp: jump_rule [OF assms(1)] split: outcome.splits)

text \<open>The batch of a ruleset translates a packet to the drawn backend of the first service it is addressed
  to, and leaves every other packet alone.\<close>

lemma ruleset_packets:
  assumes "conn_batches env batch" and "batch w = []" and "rs_baseChains spec = defaultBaseChains"
    and "rs_family spec = TableFamilyIPv4"
    and "encoders_api env" and "names_apart spec" and "\<forall>s\<in>set (rs_serviceChains spec). usable_service s"
    and "\<forall>m>0. draw m < m" and "3 \<le> depth"
  shows "\<exists>w'. queueRuleset env spec deleteTable w = (None, w')
    \<and> (\<forall>c\<in>set (hooked_chains (batch w') hook). ch_Priority c = Some ChainPriorityNATDest)
    \<and> (case if hook \<in> {ChainHookPrerouting, ChainHookOutput} then find (addressed env p) (rs_serviceChains spec) else None of
      None \<Rightarrow> run_hook depth env (batch w') draw p r hook = Untouched
    | Some s \<Rightarrow> \<exists>b. scs_backendChains s ! unat (draw (of_nat (length (scs_backendChains s)))) = b \<and> b \<in> set (scs_backendChains s)
        \<and> run_hook depth env (batch w') draw p r hook = DNATed (bes_backendIP b) (BigEndian_PutUint16 env (bes_backendPort b)))"
proof -
  have "distinct (map scs_chainName (rs_serviceChains spec))" using assms(6) by (simp add: names_apart_def Let_def)
  then obtain ids w' where q: "queueRuleset env spec deleteTable w = (None, w')" and ids: "length ids = length (rs_serviceChains spec)"
    and batch: "batch w' = ruleset_commands env spec deleteTable ids"
    using queueRuleset_batch [OF assms(1,3), of deleteTable w] assms(2) by auto
  obtain d where d: "depth = Suc (Suc (Suc d))" using that [of "depth - 3"] assms(9) by simp
  let ?call = "run_chain (Suc (Suc d)) env (batch w') draw p r (spec_table spec)"
  have prio: "\<forall>c\<in>set (hooked_chains (batch w') hook). ch_Priority c = Some ChainPriorityNATDest"
    unfolding batch hooked_chains_commands [OF assms(4)] by (auto simp: defaultBaseChains_def split: if_splits)
  have chain: "\<exists>j < length (scs_backendChains s). j = unat (draw (of_nat (length (scs_backendChains s))))
      \<and> ?call (scs_chainName s) = DNATed (bes_backendIP (scs_backendChains s ! j))
          (BigEndian_PutUint16 env (bes_backendPort (scs_backendChains s ! j)))" if "s \<in> set (rs_serviceChains spec)" for s
    unfolding batch using service_chain [OF assms(5,6) ids that _ assms(8)] assms(7) that by blast
  have base: "run_chain depth env (batch w') draw p r (spec_table spec) n =
      (case find (addressed env p) (rs_serviceChains spec) of None \<Rightarrow> Untouched | Some s \<Rightarrow> ?call (scs_chainName s))"
    if "n \<in> {preroutingChainName, outputChainName}" for n
    unfolding d run_chain.simps(2) [of "Suc (Suc d)"] base_rules [OF assms(6) ids that, of env deleteTable, folded batch]
    using chain assms(7) by (intro run_jumps [OF assms(5)]) (fastforce simp: usable_service_def)+
  have run: "run_hook depth env (batch w') draw p r hook =
      (case if hook \<in> {ChainHookPrerouting, ChainHookOutput} then find (addressed env p) (rs_serviceChains spec) else None of
         None \<Rightarrow> Untouched | Some s \<Rightarrow> ?call (scs_chainName s))"
    using run_hook_commands [OF assms(4), of depth env deleteTable ids draw p r hook, folded batch]
      base [of preroutingChainName] base [of outputChainName] by simp
  show ?thesis
  proof (cases "if hook \<in> {ChainHookPrerouting, ChainHookOutput} then find (addressed env p) (rs_serviceChains spec) else None")
    case (Some s)
    then have "s \<in> set (rs_serviceChains spec)" by (auto simp: find_Some_iff split: if_splits)
    from chain [OF this] run show ?thesis
      unfolding Some using q prio by (intro exI [of _ w']) auto
  qed (use q run prio in auto)
qed

section \<open>A sample packet\<close>

lemma native_bytes:
  fixes n :: uint32
  shows "unat n = unat (ucast n :: byte) + 256 * (unat (ucast (drop_bit 8 n) :: byte)
    + 256 * (unat (ucast (drop_bit 16 n) :: byte) + 256 * unat (ucast (drop_bit 24 n) :: byte)))"
proof -
  have lt: "unat n < 2 ^ 32" using unsigned_less [of n] by simp
  have "unat (drop_bit k n) = unat n div 2 ^ k" for k
    using lt by (simp only: unsigned_drop_bit_eq) (simp add: drop_bit_eq_div take_bit_nat_eq_self)
  then have b: "unat (ucast (drop_bit k n) :: byte) = unat n div 2 ^ k mod 256" for k
    by (simp add: unsigned_ucast_eq take_bit_eq_mod)
  have digits: "x = m0 + 256 * (m1 + 256 * (m2 + 256 * c))"
    if "a * 256 + m0 = x" "b * 256 + m1 = a" "c * 256 + m2 = b" for x a b c m0 m1 m2 :: nat using that by simp
  have "unat n div 65536 = unat n div 256 div 256" "unat n div 16777216 = unat n div 65536 div 256"
    by (simp_all flip: div_mult2_eq)
  then have "unat n = unat n mod 256 + 256 * (unat n div 256 mod 256 + 256 * (unat n div 65536 mod 256 + 256 * (unat n div 16777216)))"
    using div_mult_mod_eq [of "unat n div 256" 256] div_mult_mod_eq [of "unat n div 65536" 256]
    by (intro digits [OF div_mult_mod_eq [of "unat n" 256], where b = "unat n div 65536"]) metis+
  with lt show ?thesis using b [of 0] b [of 8] b [of 16] b [of 24] by simp
qed

lemma recording_encoders: "encoders_api recording_env"
proof -
  have "inj (NativeEndian_PutUint32 recording_env)"
  proof (rule injI)
    fix m n assume "NativeEndian_PutUint32 recording_env m = NativeEndian_PutUint32 recording_env n"
    then have "unat m = unat n" using native_bytes [of m] native_bytes [of n] by (simp add: recording_env_def)
    then show "m = n" by (simp add: word_unat_eq_iff)
  qed
  then show ?thesis by (simp add: encoders_api_def recording_env_def)
qed

section \<open>The ruleset of the agent\<close>

text \<open>The names in the agent's ruleset are apart as soon as no two of its service chains, which are named by
  truncated hashes, share a name.\<close>

definition named_service :: "serviceChainSpec \<Rightarrow> bool" where
  "named_service c \<longleftrightarrow> (\<exists>fk vip port backends. c = service_spec fk vip port backends)"

lemma named_service_chain:
  assumes "named_service c"
  shows "length (scs_chainName c) = 20" and "scs_dispatchMapName c = ''map_'' @ drop 4 (scs_chainName c)"
    and "take 4 (scs_chainName c) = ''svc_''"
  using assms by (auto simp: named_service_def service_spec_def Let_def length_chainNameFor dispatchMapNameFor_def)
    (simp add: chainNameFor_def hashedName_def)

lemma named_service_backends:
  assumes "named_service c"
  shows "distinct (map bes_chainName (scs_backendChains c))"
    and "b \<in> set (scs_backendChains c) \<Longrightarrow> take 20 (bes_chainName b) = scs_chainName c \<and> length (bes_chainName b) > 20"
proof -
  from assms obtain fk vip port backends where c: "c = service_spec fk vip port backends" by (auto simp: named_service_def)
  let ?name = "\<lambda>i. scs_chainName c @ ''_be'' @ Itoa (int i)"
  have names: "map bes_chainName (scs_backendChains c) = map ?name [0..<length backends]"
  proof -
    have "map bes_chainName (scs_backendChains c) = map (?name \<circ> fst) (enumerate 0 backends)"
      by (simp add: c service_spec_def Let_def backend_spec_def backendChainNameFor_def case_prod_beta)
    then show ?thesis by (simp only: map_map [symmetric] map_fst_enumerate add_0)
  qed
  show "distinct (map bes_chainName (scs_backendChains c))" unfolding names by (simp add: distinct_map inj_on_def)
  show "take 20 (bes_chainName b) = scs_chainName c \<and> length (bes_chainName b) > 20" if "b \<in> set (scs_backendChains c)"
  proof -
    have "bes_chainName b \<in> set (map bes_chainName (scs_backendChains c))" using that by simp
    then show ?thesis unfolding names using named_service_chain(1) [OF assms] by auto
  qed
qed

lemma distinct_backend_names:
  assumes "\<And>c. c \<in> set ss \<Longrightarrow> named_service c" and "distinct (map scs_chainName ss)"
  shows "distinct (map bes_chainName (concat (map scs_backendChains ss)))"
  using assms
proof (induction ss)
  case (Cons c ss)
  have "bes_chainName b \<noteq> bes_chainName b'"
    if "b \<in> set (scs_backendChains c)" "c' \<in> set ss" "b' \<in> set (scs_backendChains c')" for b c' b'
  proof -
    have "take 20 (bes_chainName b) = scs_chainName c" "take 20 (bes_chainName b') = scs_chainName c'"
      using named_service_backends(2) Cons.prems(1) that by simp_all
    moreover have "scs_chainName c \<noteq> scs_chainName c'" using Cons.prems(2) that(2) by auto
    ultimately show ?thesis by metis
  qed
  then have "bes_chainName ` set (scs_backendChains c) \<inter> bes_chainName ` (\<Union>c'\<in>set ss. set (scs_backendChains c')) = {}"
    by (auto simp: disjoint_iff)
  moreover have "distinct (map bes_chainName (scs_backendChains c))" using named_service_backends(1) Cons.prems(1) by simp
  ultimately show ?case using Cons by simp
qed simp

lemma named_services_apart:
  assumes "\<And>c. c \<in> set (rs_serviceChains spec) \<Longrightarrow> named_service c" and "distinct (map scs_chainName (rs_serviceChains spec))"
  shows "names_apart spec"
proof -
  let ?ss = "rs_serviceChains spec" and ?bs = "concat (map scs_backendChains (rs_serviceChains spec))"
  have "inj_on scs_dispatchMapName (set ?ss)"
  proof (rule inj_onI)
    fix c c' assume c: "c \<in> set ?ss" "c' \<in> set ?ss" "scs_dispatchMapName c = scs_dispatchMapName c'"
    then have "take 4 (scs_chainName c) @ drop 4 (scs_chainName c) = take 4 (scs_chainName c') @ drop 4 (scs_chainName c')"
      using named_service_chain(2,3) assms(1) by (metis append_eq_append_conv)
    then show "c = c'" using c(1,2) assms(2) by (simp add: distinct_map inj_on_def)
  qed
  then have "distinct (map scs_dispatchMapName ?ss)" using assms(2) by (simp add: distinct_map)
  moreover have len: "length n = 20" if "n \<in> scs_chainName ` set ?ss" for n
    using that named_service_chain(1) assms(1) by auto
  moreover have blen: "length n > 20" if "n \<in> bes_chainName ` set ?bs" for n
    using that named_service_backends(2) assms(1) by auto
  moreover have "(scs_chainName ` set ?ss \<union> bes_chainName ` set ?bs) \<inter> {preroutingChainName, outputChainName} = {}"
  proof (rule equals0I)
    fix n assume n: "n \<in> (scs_chainName ` set ?ss \<union> bes_chainName ` set ?bs) \<inter> {preroutingChainName, outputChainName}"
    then have "length n < 20" by (auto simp: preroutingChainName_def outputChainName_def)
    with n len [of n] blen [of n] show False by (elim IntE UnE) simp_all
  qed
  moreover have "scs_chainName ` set ?ss \<inter> bes_chainName ` set ?bs = {}"
  proof (rule equals0I)
    fix n assume "n \<in> scs_chainName ` set ?ss \<inter> bes_chainName ` set ?bs"
    with len [of n] blen [of n] show False by (elim IntE) simp
  qed
  ultimately show ?thesis
    using assms(2) distinct_backend_names [OF assms] by (simp add: names_apart_def Let_def)
qed

section \<open>What the agent does to traffic\<close>

text \<open>A listener the events so far make live: the latest object of its Gateway is supported and has an IPv4
  address, its port fits, and the latest slices give it usable endpoints, which are its backends.\<close>

definition live_listener :: "agent_event list \<Rightarrow> NamespacedName list \<Rightarrow> Gateway \<Rightarrow> Listener \<Rightarrow> net_IP \<Rightarrow> uint16 \<Rightarrow> (net_IP \<times> uint16) list \<Rightarrow> bool" where
  "live_listener es order g l vip port backends \<longleftrightarrow>
     last_gateway (gateway_events es) (NamespacedName (gw_Namespace g) (gw_Name g)) = Some g
     \<and> gatewaySupported g \<and> l \<in> set (gw_Listeners g)
     \<and> vip = To4 (ParseIP (ga_Value (hd (gw_Addresses g)))) \<and> vip \<noteq> []
     \<and> toUint16Port (sint (l_Port l)) = Some port
     \<and> backends = List.map_filter usable_endpoint (map_get [] (EndpointsChangeTracker_Snapshot order
           (fold slice_update (slice_events es) NewEndpointsChangeTracker))
         (FrontendKey (NamespacedName (gw_Namespace g) (gw_Name g)) (l_Name l)))
     \<and> backends \<noteq> []"

lemma live_services:
  assumes "NewProxier cfg = Inr p0" and "valid_orders (fold handle es p0) ro"
  shows "c \<in> set (rs_serviceChains (desiredRulesetLocked ro (fold handle es p0))) \<longleftrightarrow>
    (\<exists>g l vip port backends. live_listener es (ro_slices ro) g l vip port backends
       \<and> c = service_spec (FrontendKey (NamespacedName (gw_Namespace g) (gw_Name g)) (l_Name l)) vip port backends)"
  unfolding programmed_services_iff [OF assms] live_listener_def by blast

lemma service_spec_fields:
  "scs_clusterIP (service_spec fk vip port backends) = vip" "scs_servicePort (service_spec fk vip port backends) = port"
  "length (scs_backendChains (service_spec fk vip port backends)) = length backends"
  "b \<in> set (scs_backendChains (service_spec fk vip port backends)) \<Longrightarrow> (bes_backendIP b, bes_backendPort b) \<in> set backends"
  by (auto simp: service_spec_def Let_def backend_spec_def in_set_enumerate_eq) (metis nth_mem)

lemma live_usable:
  assumes "live_listener es order g l vip port backends" and "length backends < 2 ^ 32"
  shows "usable_service (service_spec fk vip port backends)"
proof -
  have "length vip = 4" "backends \<noteq> []" using assms(1) by (auto simp: live_listener_def length_To4)
  then show ?thesis using assms(2) service_spec_fields(3) [of fk vip port backends]
    by (auto simp: usable_service_def service_spec_fields(1) simp flip: length_greater_0_conv)
qed


section \<open>A sample packet\<close>

definition sample_packet :: packet where
  "sample_packet = \<lparr>pk_network = replicate 16 0 @ [10, 96, 0, 10], pk_transport = [200, 1, 0, 80], pk_l4proto = 6\<rparr>"


definition packet_events :: "agent_event list" where
  "packet_events = [GatewayAdded sample_gateway, EndpointSliceAdded sample_slice]"

lemma packet_run:
  "gateway_events packet_events = [(None, Some sample_gateway)]" "slice_events packet_events = [(Some sample_slice, False)]"
  "px_gatewayTracker (fold handle packet_events sample_proxier) = fold gateway_update [(None, Some sample_gateway)] NewGatewayChangeTracker"
  "px_endpointTracker (fold handle packet_events sample_proxier) = fold slice_update [(Some sample_slice, False)] NewEndpointsChangeTracker"
proof -
  show ev: "gateway_events packet_events = [(None, Some sample_gateway)]" "slice_events packet_events = [(Some sample_slice, False)]"
    by (simp_all add: packet_events_def gateway_events_def slice_events_def List.map_filter_simps)
  show "px_gatewayTracker (fold handle packet_events sample_proxier) = fold gateway_update [(None, Some sample_gateway)] NewGatewayChangeTracker"
    "px_endpointTracker (fold handle packet_events sample_proxier) = fold slice_update [(Some sample_slice, False)] NewEndpointsChangeTracker"
    unfolding run_trackers ev by (simp_all add: sample_proxier_def)
qed

lemma packet_orders: "valid_orders (fold handle packet_events sample_proxier) (sample_orders [FrontendKey sample_nn ''tcp''])"
proof -
  have "gatewayToFrontendMap (Some sample_gateway) = [frontend_entry sample_gateway (v4InV6Prefix @ [10, 96, 0, 10]) sample_listener]"
    by (simp add: gatewayToFrontendMap_eq sample_gateway_supported) (simp add: sample_defs sample_ips)
  moreover have "fst (frontend_entry sample_gateway vip sample_listener) = FrontendKey sample_nn ''tcp''" for vip
    by (simp add: frontend_entry_def sample_defs)
  ultimately have "dom (GatewayChangeTracker_Snapshot [sample_nn] (fold gateway_update [(None, Some sample_gateway)] NewGatewayChangeTracker))
      = {FrontendKey sample_nn ''tcp''}"
    unfolding GatewayChangeTracker_Snapshot_def sample_gateway_content by (simp add: case_prod_beta)
  then show ?thesis
    unfolding valid_orders_def packet_run
    by (simp add: sample_orders_def sample_gateway_content sample_slice_content range_order_def del: fold.simps)
qed

lemma packet_live:
  "live_listener packet_events [sample_slice_nn] g l vip port backends \<longleftrightarrow>
    g = sample_gateway \<and> l = sample_listener \<and> vip = [10, 96, 0, 10] \<and> port = 80 \<and> backends = [([10, 0, 0, 2], 8080), ([10, 0, 0, 3], 8080)]"
proof -
  have gw: "last_gateway [(None, Some sample_gateway)] n = (if n = sample_nn then Some sample_gateway else None)" for n
    by (simp add: last_gateway_def gateway_target_def) (simp add: sample_defs)
  have "List.map_filter usable_endpoint [NewEndpoint ''10.0.0.2'' 8080, NewEndpoint ''10.0.0.3'' 8080] = [([10, 0, 0, 2], 8080), ([10, 0, 0, 3], 8080)]"
    by (simp add: List.map_filter_simps usable_endpoint_def NewEndpoint_def sample_ips toUint16Port_def)
  note backends = this [folded sample_endpoints]
  have fields: "gw_Namespace sample_gateway = ''default''" "gw_Name sample_gateway = ''demo''" "gw_Listeners sample_gateway = [sample_listener]"
    "l_Name sample_listener = ''tcp''" "To4 (ParseIP (ga_Value (hd (gw_Addresses sample_gateway)))) = [10, 96, 0, 10]"
    "toUint16Port (sint (l_Port sample_listener)) = Some 80"
    by (simp_all add: sample_defs sample_ips toUint16Port_def)
  show ?thesis
    unfolding live_listener_def packet_run gw
    using sample_gateway_supported backends by (auto simp: fields split: if_splits)
qed


end
