(* ===== verification/ControllerTypes.thy ===== *)
theory ControllerTypes
  imports KubeTypes
begin

text \<open>
  What the controller works with: the objects of its informer caches (\<open>obj\<close>, the dynamic type of an
  \<open>interface{}\<close> value), the evaluation records of \<open>internal/controller/reconcile_types.go\<close>, and
  \<open>'w cluster\<close>, everything the \<open>Controller\<close> struct reaches that is not code of the repository. The
  informer caches are read-only functions of one reconcile; the API clients act on an arbitrary world
  \<open>'w\<close>, each call with its own outcome; \<open>SetStatusCondition\<close>, \<open>FindStatusCondition\<close>, the label
  selector compiler and the unstructured converter of the Kubernetes libraries are functions about which
  only what is stated where they are used is assumed. The clock reading of a reconcile is one value.
\<close>

section \<open>Cached objects\<close>

record Unstructured =
  us_Namespace :: string
  us_Name :: string
  us_Object :: string

datatype obj =
    OGatewayClass GatewayClass
  | OGateway Gateway
  | OTCPRoute TCPRoute
  | OPod Pod
  | OUnstructured Unstructured
  | OEndpointSlice EndpointSlice
  | OIPAddress IPAddress
  | DeletedFinalStateUnknown obj
  | OtherObject string

section \<open>Evaluations\<close>

record gatewayEvaluation =
  ge_acceptedStatus :: string
  ge_acceptedReason :: string
  ge_acceptedMessage :: string
  ge_programmedReason :: string
  ge_programmedMessage :: string
  ge_listeners :: "ListenerStatus list"
  ge_valid :: bool
  ge_selectedVIP :: string
  ge_needsVIP :: bool

record routeEvaluation =
  re_acceptedStatus :: string
  re_acceptedReason :: string
  re_acceptedMessage :: string
  re_resolvedStatus :: string
  re_resolvedReason :: string
  re_resolvedMessage :: string

record gatewayListenersValidation =
  glv_valid :: bool
  glv_message :: string
  glv_listeners :: "Listener list"
  glv_statuses :: "ListenerStatus list"

section \<open>Caches, clients and library functions\<close>

type_synonym 'w call = "'w \<Rightarrow> goerror option \<times> 'w"

record 'w cluster =
  gatewayClasses_Get :: "string \<Rightarrow> goerror + GatewayClass"
  gateways_Get :: "string \<Rightarrow> string \<Rightarrow> goerror + Gateway"
  routes_Get :: "string \<Rightarrow> string \<Rightarrow> goerror + TCPRoute"
  gateways_ByIndex :: "string \<Rightarrow> string \<Rightarrow> goerror + obj list"
  routes_ByIndex :: "string \<Rightarrow> string \<Rightarrow> goerror + obj list"
  endpointSelectors_ByIndex :: "string \<Rightarrow> string \<Rightarrow> goerror + obj list"
  endpointSlices_ByIndex :: "string \<Rightarrow> string \<Rightarrow> goerror + obj list"
  ipAddresses_ByIndex :: "string \<Rightarrow> string \<Rightarrow> goerror + obj list"
  endpointSelectors_GetByKey :: "string \<Rightarrow> goerror + Unstructured option"
  ipAddresses_List :: "goerror + IPAddress option list"
  serviceCIDRs_List :: "goerror + ServiceCIDR option list"
  pods_List :: "string \<Rightarrow> goerror + Pod list"
  GatewayClasses_UpdateStatus :: "GatewayClass \<Rightarrow> 'w call"
  Gateways_Get :: "string \<Rightarrow> string \<Rightarrow> 'w \<Rightarrow> (goerror + Gateway) \<times> 'w"
  Gateways_Update :: "Gateway \<Rightarrow> 'w call"
  Gateways_UpdateStatus :: "Gateway \<Rightarrow> 'w call"
  TCPRoutes_UpdateStatus :: "TCPRoute \<Rightarrow> 'w call"
  XEndpointSelectors_UpdateStatus :: "string \<Rightarrow> Unstructured \<Rightarrow> 'w call"
  IPAddresses_Create :: "IPAddress \<Rightarrow> 'w call"
  IPAddresses_Delete :: "string \<Rightarrow> 'w call"
  EndpointSlices_Create :: "EndpointSlice \<Rightarrow> 'w call"
  EndpointSlices_Update :: "EndpointSlice \<Rightarrow> 'w call"
  EndpointSlices_Delete :: "string \<Rightarrow> string \<Rightarrow> 'w call"
  SetStatusCondition :: "Condition list \<Rightarrow> Condition \<Rightarrow> Condition list"
  FindStatusCondition :: "Condition list \<Rightarrow> string \<Rightarrow> Condition option"
  LabelSelectorAsSelector :: "LabelSelector \<Rightarrow> goerror + ((string \<rightharpoonup> string) \<Rightarrow> bool)"
  FromUnstructured :: "Unstructured \<Rightarrow> goerror + XEndpointSelector"
  ToUnstructured :: "XEndpointSelector \<Rightarrow> goerror + Unstructured"
  Now :: int

text \<open>The index names of \<open>internal/controller/controller.go\<close>.\<close>

definition gatewayByClassIndex :: string where
  "gatewayByClassIndex = ''gatewayByClass''"

definition routeByGatewayIndex :: string where
  "routeByGatewayIndex = ''routeByGateway''"

definition routeByBackendEndpointSelectorIndex :: string where
  "routeByBackendEndpointSelectorIndex = ''routeByBackendEndpointSelector''"

definition ipAddressByGatewayIndex :: string where
  "ipAddressByGatewayIndex = ''ipAddressByGateway''"

definition endpointSliceByEndpointSelectorIndex :: string where
  "endpointSliceByEndpointSelectorIndex = ''endpointSliceByEndpointSelector''"

text \<open>A pointer to a string read with a default: the shape \<open>if p != nil && *p != "" { v = *p }\<close>.\<close>

definition string_or :: "string \<Rightarrow> string option \<Rightarrow> string" where
  "string_or d p = (case p of None \<Rightarrow> d | Some s \<Rightarrow> if s = [] then d else s)"

text \<open>Running a call for every element of a list until the first error; an error the predicate
  tolerates does not count.\<close>

fun for_each :: "(goerror \<Rightarrow> bool) \<Rightarrow> ('a \<Rightarrow> 'w call) \<Rightarrow> 'a list \<Rightarrow> 'w call" where
  "for_each tolerated f [] w = (None, w)"
| "for_each tolerated f (x # xs) w =
     (case f x w of
        (Some err, w') \<Rightarrow> if tolerated err then for_each tolerated f xs w' else (Some err, w')
      | (None, w') \<Rightarrow> for_each tolerated f xs w')"

lemma for_each_invariant:
  assumes "for_each tolerated f xs w = (r, w')" and "P w"
    and "\<And>x v. x \<in> set xs \<Longrightarrow> P v \<Longrightarrow> P (snd (f x v))"
  shows "P w'"
  using assms
proof (induction xs arbitrary: w)
  case Nil
  then show ?case by simp
next
  case (Cons x xs)
  obtain e v where f: "f x w = (e, v)" by fastforce
  have "P v" using Cons.prems(2) Cons.prems(3) [of x w] f by simp
  with f Cons show ?case by (auto split: option.splits if_splits)
qed

end
