(* ===== verification/Status.thy ===== *)
theory Status
  imports ControllerTypes Samples
begin

text \<open>
  \<open>internal/controller/status.go\<close>: building, merging and comparing the status of Gateways, routes and
  selectors. \<open>condition_api\<close> states the documented behaviour of \<open>apimeta.SetStatusCondition\<close>
  the controller relies on. \<open>sort.Slice\<close> is modelled by the stable sort; conditions
  and route parents have distinct sort keys wherever the result matters.
\<close>

section \<open>Conditions\<close>

definition condition ::
    "'w cluster \<Rightarrow> string \<Rightarrow> string \<Rightarrow> string \<Rightarrow> string \<Rightarrow> int \<Rightarrow> Condition" where
  "condition c conditionType status reason message observedGeneration =
     \<lparr>c_Type = conditionType, c_Status = status, c_Reason = reason, c_Message = message,
      c_ObservedGeneration = observedGeneration, c_LastTransitionTime = Now c\<rparr>"

definition boolToConditionStatus :: "bool \<Rightarrow> string" where
  "boolToConditionStatus value = (if value then ConditionTrue else ConditionFalse)"

definition conditionReason :: "bool \<Rightarrow> string \<Rightarrow> string \<Rightarrow> string" where
  "conditionReason cond trueReason falseReason = (if cond then trueReason else falseReason)"

definition mergeConditions :: "'w cluster \<Rightarrow> Condition list \<Rightarrow> Condition list \<Rightarrow> Condition list" where
  "mergeConditions c existing desired =
     go_sort c_Type (fold (\<lambda>d out. SetStatusCondition c out d) desired existing)"

definition removeConditions :: "Condition list \<Rightarrow> string list \<Rightarrow> Condition list" where
  "removeConditions existing conditionTypes =
     (if existing = [] then []
      else fold (\<lambda>cond out. if c_Type cond \<in> set conditionTypes then out else out @ [cond]) existing [])"

fun conditionsEqual :: "Condition list \<Rightarrow> Condition list \<Rightarrow> bool" where
  "conditionsEqual [] [] = True"
| "conditionsEqual (a # as) (b # bs) =
     (if c_Type a \<noteq> c_Type b \<or> c_Status a \<noteq> c_Status b \<or> c_Reason a \<noteq> c_Reason b
         \<or> c_Message a \<noteq> c_Message b \<or> c_ObservedGeneration a \<noteq> c_ObservedGeneration b then False
      else conditionsEqual as bs)"
| "conditionsEqual _ _ = False"

section \<open>Gateway status\<close>

fun gatewayAddressesEqual :: "GatewayAddress list \<Rightarrow> GatewayAddress list \<Rightarrow> bool" where
  "gatewayAddressesEqual [] [] = True"
| "gatewayAddressesEqual (a # as) (b # bs) =
     (if ga_Value a \<noteq> ga_Value b then False
      else
        let typeA = (case ga_Type a of None \<Rightarrow> [] | Some t \<Rightarrow> t);
            typeB = (case ga_Type b of None \<Rightarrow> [] | Some t \<Rightarrow> t)
        in if typeA \<noteq> typeB then False else gatewayAddressesEqual as bs)"
| "gatewayAddressesEqual _ _ = False"

fun supportedKindsEqual :: "RouteGroupKind list \<Rightarrow> RouteGroupKind list \<Rightarrow> bool" where
  "supportedKindsEqual [] [] = True"
| "supportedKindsEqual (a # as) (b # bs) = (if rgk_Kind a \<noteq> rgk_Kind b then False else supportedKindsEqual as bs)"
| "supportedKindsEqual _ _ = False"

fun listenerStatusesEqual :: "ListenerStatus list \<Rightarrow> ListenerStatus list \<Rightarrow> bool" where
  "listenerStatusesEqual [] [] = True"
| "listenerStatusesEqual (a # as) (b # bs) =
     (if lst_Name a \<noteq> lst_Name b \<or> lst_AttachedRoutes a \<noteq> lst_AttachedRoutes b then False
      else if \<not> supportedKindsEqual (lst_SupportedKinds a) (lst_SupportedKinds b) then False
      else if \<not> conditionsEqual (lst_Conditions a) (lst_Conditions b) then False
      else listenerStatusesEqual as bs)"
| "listenerStatusesEqual _ _ = False"

definition gatewayStatusEqual :: "Gateway \<Rightarrow> Gateway \<Rightarrow> bool" where
  "gatewayStatusEqual oldObj newObj \<longleftrightarrow>
     conditionsEqual (gw_Conditions oldObj) (gw_Conditions newObj)
     \<and> gatewayAddressesEqual (gw_Addresses oldObj) (gw_Addresses newObj)
     \<and> listenerStatusesEqual (gw_ListenerStatuses oldObj) (gw_ListenerStatuses newObj)"

definition gatewayClassStatusEqual :: "GatewayClass \<Rightarrow> GatewayClass \<Rightarrow> bool" where
  "gatewayClassStatusEqual oldObj newObj = conditionsEqual (gc_Conditions oldObj) (gc_Conditions newObj)"

text \<open>The object \<open>updateGatewayStatus\<close> builds, then the guarded write.\<close>

definition gatewayWithStatus :: "'w cluster \<Rightarrow> Gateway \<Rightarrow> gatewayEvaluation \<Rightarrow> Gateway" where
  "gatewayWithStatus c gateway evaluation = gateway\<lparr>
     gw_Addresses := (if ge_selectedVIP evaluation \<noteq> []
        then [\<lparr>ga_Type = Some ''IPAddress'', ga_Value = ge_selectedVIP evaluation\<rparr>] else []),
     gw_Conditions := mergeConditions c (gw_Conditions gateway)
        [condition c ''Accepted'' (ge_acceptedStatus evaluation) (ge_acceptedReason evaluation)
           (ge_acceptedMessage evaluation) (gw_Generation gateway),
         condition c ''Programmed'' ConditionFalse (ge_programmedReason evaluation)
           (ge_programmedMessage evaluation) (gw_Generation gateway)],
     gw_ListenerStatuses := (if length (ge_listeners evaluation) > 0 then ge_listeners evaluation else [])\<rparr>"

definition updateGatewayStatus :: "'w cluster \<Rightarrow> Gateway \<Rightarrow> gatewayEvaluation \<Rightarrow> 'w call" where
  "updateGatewayStatus c gateway evaluation w =
     (let updated = gatewayWithStatus c gateway evaluation in
      if gatewayStatusEqual gateway updated then (None, w) else Gateways_UpdateStatus c updated w)"

section \<open>Route status\<close>

definition routeParentSortKey :: "RouteParentStatus \<Rightarrow> string" where
  "routeParentSortKey parent =
     (let pr = rps_ParentRef parent; str = (\<lambda>p. case p of None \<Rightarrow> [] | Some s \<Rightarrow> s) in
      rps_ControllerName parent @ ''/'' @ str (pr_Group pr) @ ''/'' @ str (pr_Kind pr) @ ''/''
      @ str (pr_Namespace pr) @ ''/'' @ pr_Name pr @ ''/'' @ str (pr_SectionName pr) @ ''/''
      @ (case pr_Port pr of None \<Rightarrow> [] | Some p \<Rightarrow> Itoa (sint p)))"

definition mergeRouteParents :: "RouteParentStatus list \<Rightarrow> RouteParentStatus list \<Rightarrow> RouteParentStatus list" where
  "mergeRouteParents existing desired =
     go_sort routeParentSortKey
       (fold (\<lambda>parent out. if rps_ControllerName parent = controllerName then out else out @ [parent]) existing []
        @ desired)"

fun routeParentsEqual :: "RouteParentStatus list \<Rightarrow> RouteParentStatus list \<Rightarrow> bool" where
  "routeParentsEqual [] [] = True"
| "routeParentsEqual (a # as) (b # bs) =
     (if routeParentSortKey a \<noteq> routeParentSortKey b then False
      else if \<not> conditionsEqual (rps_Conditions a) (rps_Conditions b) then False
      else routeParentsEqual as bs)"
| "routeParentsEqual _ _ = False"

definition routeStatusEqual :: "TCPRoute \<Rightarrow> TCPRoute \<Rightarrow> bool" where
  "routeStatusEqual oldObj newObj = routeParentsEqual (tr_Parents oldObj) (tr_Parents newObj)"

section \<open>Comparisons as equalities of what they look at\<close>

text \<open>A condition without its transition time.\<close>

definition condition_view :: "Condition \<Rightarrow> Condition" where
  "condition_view cond = cond\<lparr>c_LastTransitionTime := 0\<rparr>"

lemma condition_view_eq:
  "condition_view a = condition_view b \<longleftrightarrow> c_Type a = c_Type b \<and> c_Status a = c_Status b
     \<and> c_Reason a = c_Reason b \<and> c_Message a = c_Message b \<and> c_ObservedGeneration a = c_ObservedGeneration b"
  by (cases a; cases b) (simp add: condition_view_def)

lemma conditionsEqual_iff: "conditionsEqual as bs \<longleftrightarrow> map condition_view as = map condition_view bs"
  by (induction as bs rule: conditionsEqual.induct) (auto simp: condition_view_eq)

definition address_view :: "GatewayAddress \<Rightarrow> string \<times> string" where
  "address_view a = ((case ga_Type a of None \<Rightarrow> [] | Some t \<Rightarrow> t), ga_Value a)"

lemma gatewayAddressesEqual_iff: "gatewayAddressesEqual as bs \<longleftrightarrow> map address_view as = map address_view bs"
  by (induction as bs rule: gatewayAddressesEqual.induct) (auto simp: address_view_def Let_def)

lemma supportedKindsEqual_iff: "supportedKindsEqual as bs \<longleftrightarrow> map rgk_Kind as = map rgk_Kind bs"
  by (induction as bs rule: supportedKindsEqual.induct) auto

definition listener_view :: "ListenerStatus \<Rightarrow> string \<times> string list \<times> int32 \<times> Condition list" where
  "listener_view l = (lst_Name l, map rgk_Kind (lst_SupportedKinds l), lst_AttachedRoutes l,
     map condition_view (lst_Conditions l))"

lemma listenerStatusesEqual_iff: "listenerStatusesEqual as bs \<longleftrightarrow> map listener_view as = map listener_view bs"
  by (induction as bs rule: listenerStatusesEqual.induct)
    (auto simp: listener_view_def supportedKindsEqual_iff conditionsEqual_iff)

definition gateway_status_view where
  "gateway_status_view g =
     (map condition_view (gw_Conditions g), map address_view (gw_Addresses g), map listener_view (gw_ListenerStatuses g))"

lemma gatewayStatusEqual_iff: "gatewayStatusEqual a b \<longleftrightarrow> gateway_status_view a = gateway_status_view b"
  by (simp add: gatewayStatusEqual_def gateway_status_view_def conditionsEqual_iff gatewayAddressesEqual_iff
      listenerStatusesEqual_iff)

definition parent_view :: "RouteParentStatus \<Rightarrow> string \<times> Condition list" where
  "parent_view p = (routeParentSortKey p, map condition_view (rps_Conditions p))"

lemma routeParentsEqual_iff: "routeParentsEqual as bs \<longleftrightarrow> map parent_view as = map parent_view bs"
  by (induction as bs rule: routeParentsEqual.induct) (auto simp: parent_view_def conditionsEqual_iff)

lemma removeConditions_eq: "removeConditions existing ts = filter (\<lambda>cond. c_Type cond \<notin> set ts) existing"
proof -
  have "fold (\<lambda>cond out. if c_Type cond \<in> set ts then out else out @ [cond]) existing acc
      = acc @ filter (\<lambda>cond. c_Type cond \<notin> set ts) existing" for acc
    by (induction existing arbitrary: acc) auto
  then show ?thesis by (simp add: removeConditions_def)
qed

section \<open>Setting conditions\<close>

text \<open>\<open>apimeta.SetStatusCondition\<close>: an existing condition of the type takes every field of the new one
  (its transition time is the library's choice), otherwise the new one is appended.\<close>

definition condition_api :: "'w cluster \<Rightarrow> bool" where
  "condition_api c \<longleftrightarrow>
     (\<forall>conds d. distinct (map c_Type conds) \<longrightarrow>
        map condition_view (SetStatusCondition c conds d) =
          (if c_Type d \<in> c_Type ` set conds
           then map (\<lambda>x. if c_Type x = c_Type d then condition_view d else condition_view x) conds
           else map condition_view conds @ [condition_view d]))"

text \<open>The same on views.\<close>

definition set_view :: "Condition list \<Rightarrow> Condition \<Rightarrow> Condition list" where
  "set_view vs d =
     (if c_Type d \<in> c_Type ` set vs then map (\<lambda>x. if c_Type x = c_Type d then d else x) vs else vs @ [d])"

lemma c_Type_view [simp]: "c_Type (condition_view x) = c_Type x"
  by (simp add: condition_view_def)

lemma condition_view_idem [simp]: "condition_view (condition_view x) = condition_view x"
  by (simp add: condition_view_def)

lemma map_type_view: "map c_Type (map condition_view xs) = map c_Type xs"
  by simp

lemma set_view_types:
  "distinct (map c_Type vs) \<Longrightarrow> distinct (map c_Type (set_view vs d))"
  "c_Type ` set (set_view vs d) = insert (c_Type d) (c_Type ` set vs)"
proof -
  have eq: "map (c_Type \<circ> (\<lambda>x. if c_Type x = c_Type d then d else x)) vs = map c_Type vs" by simp
  show "distinct (map c_Type vs) \<Longrightarrow> distinct (map c_Type (set_view vs d))"
    unfolding set_view_def by (auto simp: eq simp del: map_eq_conv)
  show "c_Type ` set (set_view vs d) = insert (c_Type d) (c_Type ` set vs)"
    unfolding set_view_def by (auto simp: image_image)
qed

lemma set_set_view: "set (set_view vs d) = insert d {x \<in> set vs. c_Type x \<noteq> c_Type d}"
  unfolding set_view_def by (auto simp: image_iff)

lemma SetStatusCondition_view:
  assumes "condition_api c" and "distinct (map c_Type conds)"
  shows "map condition_view (SetStatusCondition c conds d) = set_view (map condition_view conds) (condition_view d)"
  using assms unfolding condition_api_def set_view_def by (auto simp: image_image)

lemma fold_conditions_view:
  assumes "condition_api c" and "distinct (map c_Type conds)"
  shows "map condition_view (fold (\<lambda>d out. SetStatusCondition c out d) ds conds) =
      fold (\<lambda>d vs. set_view vs d) (map condition_view ds) (map condition_view conds)"
  using assms(2)
proof (induction ds arbitrary: conds)
  case Nil
  then show ?case by simp
next
  case (Cons d ds)
  note v = SetStatusCondition_view [OF assms(1) Cons.prems, of d]
  have "distinct (map c_Type (SetStatusCondition c conds d))"
    using set_view_types(1) [of "map condition_view conds" "condition_view d"] Cons.prems
    by (metis map_type_view v)
  with Cons.IH v show ?case by simp
qed

lemma fold_set_view:
  assumes "distinct (map c_Type vs)" and "distinct (map c_Type ds)"
  shows "distinct (map c_Type (fold (\<lambda>d vs. set_view vs d) ds vs))"
    and "set (fold (\<lambda>d vs. set_view vs d) ds vs) = set ds \<union> {x \<in> set vs. c_Type x \<notin> c_Type ` set ds}"
  using assms
proof (induction ds arbitrary: vs)
  case Nil
  case 1
  then show ?case by simp
next
  case Nil
  case 2
  then show ?case by simp
next
  case (Cons d ds)
  case 1
  with Cons.IH(1) [of "set_view vs d"] show ?case by (simp add: set_view_types)
next
  case (Cons d ds)
  case 2
  with Cons.IH(2) [of "set_view vs d"] show ?case
    by (auto simp: set_view_types set_set_view)
qed

text \<open>Two lists of conditions that are sorted by type, have distinct types and the same elements are
  the same list.\<close>

lemma sorted_types_unique:
  assumes "set xs = set ys" "sorted (map c_Type xs)" "sorted (map c_Type ys)"
    "distinct (map c_Type xs)" "distinct (map c_Type ys)"
  shows "xs = (ys :: Condition list)"
proof (rule sorted_perm_unique [of _ _ c_Type])
  show "mset xs = mset ys"
    using assms by (metis distinct_map set_eq_iff_mset_eq_distinct)
qed (use assms in \<open>simp_all add: distinct_map\<close>)

lemma mergeConditions_views:
  assumes "condition_api c" and "distinct (map c_Type existing)" and "distinct (map c_Type desired)"
  defines "out \<equiv> map condition_view (mergeConditions c existing desired)"
  shows "sorted (map c_Type out)" "distinct (map c_Type out)"
    "set out = condition_view ` set desired \<union> condition_view ` {x \<in> set existing. c_Type x \<notin> c_Type ` set desired}"
proof -
  let ?f = "fold (\<lambda>d out. SetStatusCondition c out d) desired existing"
  have v: "map condition_view ?f = fold (\<lambda>d vs. set_view vs d) (map condition_view desired) (map condition_view existing)"
    by (rule fold_conditions_view [OF assms(1,2)])
  have d: "distinct (map c_Type (map condition_view existing))" "distinct (map c_Type (map condition_view desired))"
    using assms(2,3) by (simp_all add: comp_def)
  have dist: "distinct (map c_Type ?f)"
    using fold_set_view(1) [OF d] unfolding v [symmetric] by (simp add: comp_def)
  then show "distinct (map c_Type out)"
    unfolding out_def mergeConditions_def
    by (simp add: comp_def distinct_map)
  show "sorted (map c_Type out)"
    unfolding out_def mergeConditions_def by (simp add: comp_def sorted_go_sort)
  have "set out = set (map condition_view ?f)"
    by (simp add: out_def mergeConditions_def)
  also have "\<dots> = condition_view ` set desired \<union> condition_view ` {x \<in> set existing. c_Type x \<notin> c_Type ` set desired}"
    unfolding v fold_set_view(2) [OF d] by (auto simp: image_image)
  finally show "set out = condition_view ` set desired \<union> condition_view ` {x \<in> set existing. c_Type x \<notin> c_Type ` set desired}" .
qed

section \<open>Status updates\<close>

lemma mergeConditions_settles:
  assumes "condition_api c" and "distinct (map c_Type existing)" and "distinct (map c_Type desired)"
  shows "map condition_view (mergeConditions c (mergeConditions c existing desired) desired)
    = map condition_view (mergeConditions c existing desired)"
proof -
  let ?m = "mergeConditions c existing desired"
  note v = mergeConditions_views [OF assms]
  have d: "distinct (map c_Type ?m)" using v(2) by (simp add: comp_def)
  note v' = mergeConditions_views [OF assms(1) d assms(3)]
  have "condition_view ` {x \<in> set ?m. c_Type x \<notin> c_Type ` set desired}
      = {y \<in> set (map condition_view ?m). c_Type y \<notin> c_Type ` set desired}" by auto
  also have "\<dots> = condition_view ` {x \<in> set existing. c_Type x \<notin> c_Type ` set desired}"
    unfolding v(3) by auto
  finally show ?thesis
    using v v' by (intro sorted_types_unique) simp_all
qed

lemma gatewayWithStatus_settles:
  assumes "condition_api c" and "distinct (map c_Type (gw_Conditions g))"
  shows "gatewayStatusEqual (gatewayWithStatus c g ev) (gatewayWithStatus c (gatewayWithStatus c g ev) ev)"
proof -
  let ?g1 = "gatewayWithStatus c g ev"
  have "gw_Addresses (gatewayWithStatus c ?g1 ev) = gw_Addresses ?g1"
    "gw_ListenerStatuses (gatewayWithStatus c ?g1 ev) = gw_ListenerStatuses ?g1"
    by (simp_all add: gatewayWithStatus_def)
  moreover have "map condition_view (gw_Conditions (gatewayWithStatus c ?g1 ev)) = map condition_view (gw_Conditions ?g1)"
    using mergeConditions_settles [OF assms] by (simp add: gatewayWithStatus_def condition_def)
  ultimately show ?thesis by (simp add: gatewayStatusEqual_iff gateway_status_view_def)
qed

text \<open>Merging conditions keeps what others wrote and replaces what the controller owns: the result
  is sorted by type, has each type once, holds the desired conditions and every existing condition of
  another type, up to transition times.\<close>

lemma mergeConditions_correct:
  assumes "condition_api c" and "distinct (map c_Type existing)" and "distinct (map c_Type desired)"
  shows "sorted (map c_Type (mergeConditions c existing desired))
    \<and> distinct (map c_Type (mergeConditions c existing desired))
    \<and> condition_view ` set (mergeConditions c existing desired) =
        condition_view ` set desired \<union> condition_view ` {x \<in> set existing. c_Type x \<notin> c_Type ` set desired}"
  using mergeConditions_views [OF assms] by (simp add: comp_def)

text \<open>C35: Status writes settle. When the status of a Gateway is updated for some evaluation and the
  object written comes back, updating it for the same evaluation makes no API call: the controller does
  not write in a loop, although every computed condition carries a new time.\<close>

theorem updateGatewayStatus_settles:
  assumes "condition_api c" and "distinct (map c_Type (gw_Conditions g))"
  shows "updateGatewayStatus c (gatewayWithStatus c g ev) ev w = (None, w)"
  using gatewayWithStatus_settles [OF assms] by (simp add: updateGatewayStatus_def)

lemma fold_skip_eq: "fold (\<lambda>x out. if P x then out else out @ [x]) xs acc = acc @ filter (\<lambda>x. \<not> P x) xs"
  by (induction xs arbitrary: acc) auto

lemma mergeRouteParents_eq:
  "mergeRouteParents existing desired =
    go_sort routeParentSortKey (filter (\<lambda>p. rps_ControllerName p \<noteq> controllerName) existing @ desired)"
  by (simp add: mergeRouteParents_def fold_skip_eq)


section \<open>A concrete condition library\<close>

definition set_condition :: "Condition list \<Rightarrow> Condition \<Rightarrow> Condition list" where
  "set_condition conds d =
     (if c_Type d \<in> set (map c_Type conds) then map (\<lambda>x. if c_Type x = c_Type d then d else x) conds
      else conds @ [d])"

definition find_condition :: "Condition list \<Rightarrow> string \<Rightarrow> Condition option" where
  "find_condition conds t = find (\<lambda>x. c_Type x = t) conds"

text \<open>An empty cluster whose clients accept everything without effect; the samples override its fields.\<close>

definition empty_cluster :: "'w cluster" where
  "empty_cluster =
     \<lparr>gatewayClasses_Get = (\<lambda>n. Inl (StatusError NotFound n)), gateways_Get = (\<lambda>ns n. Inl (StatusError NotFound n)),
      routes_Get = (\<lambda>ns n. Inl (StatusError NotFound n)), gateways_ByIndex = (\<lambda>_ _. Inr []),
      routes_ByIndex = (\<lambda>_ _. Inr []), endpointSelectors_ByIndex = (\<lambda>_ _. Inr []),
      endpointSlices_ByIndex = (\<lambda>_ _. Inr []), ipAddresses_ByIndex = (\<lambda>_ _. Inr []),
      endpointSelectors_GetByKey = (\<lambda>_. Inr None), ipAddresses_List = Inr [], serviceCIDRs_List = Inr [],
      pods_List = (\<lambda>_. Inr []), GatewayClasses_UpdateStatus = (\<lambda>_ w. (None, w)),
      Gateways_Get = (\<lambda>ns n w. (Inl (StatusError NotFound n), w)), Gateways_Update = (\<lambda>_ w. (None, w)),
      Gateways_UpdateStatus = (\<lambda>_ w. (None, w)), TCPRoutes_UpdateStatus = (\<lambda>_ w. (None, w)),
      XEndpointSelectors_UpdateStatus = (\<lambda>_ _ w. (None, w)), IPAddresses_Create = (\<lambda>_ w. (None, w)),
      IPAddresses_Delete = (\<lambda>_ w. (None, w)), EndpointSlices_Create = (\<lambda>_ w. (None, w)),
      EndpointSlices_Update = (\<lambda>_ w. (None, w)), EndpointSlices_Delete = (\<lambda>_ _ w. (None, w)),
      SetStatusCondition = set_condition, FindStatusCondition = find_condition,
      LabelSelectorAsSelector = (\<lambda>_. Inr (\<lambda>_. True)), FromUnstructured = (\<lambda>_. Inl (ErrorString ''not modelled'')),
      ToUnstructured = (\<lambda>_. Inl (ErrorString ''not modelled'')), Now = 0\<rparr>"

lemma empty_cluster_conditions: "condition_api empty_cluster"
  unfolding condition_api_def empty_cluster_def set_condition_def by auto

definition sample_condition :: "string \<Rightarrow> Condition" where
  "sample_condition t = \<lparr>c_Type = t, c_Status = ConditionTrue, c_Reason = ''Ok'', c_Message = ''ok'',
     c_ObservedGeneration = 1, c_LastTransitionTime = 5\<rparr>"

definition sample_evaluation :: gatewayEvaluation where
  "sample_evaluation = \<lparr>ge_acceptedStatus = ConditionTrue, ge_acceptedReason = ''Accepted'',
     ge_acceptedMessage = ''ok'', ge_programmedReason = ''Pending'', ge_programmedMessage = ''waiting'',
     ge_listeners = [], ge_valid = True, ge_selectedVIP = ''10.96.0.10'', ge_needsVIP = True\<rparr>"

theorem updateGatewayStatus_settles_witness:
  "let g = sample_gateway\<lparr>gw_Conditions := [sample_condition ''Other'']\<rparr> in
   updateGatewayStatus (empty_cluster :: nat cluster)
     (gatewayWithStatus (empty_cluster :: nat cluster) g sample_evaluation) sample_evaluation 0 = (None, 0)"
  unfolding Let_def
  by (rule updateGatewayStatus_settles [OF empty_cluster_conditions]) simp

definition sample_parent :: "string \<Rightarrow> RouteParentStatus" where
  "sample_parent controller = \<lparr>rps_ParentRef = \<lparr>pr_Group = None, pr_Kind = None, pr_Namespace = None,
     pr_Name = ''demo'', pr_SectionName = None, pr_Port = None\<rparr>, rps_ControllerName = controller, rps_Conditions = []\<rparr>"


end
