(* ===== verification/Listeners.thy ===== *)
theory Listeners
  imports Status AgentState
begin

text \<open>
  The listener part of \<open>internal/controller/gateway_reconcile.go\<close>: which listeners of a Gateway the
  controller supports, and the statuses it writes for them.
\<close>

section \<open>Listener statuses\<close>

definition listenerStatusForOutcome ::
    "'w cluster \<Rightarrow> Listener \<Rightarrow> int32 \<Rightarrow> ConditionStatus \<Rightarrow> string \<Rightarrow> string \<Rightarrow> ConditionStatus \<Rightarrow> string \<Rightarrow> string \<Rightarrow>
      ConditionStatus \<Rightarrow> string \<Rightarrow> string \<Rightarrow> int \<Rightarrow> ListenerStatus" where
  "listenerStatusForOutcome c listener attachedRoutes acceptedStatus acceptedReason acceptedMessage
     resolvedStatus resolvedReason resolvedMessage programmedStatus programmedReason programmedMessage
     observedGeneration =
     \<lparr>lst_Name = l_Name listener,
      lst_SupportedKinds = [\<lparr>rgk_Group = Some gatewayAPIGroup, rgk_Kind = ''TCPRoute''\<rparr>],
      lst_AttachedRoutes = attachedRoutes,
      lst_Conditions = mergeConditions c []
        [condition c ''Accepted'' acceptedStatus acceptedReason acceptedMessage observedGeneration,
         condition c ''ResolvedRefs'' resolvedStatus resolvedReason resolvedMessage observedGeneration,
         condition c ''Programmed'' programmedStatus programmedReason programmedMessage observedGeneration]\<rparr>"

text \<open>The two outcomes the code uses: everything refused with one message, and accepted but not
  programmed yet.\<close>

definition listenerRefused :: "'w cluster \<Rightarrow> Listener \<Rightarrow> int32 \<Rightarrow> string \<Rightarrow> string \<Rightarrow> int \<Rightarrow> ListenerStatus" where
  "listenerRefused c listener attachedRoutes acceptedReason message observedGeneration =
     listenerStatusForOutcome c listener attachedRoutes
       ConditionFalse acceptedReason message ConditionFalse ''UnsupportedValue'' message
       ConditionFalse ''Invalid'' message observedGeneration"

definition listenerAccepted :: "'w cluster \<Rightarrow> Listener \<Rightarrow> int32 \<Rightarrow> int \<Rightarrow> ListenerStatus" where
  "listenerAccepted c listener attachedRoutes observedGeneration =
     listenerStatusForOutcome c listener attachedRoutes
       ConditionTrue ''Accepted'' ''Listener accepted for TCPRoute attachment.''
       ConditionTrue ''ResolvedRefs'' ''Listener references resolved.''
       ConditionFalse ''Pending'' ''Waiting for VIP allocation.'' observedGeneration"

definition listenerStatusesForGatewayMessage :: "'w cluster \<Rightarrow> Listener list \<Rightarrow> string \<Rightarrow> int \<Rightarrow> ListenerStatus list" where
  "listenerStatusesForGatewayMessage c listeners message observedGeneration =
     map (\<lambda>l. listenerRefused c l 0 ''UnsupportedValue'' message observedGeneration) listeners"

definition setListenerProgrammedCondition ::
    "'w cluster \<Rightarrow> ListenerStatus list \<Rightarrow> string \<Rightarrow> string \<Rightarrow> string \<Rightarrow> int \<Rightarrow> ListenerStatus list" where
  "setListenerProgrammedCondition c listeners status reason message observedGeneration =
     map (\<lambda>l. case FindStatusCondition c (lst_Conditions l) ''Accepted'' of
                None \<Rightarrow> l
              | Some accepted \<Rightarrow>
                  if c_Status accepted \<noteq> ConditionTrue then l
                  else l\<lparr>lst_Conditions := mergeConditions c (lst_Conditions l)
                           [condition c ''Programmed'' status reason message observedGeneration]\<rparr>) listeners"

section \<open>Validation\<close>

definition allowedRoutesSupported :: "AllowedRoutes option \<Rightarrow> bool" where
  "allowedRoutesSupported allowedRoutes =
     (case allowedRoutes of
        None \<Rightarrow> True
      | Some ar \<Rightarrow>
          if length (ar_Kinds ar) \<noteq> 0 then False
          else case ar_Namespaces ar of
                 None \<Rightarrow> True
               | Some ns \<Rightarrow>
                   if rn_Selector ns \<noteq> None then False
                   else case rn_From ns of None \<Rightarrow> True | Some from \<Rightarrow> from = ''Same'')"

text \<open>The \<open>switch\<close> of the validation loop: the message (empty when nothing is wrong) and the reason of
  the Accepted condition. The counts are those of the two counting maps.\<close>

definition listenerProblem :: "Listener list \<Rightarrow> string \<Rightarrow> Listener \<Rightarrow> string \<times> string" where
  "listenerProblem listeners resultMessage listener =
     (if length listeners > MaxSupportedGatewayListeners then (resultMessage, ''UnsupportedValue'')
      else if l_Name listener = [] then (''Listener name must not be empty.'', ''UnsupportedValue'')
      else if l_Port listener = 0 then (''Listener port must be non-zero.'', ''UnsupportedValue'')
      else if l_Protocol listener \<noteq> ''TCP'' then (''Only TCP listeners are supported.'', ''UnsupportedProtocol'')
      else if \<not> allowedRoutesSupported (l_AllowedRoutes listener)
        then (''listener.allowedRoutes is not supported in this phase.'', ''UnsupportedValue'')
      else if count_list (map l_Name listeners) (l_Name listener) > 1
        then (''Listener name '' @ Quote (l_Name listener) @ '' must be unique.'', ''UnsupportedValue'')
      else if count_list (map l_Port listeners) (l_Port listener) > 1
        then (''Listener port '' @ Itoa (sint (l_Port listener)) @ '' must be unique.'', ''UnsupportedValue'')
      else ([], ''UnsupportedValue''))"

definition validate_listener ::
    "'w cluster \<Rightarrow> Gateway \<Rightarrow> Listener \<Rightarrow> gatewayListenersValidation \<Rightarrow> gatewayListenersValidation" where
  "validate_listener c gateway listener result =
     (let (message, acceptedReason) = listenerProblem (gw_Listeners gateway) (glv_message result) listener in
      if message \<noteq> [] then
        let status = listenerRefused c listener 0 acceptedReason message (gw_Generation gateway);
            result' = (if glv_valid result then result\<lparr>glv_valid := False, glv_message := message\<rparr> else result)
        in result'\<lparr>glv_statuses := glv_statuses result' @ [status]\<rparr>
      else result\<lparr>glv_listeners := glv_listeners result @ [listener],
                  glv_statuses := glv_statuses result @ [listenerAccepted c listener 0 (gw_Generation gateway)]\<rparr>)"

definition validateGatewayListeners :: "'w cluster \<Rightarrow> Gateway option \<Rightarrow> gatewayListenersValidation" where
  "validateGatewayListeners c gateway =
     (let result = \<lparr>glv_valid = True, glv_message = ''Listeners accepted.'', glv_listeners = [], glv_statuses = []\<rparr> in
      case gateway of
        None \<Rightarrow> result\<lparr>glv_valid := False, glv_message := ''Gateway is required.''\<rparr>
      | Some g \<Rightarrow>
          if length (gw_Listeners g) = 0
          then result\<lparr>glv_valid := False, glv_message := ''At least one listener is required.''\<rparr>
          else
            let result' = (if length (gw_Listeners g) > MaxSupportedGatewayListeners
                           then result\<lparr>glv_valid := False, glv_message :=
                             ''At most '' @ Itoa (int MaxSupportedGatewayListeners) @ '' listeners are supported.''\<rparr>
                           else result)
            in fold (validate_listener c g) (gw_Listeners g) result')"

section \<open>What the validation accepts\<close>

definition listener_supported :: "Listener \<Rightarrow> bool" where
  "listener_supported l \<longleftrightarrow> l_Name l \<noteq> [] \<and> l_Port l \<noteq> 0 \<and> l_Protocol l = ''TCP'' \<and> allowedRoutesSupported (l_AllowedRoutes l)"

lemma count_list_distinct: "(\<forall>x\<in>set xs. \<not> count_list xs x > 1) \<longleftrightarrow> distinct xs"
proof -
  have "\<not> count_list xs x > 1 \<longleftrightarrow> count_list xs x = 1" if "x \<in> set xs" for x
    using that by (auto simp: count_list_0_iff le_less_Suc_eq) (metis One_nat_def count_list_0_iff less_one not_less_iff_gr_or_eq)
  then show ?thesis
    unfolding distinct_count_atmost_1 count_mset by (metis count_notin)
qed

lemma listenerProblem_fst:
  assumes "m \<noteq> []"
  shows "fst (listenerProblem ls m l) = [] \<longleftrightarrow>
    length ls \<le> 10 \<and> listener_supported l \<and> \<not> count_list (map l_Name ls) (l_Name l) > 1
    \<and> \<not> count_list (map l_Port ls) (l_Port l) > 1"
  using assms by (auto simp: listenerProblem_def listener_supported_def MaxSupportedGatewayListeners_def)

text \<open>The accumulated result of the loop, for whatever the \<open>switch\<close> finds acceptable.\<close>

lemma validate_fold:
  assumes "\<And>l m. m \<noteq> [] \<Longrightarrow> fst (listenerProblem (gw_Listeners g) m l) = [] \<longleftrightarrow> ok l"
    and "glv_message r \<noteq> []"
  shows "(glv_valid (fold (validate_listener c g) ls r) \<longleftrightarrow> glv_valid r \<and> list_all ok ls)
    \<and> glv_listeners (fold (validate_listener c g) ls r) = glv_listeners r @ filter ok ls
    \<and> map lst_Name (glv_statuses (fold (validate_listener c g) ls r)) = map lst_Name (glv_statuses r) @ map l_Name ls"
  using assms(2)
proof (induction ls arbitrary: r)
  case Nil
  then show ?case by simp
next
  case (Cons l ls)
  let ?r = "validate_listener c g l r"
  have "(glv_valid ?r \<longleftrightarrow> glv_valid r \<and> ok l) \<and> glv_listeners ?r = glv_listeners r @ (if ok l then [l] else [])
    \<and> map lst_Name (glv_statuses ?r) = map lst_Name (glv_statuses r) @ [l_Name l] \<and> glv_message ?r \<noteq> []"
    using assms(1) [OF Cons.prems, of l] Cons.prems
    by (auto simp: validate_listener_def listenerRefused_def listenerAccepted_def listenerStatusForOutcome_def Let_def
        split: prod.splits)
  with Cons.IH [of ?r] show ?case by auto
qed

lemma validateGatewayListeners_Some:
  fixes c :: "'w cluster" and g :: Gateway
  defines "V \<equiv> validateGatewayListeners c (Some g)"
  shows "glv_valid V \<longleftrightarrow>
      1 \<le> length (gw_Listeners g) \<and> length (gw_Listeners g) \<le> 10 \<and> list_all listener_supported (gw_Listeners g)
      \<and> distinct (map l_Name (gw_Listeners g)) \<and> distinct (map l_Port (gw_Listeners g))" (is "_ \<longleftrightarrow> ?ok")
    and "glv_valid V \<Longrightarrow> glv_listeners V = gw_Listeners g"
    and "map lst_Name (glv_statuses V) = map l_Name (gw_Listeners g)"
proof -
  let ?ls = "gw_Listeners g"
  let ?good = "\<lambda>l. length ?ls \<le> 10 \<and> listener_supported l \<and> \<not> count_list (map l_Name ?ls) (l_Name l) > 1
    \<and> \<not> count_list (map l_Port ?ls) (l_Port l) > 1"
  let ?r0 = "\<lparr>glv_valid = True, glv_message = ''Listeners accepted.'', glv_listeners = [], glv_statuses = []\<rparr>"
  let ?r = "if length ?ls > MaxSupportedGatewayListeners
    then ?r0\<lparr>glv_valid := False, glv_message :=
       ''At most '' @ Itoa (int MaxSupportedGatewayListeners) @ '' listeners are supported.''\<rparr> else ?r0"
  have dist: "list_all (\<lambda>l. \<not> count_list (map f ?ls) (f l) > 1) ?ls \<longleftrightarrow> distinct (map f ?ls)" for f :: "Listener \<Rightarrow> 'k"
    unfolding count_list_distinct [symmetric] by (simp add: list_all_iff)
  have good: "list_all ?good ?ls \<longleftrightarrow> (?ls = [] \<or> length ?ls \<le> 10) \<and> list_all listener_supported ?ls
    \<and> distinct (map l_Name ?ls) \<and> distinct (map l_Port ?ls)"
    unfolding dist [symmetric] by (cases ?ls) (auto simp: list_all_iff)
  show "glv_valid V \<longleftrightarrow> ?ok" "glv_valid V \<Longrightarrow> glv_listeners V = ?ls" "map lst_Name (glv_statuses V) = map l_Name ?ls"
  proof -
    have f: "(glv_valid (fold (validate_listener c g) ?ls r) \<longleftrightarrow> glv_valid r \<and> list_all ?good ?ls)
      \<and> glv_listeners (fold (validate_listener c g) ?ls r) = glv_listeners r @ filter ?good ?ls
      \<and> map lst_Name (glv_statuses (fold (validate_listener c g) ?ls r)) = map lst_Name (glv_statuses r) @ map l_Name ?ls"
      if "glv_message r \<noteq> []" for r
      using listenerProblem_fst that by (rule validate_fold)
    have r: "glv_message ?r \<noteq> []" "glv_valid ?r \<longleftrightarrow> length ?ls \<le> 10" "glv_listeners ?r = []" "glv_statuses ?r = []"
      by (auto simp: MaxSupportedGatewayListeners_def)
    have V: "?ls \<noteq> [] \<Longrightarrow> V = fold (validate_listener c g) ?ls ?r" "?ls = [] \<Longrightarrow> \<not> glv_valid V \<and> glv_statuses V = []"
      by (auto simp: V_def validateGatewayListeners_def Let_def)
    show "glv_valid V \<longleftrightarrow> ?ok" "map lst_Name (glv_statuses V) = map l_Name ?ls"
      using V f [OF r(1)] r good by (cases "?ls = []"; force simp: Suc_le_eq)+
    show "glv_listeners V = ?ls" if "glv_valid V"
    proof -
      have ne: "?ls \<noteq> []" using V(2) that by blast
      with that V(1) f [OF r(1)] have "list_all ?good ?ls" by simp
      then have "filter ?good ?ls = ?ls" by (simp add: list_all_iff filter_id_conv)
      with ne V(1) f [OF r(1)] r(3) show ?thesis by simp
    qed
  qed
qed

text \<open>C30: The controller accepts the listeners of a Gateway exactly when there are 1 to 10 of them, each
  TCP with a non-empty name, a non-zero port and routes from the same namespace, with distinct names and
  distinct ports; then all of them are kept in order. In every case there is one status per listener, in
  order. The result does not depend on the order of the checks.\<close>

theorem validateGatewayListeners_correct:
  "(glv_valid (validateGatewayListeners c (Some g)) =
      (1 \<le> length (gw_Listeners g) \<and> length (gw_Listeners g) \<le> 10 \<and> list_all listener_supported (gw_Listeners g)
       \<and> distinct (map l_Name (gw_Listeners g)) \<and> distinct (map l_Port (gw_Listeners g))))
    \<and> (if glv_valid (validateGatewayListeners c (Some g))
       then glv_listeners (validateGatewayListeners c (Some g)) = gw_Listeners g else True)
    \<and> map lst_Name (glv_statuses (validateGatewayListeners c (Some g))) = map l_Name (gw_Listeners g)"
  using validateGatewayListeners_Some [of c g] by simp

end
