(* ===== verification/Indexers.thy ===== *)
theory Indexers
  imports ControllerTypes
begin

text \<open>
  \<open>internal/controller/indexers.go\<close>: queue keys, the conversions from cached objects, the index
  functions and the reference predicates. A conversion that the code answers with \<open>panic\<close> is the error
  value \<open>Panic\<close>; the type names \<open>%T\<close> prints into its message are left out. The locale \<open>object_kind\<close> is
  the contract of the conversions towards the event handlers.
\<close>

section \<open>Keys\<close>

definition namespacedKey :: "NamespacedName \<Rightarrow> string" where
  "namespacedKey key = nn_Namespace key @ ''/'' @ nn_Name key"

definition splitNamespacedKey :: "string \<Rightarrow> goerror + NamespacedName" where
  "splitNamespacedKey key =
     (let parts = Split CHR ''/'' key in
      if length parts \<noteq> 2 \<or> parts ! 0 = [] \<or> parts ! 1 = []
      then Inl (ErrorString (''invalid namespaced key '' @ Quote key))
      else Inr (NamespacedName (parts ! 0) (parts ! 1)))"

section \<open>Objects from events\<close>

definition unexpected :: "string \<Rightarrow> goerror + 'a" where
  "unexpected kind = Inl (Panic (''unexpected '' @ kind @ '' object type''))"

definition unexpectedTombstone :: "string \<Rightarrow> goerror + 'a" where
  "unexpectedTombstone kind = Inl (Panic (''unexpected '' @ kind @ '' tombstone object type''))"

definition gatewayClassFromObject :: "obj \<Rightarrow> goerror + GatewayClass" where
  "gatewayClassFromObject obj =
     (case obj of
        OGatewayClass t \<Rightarrow> Inr t
      | DeletedFinalStateUnknown t \<Rightarrow>
          (case t of OGatewayClass gatewayClass \<Rightarrow> Inr gatewayClass | _ \<Rightarrow> unexpectedTombstone ''GatewayClass'')
      | _ \<Rightarrow> unexpected ''GatewayClass'')"

definition gatewayFromObject :: "obj \<Rightarrow> goerror + Gateway" where
  "gatewayFromObject obj =
     (case obj of
        OGateway t \<Rightarrow> Inr t
      | DeletedFinalStateUnknown t \<Rightarrow>
          (case t of OGateway gateway \<Rightarrow> Inr gateway | _ \<Rightarrow> unexpectedTombstone ''Gateway'')
      | _ \<Rightarrow> unexpected ''Gateway'')"

definition routeFromObject :: "obj \<Rightarrow> goerror + TCPRoute" where
  "routeFromObject obj =
     (case obj of
        OTCPRoute t \<Rightarrow> Inr t
      | DeletedFinalStateUnknown t \<Rightarrow>
          (case t of OTCPRoute route \<Rightarrow> Inr route | _ \<Rightarrow> unexpectedTombstone ''TCPRoute'')
      | _ \<Rightarrow> unexpected ''TCPRoute'')"

definition podFromObject :: "obj \<Rightarrow> goerror + Pod" where
  "podFromObject obj =
     (case obj of
        OPod t \<Rightarrow> Inr t
      | DeletedFinalStateUnknown t \<Rightarrow> (case t of OPod pod \<Rightarrow> Inr pod | _ \<Rightarrow> unexpectedTombstone ''Pod'')
      | _ \<Rightarrow> unexpected ''Pod'')"

definition endpointSelectorFromObject :: "obj \<Rightarrow> goerror + Unstructured" where
  "endpointSelectorFromObject obj =
     (case obj of
        OUnstructured t \<Rightarrow> Inr t
      | DeletedFinalStateUnknown t \<Rightarrow>
          (case t of OUnstructured selector \<Rightarrow> Inr selector | _ \<Rightarrow> unexpectedTombstone ''XEndpointSelector'')
      | _ \<Rightarrow> unexpected ''XEndpointSelector'')"

definition endpointSliceFromObject :: "obj \<Rightarrow> goerror + EndpointSlice" where
  "endpointSliceFromObject obj =
     (case obj of
        OEndpointSlice t \<Rightarrow> Inr t
      | DeletedFinalStateUnknown t \<Rightarrow>
          (case t of OEndpointSlice endpointSlice \<Rightarrow> Inr endpointSlice | _ \<Rightarrow> unexpectedTombstone ''EndpointSlice'')
      | _ \<Rightarrow> unexpected ''EndpointSlice'')"

definition ipAddressFromObject :: "obj \<Rightarrow> goerror + IPAddress" where
  "ipAddressFromObject obj =
     (case obj of
        OIPAddress t \<Rightarrow> Inr t
      | DeletedFinalStateUnknown t \<Rightarrow>
          (case t of OIPAddress ipAddress \<Rightarrow> Inr ipAddress | _ \<Rightarrow> unexpectedTombstone ''IPAddress'')
      | _ \<Rightarrow> unexpected ''IPAddress'')"

section \<open>References\<close>

definition isGatewayParentRef :: "ParentReference \<Rightarrow> bool" where
  "isGatewayParentRef parent \<longleftrightarrow>
     string_or gatewayAPIGroup (pr_Group parent) = gatewayAPIGroup \<and> string_or ''Gateway'' (pr_Kind parent) = ''Gateway''"

definition isEndpointSelectorBackendRef :: "string \<Rightarrow> BackendRef \<Rightarrow> bool" where
  "isEndpointSelectorBackendRef routeNamespace backend =
     (case br_Group backend of
        None \<Rightarrow> False
      | Some grp \<Rightarrow>
          if grp = [] then False
          else if grp \<noteq> endpointSelectorAPIGroup
               \<or> string_or endpointSelectorKind (br_Kind backend) \<noteq> endpointSelectorKind then False
          else string_or routeNamespace (br_Namespace backend) \<noteq> [] \<and> br_Name backend \<noteq> [])"

text \<open>The two key collectors append a key unless it was seen before.\<close>

definition add_key :: "string \<Rightarrow> string list \<Rightarrow> string list" where
  "add_key key keys = (if key \<in> set keys then keys else keys @ [key])"

definition parent_key :: "TCPRoute \<Rightarrow> ParentReference \<Rightarrow> string" where
  "parent_key route parent = namespacedKey (NamespacedName (string_or (tr_Namespace route) (pr_Namespace parent)) (pr_Name parent))"

definition backend_key :: "TCPRoute \<Rightarrow> BackendRef \<Rightarrow> string" where
  "backend_key route backend = namespacedKey (NamespacedName (string_or (tr_Namespace route) (br_Namespace backend)) (br_Name backend))"

definition routeGatewayParentKeys :: "TCPRoute \<Rightarrow> string list" where
  "routeGatewayParentKeys route =
     fold (\<lambda>parent keys. if \<not> isGatewayParentRef parent then keys else add_key (parent_key route parent) keys)
       (tr_ParentRefs route) []"

definition routeBackendEndpointSelectorKeys :: "TCPRoute \<Rightarrow> string list" where
  "routeBackendEndpointSelectorKeys route =
     fold (\<lambda>rule keys.
       fold (\<lambda>backend keys. if \<not> isEndpointSelectorBackendRef (tr_Namespace route) backend then keys
                            else add_key (backend_key route backend) keys) rule keys)
       (tr_Rules route) []"

definition gatewayKeyForIPAddress :: "IPAddress \<Rightarrow> string" where
  "gatewayKeyForIPAddress ipAddress =
     (if label (ip_Meta ipAddress) managedByLabelKey \<noteq> managedByLabelValue then []
      else case ip_ParentRef ipAddress of
             None \<Rightarrow> []
           | Some parent \<Rightarrow>
               if ipr_Group parent \<noteq> gatewayAPIGroup \<or> ipr_Resource parent \<noteq> ''gateways''
                  \<or> ipr_Namespace parent = [] \<or> ipr_Name parent = [] then []
               else namespacedKey (NamespacedName (ipr_Namespace parent) (ipr_Name parent)))"

definition endpointSelectorKeyForEndpointSlice :: "EndpointSlice \<Rightarrow> string" where
  "endpointSelectorKeyForEndpointSlice endpointSlice =
     (if label (es_Meta endpointSlice) LabelManagedBy \<noteq> ManagedByValue then []
      else
        let selectorName = label (es_Meta endpointSlice) EndpointSelectorNameLabelKey in
        if selectorName = [] then []
        else
          let namespace0 = label (es_Meta endpointSlice) EndpointSelectorNamespaceLabelKey;
              namespace = (if namespace0 = [] then om_Namespace (es_Meta endpointSlice) else namespace0) in
          if namespace = [] then [] else namespacedKey (NamespacedName namespace selectorName))"

section \<open>Index functions\<close>

definition indexGatewayByClass :: "obj \<Rightarrow> goerror + string list" where
  "indexGatewayByClass obj =
     (case obj of OGateway gateway \<Rightarrow> Inr [gw_GatewayClassName gateway] | _ \<Rightarrow> unexpected ''Gateway index'')"

definition indexRouteByGateway :: "obj \<Rightarrow> goerror + string list" where
  "indexRouteByGateway obj =
     (case obj of OTCPRoute route \<Rightarrow> Inr (routeGatewayParentKeys route) | _ \<Rightarrow> unexpected ''TCPRoute index'')"

definition indexRouteByBackendEndpointSelector :: "obj \<Rightarrow> goerror + string list" where
  "indexRouteByBackendEndpointSelector obj =
     (case obj of OTCPRoute route \<Rightarrow> Inr (routeBackendEndpointSelectorKeys route)
      | _ \<Rightarrow> unexpected ''TCPRoute index'')"

definition indexEndpointSliceByEndpointSelector :: "obj \<Rightarrow> goerror + string list" where
  "indexEndpointSliceByEndpointSelector obj =
     (case obj of
        OEndpointSlice endpointSlice \<Rightarrow>
          let key = endpointSelectorKeyForEndpointSlice endpointSlice in Inr (if key \<noteq> [] then [key] else [])
      | _ \<Rightarrow> unexpected ''EndpointSlice index'')"

definition indexIPAddressByGateway :: "obj \<Rightarrow> goerror + string list" where
  "indexIPAddressByGateway obj =
     (case obj of
        OIPAddress ipAddress \<Rightarrow>
          let key = gatewayKeyForIPAddress ipAddress in Inr (if key \<noteq> [] then [key] else [])
      | _ \<Rightarrow> unexpected ''IPAddress index'')"

section \<open>Cache reads by key\<close>

definition isNotFound :: "goerror option \<Rightarrow> bool" where
  "isNotFound err = (case err of None \<Rightarrow> False | Some e \<Rightarrow> IsNotFound e)"

definition getGateway :: "'w cluster \<Rightarrow> string \<Rightarrow> goerror + Gateway" where
  "getGateway c key =
     (case splitNamespacedKey key of
        Inl err \<Rightarrow> Inl err
      | Inr n \<Rightarrow> gateways_Get c (nn_Namespace n) (nn_Name n))"

definition getRoute :: "'w cluster \<Rightarrow> string \<Rightarrow> goerror + TCPRoute" where
  "getRoute c key =
     (case splitNamespacedKey key of
        Inl err \<Rightarrow> Inl err
      | Inr n \<Rightarrow> routes_Get c (nn_Namespace n) (nn_Name n))"

section \<open>The contract of the object conversions\<close>

text \<open>A conversion accepts the objects of its kind, bare or in the tombstone of a deletion, and panics
  on everything else.\<close>

locale object_kind =
  fixes embed :: "'a \<Rightarrow> obj" and convert :: "obj \<Rightarrow> goerror + 'a"
  assumes convert_Inr: "convert o' = Inr x \<longleftrightarrow> o' = embed x \<or> o' = DeletedFinalStateUnknown (embed x)"
    and convert_Inl: "convert o' = Inl e \<Longrightarrow> \<exists>message. e = Panic message"
begin

lemma convert_embed: "convert (embed x) = Inr x" "convert (DeletedFinalStateUnknown (embed x)) = Inr x"
  by (simp_all add: convert_Inr)

lemma embed_inj: "embed x = embed y \<Longrightarrow> x = y"
  by (metis convert_embed(1) sum.inject(2))

text \<open>Walking a list of cached objects of the kind never panics.\<close>

lemma convert_all: "map convert (map embed xs) = map Inr xs"
  by (simp add: convert_embed)

end

lemmas from_object_defs = gatewayClassFromObject_def gatewayFromObject_def routeFromObject_def podFromObject_def
  endpointSelectorFromObject_def endpointSliceFromObject_def ipAddressFromObject_def unexpected_def
  unexpectedTombstone_def

interpretation gatewayClass_obj: object_kind OGatewayClass gatewayClassFromObject
  by unfold_locales (auto simp: from_object_defs split: obj.splits)

interpretation gateway_obj: object_kind OGateway gatewayFromObject
  by unfold_locales (auto simp: from_object_defs split: obj.splits)

interpretation route_obj: object_kind OTCPRoute routeFromObject
  by unfold_locales (auto simp: from_object_defs split: obj.splits)

interpretation pod_obj: object_kind OPod podFromObject
  by unfold_locales (auto simp: from_object_defs split: obj.splits)

interpretation selector_obj: object_kind OUnstructured endpointSelectorFromObject
  by unfold_locales (auto simp: from_object_defs split: obj.splits)

interpretation slice_obj: object_kind OEndpointSlice endpointSliceFromObject
  by unfold_locales (auto simp: from_object_defs split: obj.splits)

interpretation ipAddress_obj: object_kind OIPAddress ipAddressFromObject
  by unfold_locales (auto simp: from_object_defs split: obj.splits)

section \<open>Keys and references\<close>

lemma namespacedKey_String: "namespacedKey n = NamespacedName_String n"
  by (simp add: namespacedKey_def NamespacedName_String_def)

lemma splitNamespacedKey_Inr:
  "splitNamespacedKey key = Inr n \<longleftrightarrow>
    key = namespacedKey n \<and> nn_Namespace n \<noteq> [] \<and> nn_Name n \<noteq> []
    \<and> CHR ''/'' \<notin> set (nn_Namespace n) \<and> CHR ''/'' \<notin> set (nn_Name n)"
proof -
  have two: "length parts = 2 \<longleftrightarrow> (\<exists>a b. parts = [a, b])" for parts :: "string list"
    by (auto simp: numeral_2_eq_2 length_Suc_conv)
  show ?thesis
    using Split_two [of "CHR ''/''" key "nn_Namespace n" "nn_Name n"]
    by (cases n) (auto simp: splitNamespacedKey_def namespacedKey_def two Let_def split: if_splits)
qed

lemma namespacedKey_inj:
  assumes "namespacedKey a = namespacedKey b" and "CHR ''/'' \<notin> set (nn_Namespace a)" "CHR ''/'' \<notin> set (nn_Namespace b)"
  shows "a = b"
  using assms append_sep_inj_first [of "nn_Namespace a" "CHR ''/''" "nn_Name a" "nn_Namespace b" "nn_Name b"]
  by (cases a; cases b) (auto simp: namespacedKey_def)

lemma add_key_set [simp]: "set (add_key k ks) = insert k (set ks)"
  by (auto simp: add_key_def)

lemma add_key_distinct [simp]: "distinct (add_key k ks) \<longleftrightarrow> distinct ks"
  by (auto simp: add_key_def)

lemma fold_add_key_set:
  "set (fold (\<lambda>x keys. if \<not> P x then keys else add_key (f x) keys) xs acc) = set acc \<union> f ` {x \<in> set xs. P x}"
  by (induction xs arbitrary: acc) auto

lemma fold_add_key_distinct:
  "distinct acc \<Longrightarrow> distinct (fold (\<lambda>x keys. if \<not> P x then keys else add_key (f x) keys) xs acc)"
  by (induction xs arbitrary: acc) auto

lemma set_routeGatewayParentKeys:
  "set (routeGatewayParentKeys route) = parent_key route ` {p \<in> set (tr_ParentRefs route). isGatewayParentRef p}"
  by (simp add: routeGatewayParentKeys_def fold_add_key_set)

lemma distinct_routeGatewayParentKeys: "distinct (routeGatewayParentKeys route)"
  by (simp add: routeGatewayParentKeys_def fold_add_key_distinct)

lemma set_routeBackendEndpointSelectorKeys:
  "set (routeBackendEndpointSelectorKeys route) =
    backend_key route ` {b \<in> \<Union> (set ` set (tr_Rules route)). isEndpointSelectorBackendRef (tr_Namespace route) b}"
proof -
  have "set (fold (\<lambda>rule keys. fold (\<lambda>backend keys. if \<not> isEndpointSelectorBackendRef (tr_Namespace route) backend
      then keys else add_key (backend_key route backend) keys) rule keys) rules acc) =
    set acc \<union> backend_key route ` {b \<in> \<Union> (set ` set rules). isEndpointSelectorBackendRef (tr_Namespace route) b}"
    for rules acc
    by (induction rules arbitrary: acc) (auto simp: fold_add_key_set)
  then show ?thesis by (simp add: routeBackendEndpointSelectorKeys_def)
qed

lemma distinct_routeBackendEndpointSelectorKeys: "distinct (routeBackendEndpointSelectorKeys route)"
proof -
  have "distinct acc \<Longrightarrow> distinct (fold (\<lambda>rule keys. fold (\<lambda>backend keys.
      if \<not> isEndpointSelectorBackendRef (tr_Namespace route) backend
      then keys else add_key (backend_key route backend) keys) rule keys) rules acc)" for rules acc
    by (induction rules arbitrary: acc) (auto simp: fold_add_key_distinct)
  then show ?thesis by (simp add: routeBackendEndpointSelectorKeys_def)
qed

text \<open>The keys a route is indexed under name exactly the Gateways its Gateway parentRefs point to
  and the selectors its XEndpointSelector backendRefs point to, each once, references without a
  namespace counting for the route's own.\<close>

lemma route_index_keys:
  "distinct (routeGatewayParentKeys route) \<and> distinct (routeBackendEndpointSelectorKeys route)
    \<and> set (routeGatewayParentKeys route) =
        {namespacedKey (NamespacedName (string_or (tr_Namespace route) (pr_Namespace p)) (pr_Name p)) | p.
           p \<in> set (tr_ParentRefs route) \<and> isGatewayParentRef p}
    \<and> set (routeBackendEndpointSelectorKeys route) =
        {namespacedKey (NamespacedName (string_or (tr_Namespace route) (br_Namespace b)) (br_Name b)) | b.
           b \<in> set (concat (tr_Rules route)) \<and> isEndpointSelectorBackendRef (tr_Namespace route) b}"
  by (auto simp: distinct_routeGatewayParentKeys distinct_routeBackendEndpointSelectorKeys
      set_routeGatewayParentKeys set_routeBackendEndpointSelectorKeys parent_key_def backend_key_def)

section \<open>Indexed caches\<close>

text \<open>What an informer's indexer promises: \<open>ByIndex\<close> returns the stored objects whose index function
  yields the key.\<close>

definition index_api :: "(string \<Rightarrow> goerror + obj list) \<Rightarrow> obj list \<Rightarrow> (obj \<Rightarrow> goerror + string list) \<Rightarrow> bool" where
  "index_api byIndex objs indexFunc \<longleftrightarrow>
     (\<forall>key. byIndex key = Inr (filter (\<lambda>x. case indexFunc x of Inl _ \<Rightarrow> False | Inr keys \<Rightarrow> key \<in> set keys) objs))"

end
