(* ===== verification/RouteReconcile.thy ===== *)
theory RouteReconcile
  imports Listeners Indexers
begin

text \<open>
  \<open>internal/controller/route_reconcile.go\<close>, with the two selector functions of
  \<open>internal/controller/endpointselector_reconcile.go\<close> it calls: which listener a TCPRoute attaches to,
  whether the controller accepts it, whether its backend resolves, and the status it writes. The
  selector store is the store of a dynamic informer, which holds \<open>Unstructured\<close> objects only, so the
  conversion from a cached object never panics there.
\<close>

section \<open>Reading a selector\<close>

definition endpointSelectorFromUnstructured :: "'w cluster \<Rightarrow> Unstructured \<Rightarrow> goerror + XEndpointSelector" where
  "endpointSelectorFromUnstructured c obj =
     (case FromUnstructured c obj of Inl err \<Rightarrow> Inl err | Inr out \<Rightarrow> Inr out)"

definition getEndpointSelector :: "'w cluster \<Rightarrow> NamespacedName \<Rightarrow> goerror + XEndpointSelector" where
  "getEndpointSelector c key =
     (case endpointSelectors_GetByKey c (namespacedKey key) of
        Inl err \<Rightarrow> Inl err
      | Inr None \<Rightarrow> Inl (StatusError NotFound
          (''xendpointselectors.gateway.networking.x-k8s.io '' @ Quote (nn_Name key) @ '' not found''))
      | Inr (Some obj) \<Rightarrow>
          (case endpointSelectorFromObject (OUnstructured obj) of
             Inl panic \<Rightarrow> Inl panic
           | Inr u \<Rightarrow> endpointSelectorFromUnstructured c u))"

definition evaluateEndpointSelector :: "'w cluster \<Rightarrow> XEndpointSelector \<Rightarrow> string \<times> string \<times> string" where
  "evaluateEndpointSelector c selector =
     (case LabelSelectorAsSelector c (xs_Selector selector) of
        Inl err \<Rightarrow> (ConditionFalse, ''Invalid'', ''Spec.selector is invalid: '' @ Error err)
      | Inr _ \<Rightarrow> (ConditionTrue, ''Accepted'', ''XEndpointSelector accepted by clusterip-gw-controller.''))"

section \<open>Routes and listeners\<close>

definition parentMatchesListener :: "ParentReference \<Rightarrow> Listener \<Rightarrow> bool" where
  "parentMatchesListener parent listener =
     (if (case pr_SectionName parent of None \<Rightarrow> False | Some s \<Rightarrow> s \<noteq> l_Name listener) then False
      else if (case pr_Port parent of None \<Rightarrow> False | Some p \<Rightarrow> p \<noteq> l_Port listener) then False
      else True)"

definition resolveGatewayListener :: "'w cluster \<Rightarrow> Gateway \<Rightarrow> ParentReference \<Rightarrow> goerror + Listener" where
  "resolveGatewayListener c gateway parent =
     (let validation = validateGatewayListeners c (Some gateway) in
      if \<not> glv_valid validation then Inl (ErrorString (glv_message validation))
      else case filter (parentMatchesListener parent) (glv_listeners validation) of
             [] \<Rightarrow> Inl (ErrorString ''ParentRef does not select a Gateway listener'')
           | [listener] \<Rightarrow> Inr listener
           | _ \<Rightarrow> Inl (ErrorString ''ParentRef must select exactly one Gateway listener by sectionName or port''))"

text \<open>The test on a parent reference that \<open>matchingParentRef\<close> and \<open>attachedRoutesForListener\<close> share.\<close>

definition parentRefersTo :: "TCPRoute \<Rightarrow> Gateway \<Rightarrow> ParentReference \<Rightarrow> bool" where
  "parentRefersTo route gateway parent \<longleftrightarrow>
     isGatewayParentRef parent
     \<and> string_or (tr_Namespace route) (pr_Namespace parent) = gw_Namespace gateway \<and> pr_Name parent = gw_Name gateway"

definition matchingParentRef :: "TCPRoute \<Rightarrow> Gateway \<Rightarrow> ParentReference" where
  "matchingParentRef route gateway =
     (case find (parentRefersTo route gateway) (tr_ParentRefs route) of
        Some parent \<Rightarrow> parent
      | None \<Rightarrow> \<lparr>pr_Group = None, pr_Kind = None, pr_Namespace = None, pr_Name = gw_Name gateway,
                 pr_SectionName = None, pr_Port = None\<rparr>)"

fun attaches_loop :: "TCPRoute \<Rightarrow> Gateway \<Rightarrow> Listener \<Rightarrow> ParentReference list \<Rightarrow> bool" where
  "attaches_loop route gateway listener [] = False"
| "attaches_loop route gateway listener (parent # parents) =
     (if \<not> parentRefersTo route gateway parent then attaches_loop route gateway listener parents
      else if \<not> parentMatchesListener parent listener then attaches_loop route gateway listener parents
      else True)"

definition route_key :: "TCPRoute \<Rightarrow> NamespacedName" where
  "route_key route = NamespacedName (tr_Namespace route) (tr_Name route)"

definition attachedRoutesForListener :: "Gateway \<Rightarrow> Listener \<Rightarrow> TCPRoute list \<Rightarrow> TCPRoute list" where
  "attachedRoutesForListener gateway listener routes =
     go_sort route_key
       (fold (\<lambda>route out.
          if tr_Namespace route \<noteq> gw_Namespace gateway then out
          else if attaches_loop route gateway listener (tr_ParentRefs route) then out @ [route] else out) routes [])"

definition countAttachedRoutesForListener :: "Gateway \<Rightarrow> Listener \<Rightarrow> TCPRoute list \<Rightarrow> nat" where
  "countAttachedRoutesForListener gateway listener routes = length (attachedRoutesForListener gateway listener routes)"

definition listRoutesForGateway :: "'w cluster \<Rightarrow> NamespacedName \<Rightarrow> goerror + TCPRoute list" where
  "listRoutesForGateway c key =
     (case routes_ByIndex c routeByGatewayIndex (namespacedKey key) of
        Inl err \<Rightarrow> Inl err
      | Inr items \<Rightarrow> Inr (fold (\<lambda>item out. case item of OTCPRoute route \<Rightarrow> out @ [route] | _ \<Rightarrow> out) items []))"

section \<open>Evaluating a route\<close>

text \<open>The first half of \<open>evaluateRoute\<close>, the Accepted condition.\<close>

definition evaluateRouteParent ::
    "'w cluster \<Rightarrow> TCPRoute \<Rightarrow> ParentReference \<Rightarrow> Gateway \<Rightarrow> TCPRoute list \<Rightarrow> routeEvaluation \<Rightarrow> routeEvaluation" where
  "evaluateRouteParent c route parentRef gateway attachedRoutes evaluation =
     (if tr_Namespace route \<noteq> gw_Namespace gateway then
        evaluation\<lparr>re_acceptedReason := ''NotAllowedByListeners'',
          re_acceptedMessage := ''Cross-namespace TCPRoute attachment is not supported in this phase.''\<rparr>
      else if length (tr_ParentRefs route) \<noteq> 1 then
        evaluation\<lparr>re_acceptedReason := ''UnsupportedValue'', re_acceptedMessage := ''Exactly one parentRef is supported.''\<rparr>
      else case resolveGatewayListener c gateway parentRef of
             Inl err \<Rightarrow> evaluation\<lparr>re_acceptedReason := ''UnsupportedValue'', re_acceptedMessage := Error err\<rparr>
           | Inr listener \<Rightarrow>
               if countAttachedRoutesForListener gateway listener attachedRoutes \<noteq> 1 then
                 evaluation\<lparr>re_acceptedReason := ''UnsupportedValue'',
                   re_acceptedMessage := ''Listener '' @ Quote (l_Name listener) @ '' supports exactly one attached TCPRoute.''\<rparr>
               else
                 evaluation\<lparr>re_acceptedStatus := ConditionTrue, re_acceptedReason := ''Accepted'',
                   re_acceptedMessage := ''TCPRoute accepted by clusterip-gw-controller.''\<rparr>)"

definition unresolved :: "routeEvaluation \<Rightarrow> string \<Rightarrow> string \<Rightarrow> routeEvaluation" where
  "unresolved evaluation reason message =
     evaluation\<lparr>re_resolvedStatus := ConditionFalse, re_resolvedReason := reason, re_resolvedMessage := message\<rparr>"

text \<open>The second half, the ResolvedRefs condition.\<close>

definition evaluateRouteBackend :: "'w cluster \<Rightarrow> TCPRoute \<Rightarrow> routeEvaluation \<Rightarrow> routeEvaluation" where
  "evaluateRouteBackend c route evaluation =
     (if length (tr_Rules route) \<noteq> 1 then
        unresolved evaluation ''UnsupportedValue'' ''Exactly one TCPRoute rule is supported.''
      else if length (tr_Rules route ! 0) \<noteq> 1 then
        unresolved evaluation ''UnsupportedValue'' ''Exactly one backendRef is supported.''
      else
        let backend = tr_Rules route ! 0 ! 0;
            grp = (case br_Group backend of None \<Rightarrow> [] | Some g \<Rightarrow> g);
            kind = string_or endpointSelectorKind (br_Kind backend) in
        if grp \<noteq> endpointSelectorAPIGroup \<or> kind \<noteq> endpointSelectorKind then
          unresolved evaluation ''InvalidKind''
            ''Only gateway.networking.x-k8s.io XEndpointSelector backendRefs are supported.''
        else
          let backendNamespace = string_or (tr_Namespace route) (br_Namespace backend) in
          if backendNamespace \<noteq> tr_Namespace route then
            unresolved evaluation ''RefNotPermitted''
              ''Cross-namespace XEndpointSelector backendRefs are not supported in this phase.''
          else if br_Port backend = None then
            unresolved evaluation ''BackendNotFound'' ''XEndpointSelector backendRefs must set port.''
          else
            case getEndpointSelector c (NamespacedName backendNamespace (br_Name backend)) of
              Inl err \<Rightarrow>
                if IsNotFound err then
                  unresolved evaluation ''BackendNotFound''
                    (''Backend XEndpointSelector '' @ backendNamespace @ ''/'' @ br_Name backend @ '' was not found.'')
                else unresolved evaluation ''BackendNotFound'' (Error err)
            | Inr selector \<Rightarrow>
                let (acceptedStatus, acceptedReason, acceptedMessage) = evaluateEndpointSelector c selector in
                if acceptedStatus \<noteq> ConditionTrue then
                  unresolved evaluation ''BackendNotFound''
                    (''Backend XEndpointSelector '' @ backendNamespace @ ''/'' @ br_Name backend
                     @ '' is not accepted: '' @ acceptedReason @ '': '' @ acceptedMessage)
                else evaluation)"

definition evaluateRoute ::
    "'w cluster \<Rightarrow> TCPRoute \<Rightarrow> ParentReference \<Rightarrow> Gateway \<Rightarrow> GatewayClass option \<Rightarrow> TCPRoute list \<Rightarrow> routeEvaluation" where
  "evaluateRoute c route parentRef gateway gatewayClass attachedRoutes =
     (let evaluation = \<lparr>re_acceptedStatus = ConditionFalse, re_acceptedReason = ''Pending'',
            re_acceptedMessage = ''Waiting for Gateway reconciliation.'', re_resolvedStatus = ConditionTrue,
            re_resolvedReason = ''ResolvedRefs'', re_resolvedMessage = ''Backend references resolved.''\<rparr> in
      if (case gatewayClass of None \<Rightarrow> True | Some cls \<Rightarrow> gc_ControllerName cls \<noteq> controllerName) then
        evaluation\<lparr>re_acceptedMessage :=
          ''GatewayClass '' @ Quote GatewayClassName @ '' is not accepted by this controller.''\<rparr>
      else evaluateRouteBackend c route (evaluateRouteParent c route parentRef gateway attachedRoutes evaluation))"

section \<open>Reconciling a route\<close>

text \<open>A lister read that tolerates a missing object, as the code reads the GatewayClass.\<close>

definition getGatewayClass :: "'w cluster \<Rightarrow> goerror + GatewayClass option" where
  "getGatewayClass c =
     (case gatewayClasses_Get c GatewayClassName of
        Inl err \<Rightarrow> if \<not> IsNotFound err then Inl err else Inr None
      | Inr cls \<Rightarrow> Inr (Some cls))"

text \<open>What one parent reference contributes: an error, nothing, or a status entry.\<close>

definition routeParentStatus :: "'w cluster \<Rightarrow> TCPRoute \<Rightarrow> ParentReference \<Rightarrow> goerror + RouteParentStatus option" where
  "routeParentStatus c route parentRef =
     (if \<not> isGatewayParentRef parentRef then Inr None
      else case gateways_Get c (string_or (tr_Namespace route) (pr_Namespace parentRef)) (pr_Name parentRef) of
             Inl err \<Rightarrow> if IsNotFound err then Inr None else Inl err
           | Inr gateway \<Rightarrow>
               if gw_GatewayClassName gateway \<noteq> GatewayClassName then Inr None
               else case getGatewayClass c of
                      Inl err \<Rightarrow> Inl err
                    | Inr gatewayClass \<Rightarrow>
                        (case listRoutesForGateway c (NamespacedName (gw_Namespace gateway) (gw_Name gateway)) of
                           Inl err \<Rightarrow> Inl err
                         | Inr attachedRoutes \<Rightarrow>
                             let evaluation = evaluateRoute c route parentRef gateway gatewayClass attachedRoutes in
                             Inr (Some \<lparr>rps_ParentRef = parentRef, rps_ControllerName = controllerName,
                               rps_Conditions = mergeConditions c []
                                 [condition c ''Accepted'' (re_acceptedStatus evaluation) (re_acceptedReason evaluation)
                                    (re_acceptedMessage evaluation) (om_Generation (tr_Meta route)),
                                  condition c ''ResolvedRefs'' (re_resolvedStatus evaluation) (re_resolvedReason evaluation)
                                    (re_resolvedMessage evaluation) (om_Generation (tr_Meta route))]\<rparr>)))"

fun routeParentStatuses :: "'w cluster \<Rightarrow> TCPRoute \<Rightarrow> ParentReference list \<Rightarrow> goerror + RouteParentStatus list" where
  "routeParentStatuses c route [] = Inr []"
| "routeParentStatuses c route (parentRef # parentRefs) =
     (case routeParentStatus c route parentRef of
        Inl err \<Rightarrow> Inl err
      | Inr entry \<Rightarrow>
          (case routeParentStatuses c route parentRefs of
             Inl err \<Rightarrow> Inl err
           | Inr entries \<Rightarrow> Inr (case entry of None \<Rightarrow> entries | Some e \<Rightarrow> e # entries)))"

definition reconcileRoute :: "'w cluster \<Rightarrow> string \<Rightarrow> 'w call" where
  "reconcileRoute c key w =
     (case getRoute c key of
        Inl err \<Rightarrow> if isNotFound (Some err) then (None, w) else (Some err, w)
      | Inr route \<Rightarrow>
          (case routeParentStatuses c route (tr_ParentRefs route) of
             Inl err \<Rightarrow> (Some err, w)
           | Inr desired \<Rightarrow>
               let updated = route\<lparr>tr_Parents := mergeRouteParents (tr_Parents route) desired\<rparr> in
               if routeStatusEqual route updated then (None, w) else TCPRoutes_UpdateStatus c updated w))"

section \<open>What a route needs\<close>

text \<open>The controller runs the class of the Gateway; the route hangs on exactly one listener of a valid
  Gateway and is alone there; its only backend is an accepted selector of its own namespace.\<close>

definition our_class :: "GatewayClass option \<Rightarrow> bool" where
  "our_class gatewayClass \<longleftrightarrow> (\<exists>cls. gatewayClass = Some cls \<and> gc_ControllerName cls = controllerName)"

definition alone_on_listener :: "'w cluster \<Rightarrow> TCPRoute \<Rightarrow> ParentReference \<Rightarrow> Gateway \<Rightarrow> TCPRoute list \<Rightarrow> bool" where
  "alone_on_listener c route parentRef g routes \<longleftrightarrow>
     tr_Namespace route = gw_Namespace g \<and> length (tr_ParentRefs route) = 1
     \<and> glv_valid (validateGatewayListeners c (Some g))
     \<and> (\<exists>l. filter (parentMatchesListener parentRef) (gw_Listeners g) = [l]
           \<and> length (attachedRoutesForListener g l routes) = 1)"

definition backend_resolves :: "'w cluster \<Rightarrow> TCPRoute \<Rightarrow> bool" where
  "backend_resolves c route \<longleftrightarrow>
     (\<exists>b port selector matches. tr_Rules route = [[b]] \<and> br_Group b = Some endpointSelectorAPIGroup
        \<and> string_or endpointSelectorKind (br_Kind b) = endpointSelectorKind
        \<and> string_or (tr_Namespace route) (br_Namespace b) = tr_Namespace route \<and> br_Port b = Some port
        \<and> getEndpointSelector c (NamespacedName (tr_Namespace route) (br_Name b)) = Inr selector
        \<and> LabelSelectorAsSelector c (xs_Selector selector) = Inr matches)"

lemma attaches_loop_iff:
  "attaches_loop route g l parents \<longleftrightarrow> (\<exists>p\<in>set parents. parentRefersTo route g p \<and> parentMatchesListener p l)"
  by (induction parents) auto

lemma attachedRoutes_fold:
  "fold (\<lambda>route out. if P route then out else if Q route then out @ [route] else out) routes acc =
     acc @ filter (\<lambda>r. \<not> P r \<and> Q r) routes"
  by (induction routes arbitrary: acc) auto

lemma attachedRoutesForListener_eq:
  "attachedRoutesForListener g l routes = go_sort route_key
     (filter (\<lambda>r. tr_Namespace r = gw_Namespace g
        \<and> (\<exists>p\<in>set (tr_ParentRefs r). parentRefersTo r g p \<and> parentMatchesListener p l)) routes)"
  by (simp add: attachedRoutesForListener_def attachedRoutes_fold attaches_loop_iff)

lemma resolveGatewayListener_Inr:
  "resolveGatewayListener c g parent = Inr l \<longleftrightarrow>
     glv_valid (validateGatewayListeners c (Some g)) \<and> filter (parentMatchesListener parent) (gw_Listeners g) = [l]"
  using validateGatewayListeners_Some(2) [of c g]
  by (auto simp: resolveGatewayListener_def Let_def split: list.splits)

lemma evaluateRouteParent_status:
  assumes "re_acceptedStatus e = ConditionFalse"
  shows "re_acceptedStatus (evaluateRouteParent c route p g routes e) = ConditionTrue \<longleftrightarrow> alone_on_listener c route p g routes"
    and "re_resolvedStatus (evaluateRouteParent c route p g routes e) = re_resolvedStatus e"
proof -
  show "re_resolvedStatus (evaluateRouteParent c route p g routes e) = re_resolvedStatus e"
    by (auto simp: evaluateRouteParent_def split: sum.splits)
  show "re_acceptedStatus (evaluateRouteParent c route p g routes e) = ConditionTrue \<longleftrightarrow> alone_on_listener c route p g routes"
  proof (cases "resolveGatewayListener c g p")
    case (Inl err)
    then have "\<not> (glv_valid (validateGatewayListeners c (Some g)) \<and> filter (parentMatchesListener p) (gw_Listeners g) = [l])" for l
      by (metis Inl_Inr_False resolveGatewayListener_Inr)
    with Inl assms show ?thesis
      by (auto simp: evaluateRouteParent_def alone_on_listener_def)
  next
    case (Inr l)
    then show ?thesis
      using assms Inr [unfolded resolveGatewayListener_Inr]
      by (auto simp: evaluateRouteParent_def alone_on_listener_def countAttachedRoutesForListener_def)
  qed
qed

lemma unresolved_simps [simp]:
  "re_resolvedStatus (unresolved e reason message) = ConditionFalse"
  "re_acceptedStatus (unresolved e reason message) = re_acceptedStatus e"
  by (simp_all add: unresolved_def)

lemma evaluateEndpointSelector_True:
  "fst (evaluateEndpointSelector c s) = ConditionTrue \<longleftrightarrow> (\<exists>matches. LabelSelectorAsSelector c (xs_Selector s) = Inr matches)"
  by (auto simp: evaluateEndpointSelector_def split: sum.splits)

lemma evaluateRouteBackend_accepted: "re_acceptedStatus (evaluateRouteBackend c route e) = re_acceptedStatus e"
  by (simp add: evaluateRouteBackend_def Let_def split: sum.splits prod.splits)

lemma evaluateRouteBackend_resolved:
  assumes "re_resolvedStatus e = ConditionTrue"
  shows "re_resolvedStatus (evaluateRouteBackend c route e) = ConditionTrue \<longleftrightarrow> backend_resolves c route"
proof (cases "\<exists>b. tr_Rules route = [[b]]")
  case True
  then obtain b where b: "tr_Rules route = [[b]]" by blast
  have ne: "endpointSelectorAPIGroup \<noteq> []" by (simp add: endpointSelectorAPIGroup_def)
  show ?thesis
    using assms ne
    by (auto simp: evaluateRouteBackend_def backend_resolves_def b Let_def evaluateEndpointSelector_def
        split: sum.splits option.splits)
next
  case False
  then have "length (tr_Rules route) \<noteq> 1 \<or> length (tr_Rules route ! 0) \<noteq> 1"
    by (metis One_nat_def length_0_conv length_Suc_conv nth_Cons_0)
  with False show ?thesis by (auto simp: evaluateRouteBackend_def backend_resolves_def)
qed

lemma evaluateRoute_status:
  "re_acceptedStatus (evaluateRoute c route p g cls routes) = ConditionTrue \<longleftrightarrow>
     our_class cls \<and> alone_on_listener c route p g routes"
  "our_class cls \<Longrightarrow> re_resolvedStatus (evaluateRoute c route p g cls routes) = ConditionTrue \<longleftrightarrow> backend_resolves c route"
proof -
  let ?bad = "case cls of None \<Rightarrow> True | Some k \<Rightarrow> gc_ControllerName k \<noteq> controllerName"
  have bad: "?bad \<longleftrightarrow> \<not> our_class cls" by (auto simp: our_class_def split: option.splits)
  show "re_acceptedStatus (evaluateRoute c route p g cls routes) = ConditionTrue \<longleftrightarrow>
     our_class cls \<and> alone_on_listener c route p g routes"
    by (simp add: evaluateRoute_def bad Let_def evaluateRouteBackend_accepted evaluateRouteParent_status)
  show "re_resolvedStatus (evaluateRoute c route p g cls routes) = ConditionTrue \<longleftrightarrow> backend_resolves c route"
    if "our_class cls"
    using that by (simp add: evaluateRoute_def bad Let_def evaluateRouteBackend_resolved evaluateRouteParent_status)
qed

text \<open>C31: Which routes the controller accepts. Under a GatewayClass of this controller a route is
  accepted exactly when it lives in the namespace of the Gateway, has one parentRef, the Gateway's
  listeners are valid, the parentRef selects exactly one of them and no other route is attached there; its
  references resolve exactly when its only rule has one backendRef, a selector of the route's namespace
  with a port, and that selector exists and compiles. Under any other class no route is accepted.\<close>

theorem evaluateRoute_correct:
  "if our_class cls
   then (re_acceptedStatus (evaluateRoute c route p g cls routes) = ConditionTrue) = alone_on_listener c route p g routes
     \<and> (re_resolvedStatus (evaluateRoute c route p g cls routes) = ConditionTrue) = backend_resolves c route
   else re_acceptedStatus (evaluateRoute c route p g cls routes) \<noteq> ConditionTrue"
  using evaluateRoute_status by fastforce

text \<open>A listener serves one route: when the parentRef of a route resolves to a listener and a second
  route of the same Gateway, in its namespace, has a parentRef that matches the listener too, the first
  route is not accepted. Neither of two competing routes wins.\<close>

lemma contested_listener_rejected:
  assumes "resolveGatewayListener c g p1 = Inr l"
    and "r1 \<in> set routes" and "p1 \<in> set (tr_ParentRefs r1)" and "parentRefersTo r1 g p1"
    and "r2 \<in> set routes" and "p2 \<in> set (tr_ParentRefs r2)" and "parentRefersTo r2 g p2"
    and "parentMatchesListener p2 l" and "tr_Namespace r2 = gw_Namespace g" and "r1 \<noteq> r2"
  shows "re_acceptedStatus (evaluateRoute c r1 p1 g cls routes) \<noteq> ConditionTrue"
proof
  assume "re_acceptedStatus (evaluateRoute c r1 p1 g cls routes) = ConditionTrue"
  then have one: "length (attachedRoutesForListener g l routes) = 1" and ns: "tr_Namespace r1 = gw_Namespace g"
    using assms(1) unfolding evaluateRoute_status resolveGatewayListener_Inr alone_on_listener_def by auto
  have "parentMatchesListener p1 l"
    using assms(1) unfolding resolveGatewayListener_Inr by (metis filter_eq_single_mem)
  then have "{r1, r2} \<subseteq> set (attachedRoutesForListener g l routes)"
    using assms ns unfolding attachedRoutesForListener_eq by auto
  with one assms(10) show False by (auto simp: length_Suc_conv)
qed

section \<open>Sample route\<close>

definition sample_route :: TCPRoute where
  "sample_route = \<lparr>tr_Meta = sample_meta ''default'' ''demo-route'',
     tr_ParentRefs = [\<lparr>pr_Group = None, pr_Kind = None, pr_Namespace = None, pr_Name = ''demo'',
       pr_SectionName = Some ''tcp'', pr_Port = None\<rparr>],
     tr_Rules = [[\<lparr>br_Group = Some endpointSelectorAPIGroup, br_Kind = None, br_Namespace = None, br_Name = ''app'',
       br_Port = Some 8080\<rparr>]], tr_Parents = []\<rparr>"

definition sample_class :: GatewayClass where
  "sample_class = \<lparr>gc_Meta = sample_meta [] GatewayClassName, gc_ControllerName = controllerName, gc_Conditions = []\<rparr>"

lemma sample_class_ours: "our_class (Some sample_class)"
  by (simp add: our_class_def sample_class_def)

lemma sample_listeners_valid: "glv_valid (validateGatewayListeners c (Some sample_gateway))"
  "glv_valid (validateGatewayListeners c (Some sample_gateway2))"
  by (simp_all add: validateGatewayListeners_Some sample_defs listener_supported_def allowedRoutesSupported_def)

lemmas sample_route_defs = sample_route_def parentRefersTo_def isGatewayParentRef_def string_or_def gatewayAPIGroup_def
  parentMatchesListener_def

lemma sample_attached:
  "attachedRoutesForListener sample_gateway sample_listener [sample_route] = [sample_route]"
  by (simp add: attachedRoutesForListener_eq sample_route_defs sample_defs)

lemma sample_route_alone:
  "alone_on_listener c sample_route (hd (tr_ParentRefs sample_route)) sample_gateway [sample_route]"
proof -
  have "filter (parentMatchesListener (hd (tr_ParentRefs sample_route))) (gw_Listeners sample_gateway) = [sample_listener]"
    by (simp add: sample_route_defs sample_defs)
  then show ?thesis
    unfolding alone_on_listener_def using sample_listeners_valid sample_attached
    by (auto simp: sample_route_def sample_defs)
qed

end
