(* ===== verification/GoNetip.thy ===== *)
theory GoNetip
  imports GoNet
begin

text \<open>
  The part of \<open>net/netip\<close> that the address allocator uses: IPv4 addresses as numbers, prefixes, masking
  and membership. An address of four bytes is read as a big-endian number (\<open>be_value\<close>); an IPv6 prefix
  is parsed, and otherwise only told apart from an IPv4 one.
\<close>

section \<open>Addresses as numbers\<close>

definition be_value :: "byte list \<Rightarrow> nat" where
  "be_value b = foldl (\<lambda>n x. 256 * n + unat x) 0 b"

definition be_bytes4 :: "nat \<Rightarrow> byte list" where
  "be_bytes4 v = [of_nat (v div 2 ^ 24), of_nat (v div 2 ^ 16), of_nat (v div 2 ^ 8), of_nat v]"

lemma be_value_Nil [simp]: "be_value [] = 0"
  by (simp add: be_value_def)

lemma be_value_snoc: "be_value (xs @ [x]) = 256 * be_value xs + unat x"
  by (simp add: be_value_def)

lemma be_value_append: "be_value (xs @ ys) = be_value xs * 256 ^ length ys + be_value ys"
proof (induction ys rule: rev_induct)
  case Nil
  then show ?case by simp
next
  case (snoc y ys)
  have "be_value (xs @ ys @ [y]) = 256 * be_value (xs @ ys) + unat y"
    using be_value_snoc [of "xs @ ys" y] by simp
  with snoc show ?case by (simp add: be_value_snoc algebra_simps)
qed

lemma be_value_less: "be_value b < 256 ^ length b"
proof (induction b rule: rev_induct)
  case Nil
  then show ?case by simp
next
  case (snoc x xs)
  define P where "P = (256 :: nat) ^ length xs"
  have "be_value xs < P" and x: "unat x < 256" using snoc by (simp_all add: P_def)
  then have "256 * be_value xs + unat x < 256 * P" by linarith
  then show ?case by (simp add: be_value_snoc P_def)
qed

lemma be_value_four: "be_value [a, b, c, d] = unat a * 2 ^ 24 + unat b * 2 ^ 16 + unat c * 2 ^ 8 + unat d"
  by (simp add: be_value_def)

lemma be_value_less4: "length b = 4 \<Longrightarrow> be_value b < 2 ^ 32"
  using be_value_less [of b] by simp

lemma be_value_inj: "length a = length b \<Longrightarrow> be_value a = be_value b \<Longrightarrow> a = b"
proof (induction a arbitrary: b rule: rev_induct)
  case Nil
  then show ?case by simp
next
  case (snoc x xs)
  then obtain y ys where b: "b = ys @ [y]" "length xs = length ys"
    by (metis length_append_singleton length_Suc_conv_rev)
  have eq: "256 * be_value xs + unat x = 256 * be_value ys + unat y"
    using snoc.prems(2) b by (simp add: be_value_snoc)
  have lt: "unat x < 256" "unat y < 256" by simp_all
  from eq have "(256 * be_value xs + unat x) mod 256 = (256 * be_value ys + unat y) mod 256" by (rule arg_cong)
  with lt have "unat x = unat y" by simp
  moreover from this eq have "be_value xs = be_value ys" by simp
  ultimately show ?case using snoc.IH b by (simp add: word_unat_eq_iff)
qed

lemma unat_of_nat_byte: "unat (of_nat n :: byte) = n mod 256"
  by (simp add: unat_of_nat)

lemma length_be_bytes4 [simp]: "length (be_bytes4 v) = 4"
  by (simp add: be_bytes4_def)

lemma be_value_bytes4:
  assumes "v < 2 ^ 32"
  shows "be_value (be_bytes4 v) = v"
proof -
  have d: "v div 65536 = v div 256 div 256" "v div 16777216 = v div 256 div 256 div 256"
    by (simp_all add: div_mult2_eq [symmetric])
  have "v div 256 div 256 div 256 mod 256 = v div 256 div 256 div 256" using assms by simp
  moreover have "n div 256 * 256 + n mod 256 = n" for n :: nat by simp
  ultimately have "((v div 256 div 256 div 256 mod 256 * 256 + v div 256 div 256 mod 256) * 256
      + v div 256 mod 256) * 256 + v mod 256 = v" by presburger
  then show ?thesis
    unfolding be_bytes4_def be_value_four unat_of_nat_byte by (simp add: d algebra_simps)
qed

lemma be_bytes4_value: "length b = 4 \<Longrightarrow> be_bytes4 (be_value b) = b"
  using be_value_bytes4 [OF be_value_less4, of b] by (intro be_value_inj) simp_all

section \<open>Addresses\<close>

definition Is4 :: "Addr \<Rightarrow> bool" where
  "Is4 a = (case a of Addr4 _ \<Rightarrow> True | _ \<Rightarrow> False)"

definition Is6 :: "Addr \<Rightarrow> bool" where
  "Is6 a = (case a of Addr6 _ _ \<Rightarrow> True | _ \<Rightarrow> False)"

definition Addr_IsValid :: "Addr \<Rightarrow> bool" where
  "Addr_IsValid a \<longleftrightarrow> a \<noteq> AddrZero"

text \<open>\<open>As4\<close> panics on the zero address and on an IPv6 address that is not IPv4-mapped.\<close>

definition As4 :: "Addr \<Rightarrow> goerror + byte list" where
  "As4 a =
     (case a of
        Addr4 b \<Rightarrow> Inr b
      | Addr6 b _ \<Rightarrow> if take 12 b = v4InV6Prefix then Inr (drop 12 b) else Inl (Panic ''As4 called on IPv6 address'')
      | AddrZero \<Rightarrow> Inl (Panic ''As4 called on IP zero value''))"

definition Addr_String :: "Addr \<Rightarrow> string" where
  "Addr_String a =
     (case a of
        AddrZero \<Rightarrow> ''invalid IP''
      | Addr4 b \<Rightarrow> ipv4_String b
      | Addr6 b zone \<Rightarrow>
          (if take 12 b = v4InV6Prefix then ''::ffff:'' @ ipv4_String (drop 12 b) else ipv6_String b)
          @ (if zone = [] then [] else CHR ''%'' # zone))"

section \<open>Prefixes\<close>

record Prefix =
  pfx_Addr :: Addr
  pfx_Bits :: nat

definition last_index :: "char \<Rightarrow> string \<Rightarrow> nat option" where
  "last_index c s = (if c \<in> set s then Some (length s - Suc (length (takeWhile (\<lambda>x. x \<noteq> c) (rev s)))) else None)"

text \<open>\<open>netip.ParsePrefix\<close>; its error is only tested.\<close>

definition ParsePrefix :: "string \<Rightarrow> Prefix option" where
  "ParsePrefix s =
     (case last_index CHR ''/'' s of
        None \<Rightarrow> None
      | Some i \<Rightarrow>
          (case ParseAddr (take i s) of
             None \<Rightarrow> None
           | Some ip \<Rightarrow>
               (if (case ip of Addr6 _ zone \<Rightarrow> zone \<noteq> [] | _ \<Rightarrow> False) then None
                else
                  let bitsStr = drop (Suc i) s in
                  if length bitsStr > 1 \<and> (hd bitsStr < CHR ''1'' \<or> hd bitsStr > CHR ''9'') then None
                  else case Atoi bitsStr of
                         None \<Rightarrow> None
                       | Some bits \<Rightarrow>
                           if bits < 0 \<or> bits > (if Is6 ip then 128 else 32) then None
                           else Some \<lparr>pfx_Addr = ip, pfx_Bits = nat bits\<rparr>)))"

text \<open>The address with the bits after the prefix cleared. IPv6 prefixes never get here; they are
  returned unchanged.\<close>

definition Masked :: "Prefix \<Rightarrow> Prefix" where
  "Masked p =
     (case pfx_Addr p of
        Addr4 b \<Rightarrow> p\<lparr>pfx_Addr := Addr4 (be_bytes4 (be_value b div 2 ^ (32 - pfx_Bits p) * 2 ^ (32 - pfx_Bits p)))\<rparr>
      | _ \<Rightarrow> p)"

definition Contains :: "Prefix \<Rightarrow> Addr \<Rightarrow> bool" where
  "Contains p ip =
     (case (pfx_Addr p, ip) of
        (Addr4 b, Addr4 a) \<Rightarrow> be_value a div 2 ^ (32 - pfx_Bits p) = be_value b div 2 ^ (32 - pfx_Bits p)
      | (Addr6 b _, Addr6 a zone) \<Rightarrow>
          zone = [] \<and> be_value a div 2 ^ (128 - pfx_Bits p) = be_value b div 2 ^ (128 - pfx_Bits p)
      | _ \<Rightarrow> False)"

definition Prefix_String :: "Prefix \<Rightarrow> string" where
  "Prefix_String p = Addr_String (pfx_Addr p) @ ''/'' @ itoa_nat (pfx_Bits p)"

text \<open>A well-formed IPv4 prefix, and its range of addresses.\<close>

definition prefix4 :: "Prefix \<Rightarrow> bool" where
  "prefix4 p \<longleftrightarrow> pfx_Bits p \<le> 32 \<and> (\<exists>b. pfx_Addr p = Addr4 b \<and> length b = 4)"

definition prefix_base :: "Prefix \<Rightarrow> nat" where
  "prefix_base p = (case pfx_Addr p of Addr4 b \<Rightarrow> be_value b | _ \<Rightarrow> 0)"

definition prefix_size :: "Prefix \<Rightarrow> nat" where
  "prefix_size p = 2 ^ (32 - pfx_Bits p)"

definition masked4 :: "Prefix \<Rightarrow> bool" where
  "masked4 p \<longleftrightarrow> prefix4 p \<and> prefix_size p dvd prefix_base p"

lemma prefix_size_pos [simp]: "0 < prefix_size p"
  by (simp add: prefix_size_def)

lemma prefix4_base_less:
  assumes "prefix4 p"
  shows "prefix_base p < 2 ^ 32"
proof -
  obtain b where b: "pfx_Addr p = Addr4 b" "length b = 4" using assms by (auto simp: prefix4_def)
  show ?thesis using be_value_less4 [OF b(2)] by (simp add: prefix_base_def b)
qed

lemma masked4_Masked:
  assumes "prefix4 p"
  shows "masked4 (Masked p)" "pfx_Bits (Masked p) = pfx_Bits p"
    "prefix_base (Masked p) = prefix_base p div prefix_size p * prefix_size p"
proof -
  obtain b where b: "pfx_Addr p = Addr4 b" "length b = 4" using assms by (auto simp: prefix4_def)
  have "be_value b div prefix_size p * prefix_size p \<le> be_value b" by simp
  then have "be_value b div prefix_size p * prefix_size p < 2 ^ 32"
    using be_value_less4 [OF b(2)] by linarith
  then show "prefix_base (Masked p) = prefix_base p div prefix_size p * prefix_size p"
    by (simp add: Masked_def prefix_base_def prefix_size_def b be_value_bytes4)
  then show "masked4 (Masked p)"
    using assms by (auto simp: masked4_def prefix4_def Masked_def prefix_size_def b)
  show "pfx_Bits (Masked p) = pfx_Bits p" by (simp add: Masked_def b)
qed

text \<open>A masked prefix holds the addresses from its base on, as many as its size.\<close>

lemma masked4_range:
  assumes "masked4 p"
  shows "prefix_base p + prefix_size p \<le> 2 ^ 32"
proof -
  have "prefix_size p dvd 2 ^ 32" unfolding prefix_size_def by (rule le_imp_power_dvd) simp
  then obtain k where k: "2 ^ 32 = prefix_size p * k" ..
  obtain j where j: "prefix_base p = prefix_size p * j" using assms unfolding masked4_def dvd_def by blast
  have "prefix_size p * j < prefix_size p * k"
    using prefix4_base_less assms unfolding masked4_def k [symmetric] j [symmetric] by blast
  then have "prefix_size p * Suc j \<le> prefix_size p * k" by (simp del: mult_Suc_right)
  then show ?thesis using j k by simp
qed

lemma Contains_masked4:
  assumes "masked4 p" and "length a = 4"
  shows "Contains p (Addr4 a) \<longleftrightarrow> prefix_base p \<le> be_value a \<and> be_value a < prefix_base p + prefix_size p"
proof -
  obtain b where b: "pfx_Addr p = Addr4 b" using assms by (auto simp: masked4_def prefix4_def)
  obtain j where j: "prefix_base p = j * prefix_size p" using assms(1) unfolding masked4_def dvd_def by (metis mult.commute)
  have "Contains p (Addr4 a) \<longleftrightarrow> be_value a div prefix_size p = j"
    using j by (simp add: Contains_def b prefix_base_def prefix_size_def)
  also have "\<dots> \<longleftrightarrow> j * prefix_size p \<le> be_value a \<and> be_value a < Suc j * prefix_size p"
    using less_eq_div_iff_mult_less_eq [OF prefix_size_pos, of j "be_value a" p]
      div_less_iff_less_mult [OF prefix_size_pos, of "be_value a" p "Suc j"] by linarith
  finally show ?thesis by (simp add: j add.commute)
qed

end
