(* ===== verification/IPAM.thy ===== *)
theory IPAM
  imports GoNetip Indexers Status
begin

text \<open>
  \<open>internal/controller/ipam.go\<close>: the virtual IP of a Gateway is an \<open>IPAddress\<close> object of the API
  server, allocated first-fit from the ready IPv4 ServiceCIDRs, found again through the index by
  Gateway, and released before the controller's finalizer goes away. The byte loops \<open>nextAddr\<close> and
  \<open>lastAddr\<close> are translated as they are and shown to be the successor and the last address of the
  prefix, and the allocation loop to try the host addresses of the prefixes in order.
\<close>

section \<open>Address arithmetic\<close>

text \<open>The loop of \<open>nextAddr\<close>, with the number of bytes still to look at.\<close>

fun next_loop :: "nat \<Rightarrow> byte list \<Rightarrow> byte list option" where
  "next_loop 0 next = None"
| "next_loop (Suc i) next =
     (let next' = next[i := next ! i + 1] in if next' ! i \<noteq> 0 then Some next' else next_loop i next')"

definition nextAddr :: "Addr \<Rightarrow> goerror + Addr" where
  "nextAddr addr =
     (if \<not> Addr_IsValid addr then Inr AddrZero
      else case As4 addr of
             Inl err \<Rightarrow> Inl err
           | Inr next \<Rightarrow>
               (case next_loop (length next) next of Some b \<Rightarrow> Inr (Addr4 b) | None \<Rightarrow> Inr AddrZero))"

definition firstAllocatable :: "Prefix \<Rightarrow> goerror + Addr" where
  "firstAllocatable prefix = nextAddr (pfx_Addr prefix)"

definition set_addr_bit :: "nat \<Rightarrow> byte list \<Rightarrow> byte list" where
  "set_addr_bit i addr = addr[i div 8 := addr ! (i div 8) OR push_bit (7 - i mod 8) 1]"

definition lastAddr :: "Prefix \<Rightarrow> goerror + Addr" where
  "lastAddr prefix =
     (case As4 (pfx_Addr (Masked prefix)) of
        Inl err \<Rightarrow> Inl err
      | Inr addr \<Rightarrow> Inr (Addr4 (fold set_addr_bit [pfx_Bits prefix..<32] addr)))"

definition isLastAddress :: "Prefix \<Rightarrow> Addr \<Rightarrow> goerror + bool" where
  "isLastAddress prefix addr = (case lastAddr prefix of Inl err \<Rightarrow> Inl err | Inr l \<Rightarrow> Inr (addr = l))"

section \<open>Reading the caches\<close>

definition deleteString :: "string list \<Rightarrow> string \<Rightarrow> string list" where
  "deleteString values target = fold (\<lambda>value filtered. if value = target then filtered else filtered @ [value]) values []"

fun ready_loop :: "Condition list \<Rightarrow> bool" where
  "ready_loop [] = True"
| "ready_loop (cond # conds) =
     (if c_Type cond \<noteq> ''Ready'' then ready_loop conds else c_Status cond = ConditionTrue)"

definition serviceCIDRReady :: "ServiceCIDR option \<Rightarrow> bool" where
  "serviceCIDRReady serviceCIDR =
     (case serviceCIDR of
        None \<Rightarrow> False
      | Some sc \<Rightarrow> if length (sc_Conditions sc) = 0 then True else ready_loop (sc_Conditions sc))"

definition cidr_prefixes :: "string list \<Rightarrow> Prefix list \<Rightarrow> Prefix list" where
  "cidr_prefixes raws out =
     fold (\<lambda>raw out. case ParsePrefix raw of
                       None \<Rightarrow> out
                     | Some prefix \<Rightarrow> if \<not> Is4 (pfx_Addr prefix) then out else out @ [Masked prefix]) raws out"

definition listIPv4ServiceCIDRs :: "'w cluster \<Rightarrow> goerror + Prefix list" where
  "listIPv4ServiceCIDRs c =
     (case serviceCIDRs_List c of
        Inl err \<Rightarrow> Inl err
      | Inr items \<Rightarrow>
          Inr (go_sort Prefix_String
            (fold (\<lambda>item out.
               case item of
                 None \<Rightarrow> out
               | Some serviceCIDR \<Rightarrow>
                   if om_DeletionTimestamp (sc_Meta serviceCIDR) \<noteq> None then out
                   else if \<not> serviceCIDRReady (Some serviceCIDR) then out
                   else cidr_prefixes (sc_CIDRs serviceCIDR) out) items [])))"

definition listTakenIPs :: "'w cluster \<Rightarrow> goerror + string set" where
  "listTakenIPs c =
     (case ipAddresses_List c of
        Inl err \<Rightarrow> Inl err
      | Inr items \<Rightarrow>
          Inr (fold (\<lambda>item out. case item of None \<Rightarrow> out | Some ip \<Rightarrow> insert (om_Name (ip_Meta ip)) out) items {}))"

definition listOwnedGatewayIPAddresses :: "'w cluster \<Rightarrow> NamespacedName \<Rightarrow> goerror + IPAddress list" where
  "listOwnedGatewayIPAddresses c key =
     (case ipAddresses_ByIndex c ipAddressByGatewayIndex (namespacedKey key) of
        Inl err \<Rightarrow> Inl err
      | Inr items \<Rightarrow>
          Inr (fold (\<lambda>item out.
             case item of
               OIPAddress ip \<Rightarrow>
                 if label (ip_Meta ip) managedByLabelKey \<noteq> managedByLabelValue then out else out @ [ip]
             | _ \<Rightarrow> out) items []))"

section \<open>Allocation\<close>

abbreviation gateway_key :: "Gateway \<Rightarrow> NamespacedName" where
  "gateway_key g \<equiv> NamespacedName (gw_Namespace g) (gw_Name g)"

definition gatewayIPAddress :: "Gateway \<Rightarrow> Addr \<Rightarrow> IPAddress" where
  "gatewayIPAddress gateway candidate =
     \<lparr>ip_Meta = emptyMeta\<lparr>om_Name := Addr_String candidate,
        om_Labels := [ipFamilyLabelKey \<mapsto> ipFamilyIPv4Value, managedByLabelKey \<mapsto> managedByLabelValue]\<rparr>,
      ip_ParentRef = Some \<lparr>ipr_Group = gatewayAPIGroup, ipr_Resource = ''gateways'',
        ipr_Namespace = gw_Namespace gateway, ipr_Name = gw_Name gateway\<rparr>\<rparr>"

definition addr_measure :: "Addr \<Rightarrow> nat" where
  "addr_measure a =
     (case a of AddrZero \<Rightarrow> 0 | Addr4 b \<Rightarrow> 256 ^ length b - be_value b | Addr6 b _ \<Rightarrow> Suc (256 ^ length b))"

text \<open>The candidates of one prefix: the address that was reserved, if any, and the grown set of taken
  addresses.\<close>

function alloc_loop ::
    "'w cluster \<Rightarrow> Gateway \<Rightarrow> Prefix \<Rightarrow> Addr \<Rightarrow> string set \<Rightarrow> 'w \<Rightarrow>
      (goerror + string option \<times> string set) \<times> 'w" where
  "alloc_loop c gateway prefix candidate taken w =
     (if \<not> (Addr_IsValid candidate \<and> Contains prefix candidate) then (Inr (None, taken), w)
      else case isLastAddress prefix candidate of
             Inl err \<Rightarrow> (Inl err, w)
           | Inr isLast \<Rightarrow>
               if isLast then (Inr (None, taken), w)
               else if Addr_String candidate \<in> taken then
                 (case nextAddr candidate of
                    Inl err \<Rightarrow> (Inl err, w)
                  | Inr candidate' \<Rightarrow> alloc_loop c gateway prefix candidate' taken w)
               else
                 (case IPAddresses_Create c (gatewayIPAddress gateway candidate) w of
                    (None, w') \<Rightarrow> (Inr (Some (Addr_String candidate), taken), w')
                  | (Some err, w') \<Rightarrow>
                      if IsAlreadyExists err then
                        (case nextAddr candidate of
                           Inl err' \<Rightarrow> (Inl err', w')
                         | Inr candidate' \<Rightarrow>
                             alloc_loop c gateway prefix candidate' (insert (Addr_String candidate) taken) w')
                      else (Inl err, w')))"
  by pat_completeness auto

lemma byte_max:
  assumes "x + 1 = (0 :: byte)"
  shows "unat x = 255"
proof -
  from assms have "x = - 1" by (simp add: eq_neg_iff_add_eq_0)
  then show ?thesis by (simp add: unsigned_minus_1_eq_mask mask_eq_exp_minus_1)
qed

lemma next_loop_Some:
  "next_loop (length xs) (xs @ ys) = Some b \<Longrightarrow>
    \<exists>xs'. b = xs' @ ys \<and> length xs' = length xs \<and> be_value xs' = be_value xs + 1"
proof (induction xs arbitrary: ys rule: rev_induct)
  case Nil
  then show ?case by simp
next
  case (snoc x xs)
  have upd: "(xs @ x # ys)[length xs := y] = xs @ y # ys" for y by simp
  show ?case
  proof (cases "x + 1 = 0")
    case False
    then have "unat (x + 1) = unat x + 1" by (metis Suc_eq_plus1 add.commute unatSuc)
    with False snoc.prems show ?thesis
      by (intro exI [of _ "xs @ [x + 1]"]) (simp add: be_value_snoc)
  next
    case True
    then have x: "unat x = 255" by (rule byte_max)
    have "next_loop (length xs) (xs @ (x + 1) # ys) = Some b" using snoc.prems True by simp
    then obtain xs' where "b = xs' @ (x + 1) # ys" "length xs' = length xs" "be_value xs' = be_value xs + 1"
      using snoc.IH by blast
    then show ?thesis
      using True x by (intro exI [of _ "xs' @ [0]"]) (simp add: be_value_snoc)
  qed
qed

lemma next_loop_None:
  "next_loop (length xs) (xs @ ys) = None \<Longrightarrow> be_value xs + 1 = 256 ^ length xs"
proof (induction xs arbitrary: ys rule: rev_induct)
  case Nil
  then show ?case by simp
next
  case (snoc x xs)
  then have x: "x + 1 = 0" by (auto simp: Let_def split: if_splits)
  with snoc.prems have "next_loop (length xs) (xs @ (x + 1) # ys) = None" by simp
  then have "be_value xs + 1 = 256 ^ length xs" by (rule snoc.IH)
  moreover have "256 * be_value xs + 255 + 1 = 256 * (be_value xs + 1)" by simp
  ultimately show ?case by (simp add: be_value_snoc byte_max [OF x])
qed

lemma nextAddr_measure:
  assumes "nextAddr a = Inr a'" and "Addr_IsValid a"
  shows "addr_measure a' < addr_measure a"
proof -
  have next4: "addr_measure (case next_loop (length b) b of Some b' \<Rightarrow> Addr4 b' | None \<Rightarrow> AddrZero) < 256 ^ length b - be_value b"
    for b
    using next_loop_Some [of b "[]"] be_value_less [of b]
    by (auto simp: addr_measure_def intro: diff_less_mono2 split: option.splits)
  show ?thesis
  proof (cases a)
    case AddrZero
    with assms show ?thesis by (simp add: Addr_IsValid_def)
  next
    case (Addr4 b)
    with assms next4 [of b] show ?thesis
      by (auto simp: nextAddr_def As4_def addr_measure_def [of "Addr4 b"] split: option.splits)
  next
    case (Addr6 b z)
    have "(256 :: nat) ^ length (drop 12 b) \<le> 256 ^ length b" by (rule power_increasing) simp_all
    then have "addr_measure (case next_loop (length (drop 12 b)) (drop 12 b) of Some b' \<Rightarrow> Addr4 b' | None \<Rightarrow> AddrZero)
        < Suc (256 ^ length b)"
      using next4 [of "drop 12 b"] by linarith
    with Addr6 assms show ?thesis
      by (auto simp: nextAddr_def As4_def addr_measure_def [of "Addr6 b z"] split: option.splits if_splits)
  qed
qed

termination alloc_loop
  by (relation "measure (\<lambda>(c, g, p, a, t, w). addr_measure a)") (auto simp: nextAddr_measure)

declare alloc_loop.simps [simp del]

fun alloc_prefixes :: "'w cluster \<Rightarrow> Gateway \<Rightarrow> Prefix list \<Rightarrow> string set \<Rightarrow> 'w \<Rightarrow> (goerror + string) \<times> 'w" where
  "alloc_prefixes c gateway [] taken w = (Inl (ErrorString ''all IPv4 ServiceCIDR addresses are allocated''), w)"
| "alloc_prefixes c gateway (prefix # cidrs) taken w =
     (case firstAllocatable prefix of
        Inl err \<Rightarrow> (Inl err, w)
      | Inr candidate \<Rightarrow>
          (case alloc_loop c gateway prefix candidate taken w of
             (Inl err, w') \<Rightarrow> (Inl err, w')
           | (Inr (Some vip, _), w') \<Rightarrow> (Inr vip, w')
           | (Inr (None, taken'), w') \<Rightarrow> alloc_prefixes c gateway cidrs taken' w'))"

definition ensureGatewayVIP :: "'w cluster \<Rightarrow> Gateway \<Rightarrow> 'w \<Rightarrow> (goerror + string) \<times> 'w" where
  "ensureGatewayVIP c gateway w =
     (case listOwnedGatewayIPAddresses c (gateway_key gateway) of
        Inl err \<Rightarrow> (Inl err, w)
      | Inr owned0 \<Rightarrow>
          if length owned0 > 0 then
            let owned = go_sort (\<lambda>ip. om_Name (ip_Meta ip)) owned0 in
            (case for_each IsNotFound (\<lambda>ip. IPAddresses_Delete c (om_Name (ip_Meta ip))) (tl owned) w of
               (Some err, w') \<Rightarrow> (Inl err, w')
             | (None, w') \<Rightarrow> (Inr (om_Name (ip_Meta (hd owned))), w'))
          else
            (case listIPv4ServiceCIDRs c of
               Inl err \<Rightarrow> (Inl err, w)
             | Inr cidrs \<Rightarrow>
                 if length cidrs = 0
                 then (Inl (ErrorString ''no IPv4 ServiceCIDR ranges are available for allocation''), w)
                 else (case listTakenIPs c of
                         Inl err \<Rightarrow> (Inl err, w)
                       | Inr taken \<Rightarrow> alloc_prefixes c gateway cidrs taken w)))"

definition releaseGatewayIPAddresses :: "'w cluster \<Rightarrow> Gateway \<Rightarrow> 'w call" where
  "releaseGatewayIPAddresses c gateway w =
     (case listOwnedGatewayIPAddresses c (gateway_key gateway) of
        Inl err \<Rightarrow> (Some err, w)
      | Inr owned \<Rightarrow> for_each IsNotFound (\<lambda>ip. IPAddresses_Delete c (om_Name (ip_Meta ip))) owned w)"

section \<open>Finalizer and cleanup\<close>

definition gateway_with_finalizers :: "Gateway \<Rightarrow> string list \<Rightarrow> Gateway" where
  "gateway_with_finalizers g fs = g\<lparr>gw_Meta := (gw_Meta g)\<lparr>om_Finalizers := fs\<rparr>\<rparr>"

definition ensureGatewayFinalizer :: "'w cluster \<Rightarrow> Gateway \<Rightarrow> 'w \<Rightarrow> (goerror + bool) \<times> 'w" where
  "ensureGatewayFinalizer c gateway w =
     (if controllerFinalizer \<in> set (om_Finalizers (gw_Meta gateway)) then (Inr False, w)
      else case Gateways_Get c (gw_Namespace gateway) (gw_Name gateway) w of
             (Inl err, w1) \<Rightarrow> (Inl err, w1)
           | (Inr updated, w1) \<Rightarrow>
               if controllerFinalizer \<in> set (om_Finalizers (gw_Meta updated)) then (Inr False, w1)
               else case Gateways_Update c (gateway_with_finalizers updated
                           (om_Finalizers (gw_Meta updated) @ [controllerFinalizer])) w1 of
                      (Some err, w2) \<Rightarrow> (Inl err, w2)
                    | (None, w2) \<Rightarrow> (Inr True, w2))"

definition removeGatewayFinalizer :: "'w cluster \<Rightarrow> Gateway \<Rightarrow> 'w call" where
  "removeGatewayFinalizer c gateway w =
     (case Gateways_Get c (gw_Namespace gateway) (gw_Name gateway) w of
        (Inl err, w1) \<Rightarrow> if IsNotFound err then (None, w1) else (Some err, w1)
      | (Inr current, w1) \<Rightarrow>
          if controllerFinalizer \<notin> set (om_Finalizers (gw_Meta current)) then (None, w1)
          else case Gateways_Update c (gateway_with_finalizers current
                      (deleteString (om_Finalizers (gw_Meta current)) controllerFinalizer)) w1 of
                 (Some err, w2) \<Rightarrow> if IsNotFound err then (None, w2) else (Some err, w2)
               | (None, w2) \<Rightarrow> (None, w2))"

definition cleanupGatewayResources :: "'w cluster \<Rightarrow> Gateway \<Rightarrow> 'w call" where
  "cleanupGatewayResources c gateway w =
     (case releaseGatewayIPAddresses c gateway w of
        (Some err, w1) \<Rightarrow> (Some err, w1)
      | (None, w1) \<Rightarrow> removeGatewayFinalizer c gateway w1)"

definition gatewayPreviouslyManaged :: "'w cluster \<Rightarrow> Gateway \<Rightarrow> goerror + bool" where
  "gatewayPreviouslyManaged c gateway =
     (if controllerFinalizer \<in> set (om_Finalizers (gw_Meta gateway)) then Inr True
      else case listOwnedGatewayIPAddresses c (gateway_key gateway) of
             Inl err \<Rightarrow> Inl err
           | Inr owned \<Rightarrow> Inr (length owned > 0))"

definition clearManagedGatewayStatus :: "'w cluster \<Rightarrow> Gateway \<Rightarrow> 'w call" where
  "clearManagedGatewayStatus c gateway w =
     (let updated = gateway\<lparr>gw_Addresses := [], gw_ListenerStatuses := [],
            gw_Conditions := removeConditions (gw_Conditions gateway) [''Accepted'', ''Programmed'']\<rparr> in
      if gatewayStatusEqual gateway updated then (None, w) else Gateways_UpdateStatus c updated w)"

section \<open>Successor and last address\<close>

lemma nextAddr_Addr4:
  assumes "length b = 4"
  shows "nextAddr (Addr4 b) =
    Inr (if be_value b + 1 < 2 ^ 32 then Addr4 (be_bytes4 (be_value b + 1)) else AddrZero)"
proof (cases "next_loop (length b) b")
  case None
  then have "be_value b + 1 = 2 ^ 32" using next_loop_None [of b "[]"] assms by simp
  with None show ?thesis by (simp add: nextAddr_def Addr_IsValid_def As4_def)
next
  case (Some b')
  then have b': "length b' = 4" "be_value b' = be_value b + 1"
    using next_loop_Some [of b "[]" b'] assms by auto
  then have "be_value b + 1 < 2 ^ 32" "b' = be_bytes4 (be_value b + 1)"
    using be_value_less4 [OF b'(1)] be_bytes4_value [OF b'(1)] by simp_all
  with Some show ?thesis by (simp add: nextAddr_def Addr_IsValid_def As4_def)
qed

lemma unat_or_bit:
  assumes "2 ^ Suc m dvd unat x" and "m < 8"
  shows "unat (x OR push_bit m 1 :: byte) = unat x + 2 ^ m"
proof -
  have nb: "\<not> bit (unat x) m"
    using assms(1) by (metis bit_iff_odd dvd_div_iff_mult dvd_mult_imp_div even_mult_iff power_Suc power_eq_0_iff
        zero_neq_numeral)
  have "unat (push_bit m 1 :: byte) = 2 ^ m"
  proof -
    have "(2 :: nat) ^ m < 2 ^ 8" using assms(2) by (intro power_strict_increasing) simp_all
    with assms(2) show ?thesis by (subst unsigned_push_bit_eq) (simp add: take_bit_nat_eq_self push_bit_of_1)
  qed
  then have "unat (x OR push_bit m 1) = unat x OR push_bit m 1"
    by (simp add: unsigned_or_eq push_bit_of_1)
  also have "\<dots> = unat x + push_bit m 1"
    by (rule disjunctive_add [symmetric]) (use nb in \<open>auto simp: push_bit_of_1 bit_exp_iff\<close>)
  finally show ?thesis by (simp add: push_bit_of_1)
qed

lemma set_addr_bit_value:
  assumes "length b = 4" and "i < 32" and "2 ^ (32 - i) dvd be_value b"
  shows "be_value (set_addr_bit i b) = be_value b + 2 ^ (31 - i)" "length (set_addr_bit i b) = 4"
proof -
  define j m where "j = i div 8" and "m = 7 - i mod 8"
  have j: "j < 4" using assms(2) by (simp add: j_def)
  define xs ys where "xs = take j b" and "ys = drop (Suc j) b"
  have b: "b = xs @ [b ! j] @ ys" using j assms(1) by (simp add: xs_def ys_def id_take_nth_drop)
  have len: "length xs = j" "length ys = 3 - j" using j assms(1) by (simp_all add: xs_def ys_def)
  let ?e = "8 * (3 - j)"
  have e: "32 - i = ?e + Suc m" "31 - i = ?e + m" using assms(2) unfolding j_def m_def by presburger+
  have p256: "(256 :: nat) ^ length ys = 2 ^ ?e" by (simp add: len power_mult)
  have val: "be_value (xs @ [x] @ ys) = (256 * be_value xs + unat x) * 2 ^ ?e + be_value ys" for x
    using be_value_append [of "xs @ [x]" ys] unfolding be_value_snoc p256 by simp
  have bv: "be_value b = (256 * be_value xs + unat (b ! j)) * 2 ^ ?e + be_value ys"
    by (rule trans [OF arg_cong [OF b, of be_value] val])
  have "2 ^ ?e dvd be_value b" using assms(3) unfolding e(1) power_add by (rule dvd_mult_left)
  then have "2 ^ ?e dvd be_value ys" unfolding bv by (simp add: dvd_add_right_iff)
  moreover have "be_value ys < 2 ^ ?e" using be_value_less [of ys] unfolding p256 .
  ultimately have ys: "be_value ys = 0" using dvd_imp_le by (meson leD not_gr_zero)
  have "2 ^ ?e * 2 ^ Suc m dvd 2 ^ ?e * (256 * be_value xs + unat (b ! j))"
    using assms(3) unfolding e(1) power_add bv by (simp add: ys mult.commute)
  then have "2 ^ Suc m dvd 256 * be_value xs + unat (b ! j)" by (simp del: power_Suc)
  moreover have "(2 :: nat) ^ Suc m dvd 2 ^ 8 * be_value xs"
    by (intro dvd_mult2 le_imp_power_dvd) (simp add: m_def)
  ultimately have "2 ^ Suc m dvd unat (b ! j)" by (simp add: dvd_add_right_iff del: power_Suc)
  then have u: "unat (b ! j OR push_bit m 1) = unat (b ! j) + 2 ^ m" by (rule unat_or_bit) (simp add: m_def)
  have "set_addr_bit i b = xs @ [b ! j OR push_bit m 1] @ ys"
    using j assms(1) by (simp add: set_addr_bit_def upd_conv_take_nth_drop xs_def ys_def flip: j_def m_def)
  then have "be_value (set_addr_bit i b) = (256 * be_value xs + (unat (b ! j) + 2 ^ m)) * 2 ^ ?e + be_value ys"
    by (simp only: val u)
  then show "be_value (set_addr_bit i b) = be_value b + 2 ^ (31 - i)"
    unfolding bv by (simp add: e(2) power_add algebra_simps)
  show "length (set_addr_bit i b) = 4" using assms(1) by (simp add: set_addr_bit_def)
qed

lemma set_addr_bits_value:
  assumes "length b = 4" and "n \<le> 32" and "2 ^ (32 - n) dvd be_value b"
  shows "be_value (fold set_addr_bit [n..<32] b) = be_value b + (2 ^ (32 - n) - 1)
    \<and> length (fold set_addr_bit [n..<32] b) = 4"
  using assms
proof (induction "32 - n" arbitrary: n b)
  case 0
  then show ?case by simp
next
  case (Suc k)
  then have n: "n < 32" by simp
  let ?b = "set_addr_bit n b"
  have v: "be_value ?b = be_value b + 2 ^ (31 - n)" "length ?b = 4"
    using set_addr_bit_value [OF Suc.prems(1) n Suc.prems(3)] by simp_all
  have s: "32 - n = Suc (31 - n)" "32 - Suc n = 31 - n" using n by simp_all
  have "2 ^ (31 - n) dvd be_value b"
    using Suc.prems(3) unfolding s power_Suc by (rule dvd_mult_right)
  then have "2 ^ (32 - Suc n) dvd be_value ?b" unfolding v(1) s(2) by simp
  with Suc.hyps(1) [of "Suc n" ?b] Suc.hyps(2) n v(2)
  have "be_value (fold set_addr_bit [Suc n..<32] ?b) = be_value ?b + (2 ^ (32 - Suc n) - 1)
    \<and> length (fold set_addr_bit [Suc n..<32] ?b) = 4" by simp
  moreover have "(1 :: nat) \<le> 2 ^ (31 - n)" by simp
  ultimately show ?case
    using n by (simp add: upt_conv_Cons v(1) s)
qed

lemma lastAddr_prefix4:
  assumes "prefix4 p"
  shows "lastAddr p = Inr (Addr4 (be_bytes4 (prefix_base (Masked p) + prefix_size p - 1)))"
proof -
  note m = masked4_Masked [OF assms]
  obtain b where b: "pfx_Addr (Masked p) = Addr4 b" "length b = 4" "be_value b = prefix_base (Masked p)"
    using m(1) by (auto simp: masked4_def prefix4_def prefix_base_def)
  let ?l = "fold set_addr_bit [pfx_Bits p..<32] b"
  have dvd: "2 ^ (32 - pfx_Bits p) dvd be_value b"
    using m(1,2) by (simp add: masked4_def b(3) prefix_size_def)
  have "be_value ?l = be_value b + (prefix_size p - 1) \<and> length ?l = 4"
    using set_addr_bits_value [OF b(2) _ dvd] assms unfolding prefix4_def prefix_size_def by blast
  then have "be_value ?l = prefix_base (Masked p) + prefix_size p - 1" "length ?l = 4"
    using prefix_size_pos [of p] by (auto simp: b(3))
  then have "?l = be_bytes4 (prefix_base (Masked p) + prefix_size p - 1)" by (metis be_bytes4_value)
  then show ?thesis by (simp add: lastAddr_def b As4_def)
qed

section \<open>The allocation as a first fit\<close>

text \<open>The reference: try a list of addresses in order.\<close>

fun try_hosts :: "'w cluster \<Rightarrow> Gateway \<Rightarrow> Addr list \<Rightarrow> string set \<Rightarrow> 'w \<Rightarrow> (goerror + string option \<times> string set) \<times> 'w" where
  "try_hosts c gateway [] taken w = (Inr (None, taken), w)"
| "try_hosts c gateway (a # as) taken w =
     (if Addr_String a \<in> taken then try_hosts c gateway as taken w
      else case IPAddresses_Create c (gatewayIPAddress gateway a) w of
             (None, w') \<Rightarrow> (Inr (Some (Addr_String a), taken), w')
           | (Some err, w') \<Rightarrow>
               if IsAlreadyExists err then try_hosts c gateway as (insert (Addr_String a) taken) w'
               else (Inl err, w'))"

definition host :: "nat \<Rightarrow> Addr" where
  "host v = Addr4 (be_bytes4 v)"

text \<open>The usable addresses of a prefix: all but the first and the last.\<close>

definition hosts :: "Prefix \<Rightarrow> Addr list" where
  "hosts p = map host [prefix_base p + 1..<prefix_base p + prefix_size p - 1]"

lemma masked4_Masked_id: "masked4 p \<Longrightarrow> prefix_base (Masked p) = prefix_base p"
  using masked4_Masked(3) [of p] by (simp add: masked4_def)

lemma host_value: "v < 2 ^ 32 \<Longrightarrow> be_value (be_bytes4 v) = v"
  by (rule be_value_bytes4)

lemma isLastAddress_host:
  assumes "masked4 p" and "v < 2 ^ 32"
  shows "isLastAddress p (host v) = Inr (v = prefix_base p + prefix_size p - 1)"
proof -
  let ?l = "prefix_base p + prefix_size p - 1"
  have "?l < 2 ^ 32" using masked4_range [OF assms(1)] prefix_size_pos [of p] by linarith
  then have "be_bytes4 v = be_bytes4 ?l \<longleftrightarrow> v = ?l" using assms(2) by (metis be_value_bytes4)
  then show ?thesis
    using lastAddr_prefix4 [of p] assms(1) masked4_Masked_id [OF assms(1)]
    by (simp add: isLastAddress_def host_def masked4_def)
qed

lemma alloc_loop_hosts:
  assumes p: "masked4 p" and "prefix_base p \<le> v" and "v \<le> prefix_base p + prefix_size p - 1"
  shows "alloc_loop c g p (host v) taken w =
    try_hosts c g (map host [v..<prefix_base p + prefix_size p - 1]) taken w"
  using assms(2,3)
proof (induction "prefix_base p + prefix_size p - 1 - v" arbitrary: v taken w)
  case 0
  then have v: "v = prefix_base p + prefix_size p - 1" by simp
  have lt: "v < 2 ^ 32" using v masked4_range [OF p] prefix_size_pos [of p] by linarith
  show ?case
    using isLastAddress_host [OF p lt] v by (subst alloc_loop.simps) simp
next
  case (Suc n)
  let ?l = "prefix_base p + prefix_size p - 1"
  have v: "v < ?l" using Suc.hyps(2) by simp
  have lt: "v + 1 < 2 ^ 32" using v masked4_range [OF p] prefix_size_pos [of p] by linarith
  have c: "Contains p (host v)"
    using Contains_masked4 [OF p, of "be_bytes4 v"] Suc.prems v lt by (simp add: host_def host_value)
  have nx: "nextAddr (host v) = Inr (host (v + 1))"
    using nextAddr_Addr4 [of "be_bytes4 v"] lt by (simp add: host_def host_value)
  have IH: "alloc_loop c g p (host (v + 1)) taken w = try_hosts c g (map host [v + 1..<?l]) taken w" for taken w
    using Suc.hyps Suc.prems v by (intro Suc.hyps(1)) simp_all
  have "Addr_IsValid (host v)" by (simp add: host_def Addr_IsValid_def)
  moreover have "isLastAddress p (host v) = Inr False" using isLastAddress_host [OF p, of v] v lt by simp
  moreover have "map host [v..<?l] = host v # map host [v + 1..<?l]" using v by (simp add: upt_conv_Cons)
  ultimately show ?case
    using c nx IH by (subst alloc_loop.simps) (simp split: prod.splits option.splits)
qed

lemma alloc_loop_first:
  assumes p: "masked4 p"
  shows "\<exists>a. firstAllocatable p = Inr a \<and> alloc_loop c g p a taken w = try_hosts c g (hosts p) taken w"
proof -
  let ?v = "prefix_base p + 1"
  obtain b where b: "pfx_Addr p = Addr4 b" "length b = 4" "be_value b = prefix_base p"
    using p by (auto simp: masked4_def prefix4_def prefix_base_def)
  have f: "firstAllocatable p = Inr (if ?v < 2 ^ 32 then host ?v else AddrZero)"
    using nextAddr_Addr4 [OF b(2)] by (simp add: firstAllocatable_def b host_def)
  show ?thesis
  proof (cases "prefix_size p = 1")
    case True
    have "\<not> Contains p (host ?v)" if "?v < 2 ^ 32"
      using Contains_masked4 [OF p, of "be_bytes4 ?v"] that True by (simp add: host_def host_value)
    then have "alloc_loop c g p (if ?v < 2 ^ 32 then host ?v else AddrZero) taken w = try_hosts c g (hosts p) taken w"
      using True by (subst alloc_loop.simps) (auto simp: hosts_def Addr_IsValid_def)
    with f show ?thesis by blast
  next
    case False
    then have "1 < prefix_size p" using prefix_size_pos [of p] by linarith
    then have "?v \<le> prefix_base p + prefix_size p - 1" "?v < 2 ^ 32" using masked4_range [OF p] by linarith+
    then show ?thesis
      using f alloc_loop_hosts [OF p, of ?v c g taken w] by (simp add: hosts_def)
  qed
qed

lemma try_hosts_append:
  "try_hosts c g (as @ bs) taken w =
    (case try_hosts c g as taken w of
       (Inr (None, taken'), w') \<Rightarrow> try_hosts c g bs taken' w'
     | r \<Rightarrow> r)"
  by (induction as arbitrary: taken w) (auto split: prod.splits option.splits)

definition alloc_result :: "(goerror + string option \<times> string set) \<times> 'w \<Rightarrow> (goerror + string) \<times> 'w" where
  "alloc_result r =
     (case r of
        (Inl err, w) \<Rightarrow> (Inl err, w)
      | (Inr (Some vip, _), w) \<Rightarrow> (Inr vip, w)
      | (Inr (None, _), w) \<Rightarrow> (Inl (ErrorString ''all IPv4 ServiceCIDR addresses are allocated''), w))"

lemma alloc_prefixes_hosts:
  fixes c :: "'w cluster"
  shows "list_all masked4 ps \<Longrightarrow>
    alloc_prefixes c g ps taken w = alloc_result (try_hosts c g (concat (map hosts ps)) taken w)"
proof (induction ps arbitrary: taken w)
  case Nil
  then show ?case by (simp add: alloc_result_def)
next
  case (Cons p ps)
  then obtain a where a: "firstAllocatable p = Inr a"
    and l: "alloc_loop c g p a taken w = try_hosts c g (hosts p) taken w"
    using alloc_loop_first [of p c g taken w] by auto
  have IH: "\<And>taken w. alloc_prefixes c g ps taken w = alloc_result (try_hosts c g (concat (map hosts ps)) taken w)"
    using Cons by simp
  show ?case
    by (auto simp: a l IH try_hosts_append alloc_result_def split: prod.splits sum.splits option.splits)
qed

text \<open>The prefixes come masked and well-formed from the cache.\<close>

lemma ParsePrefix_prefix4: "ParsePrefix s = Some p \<Longrightarrow> Is4 (pfx_Addr p) \<Longrightarrow> prefix4 p"
  by (auto simp: ParsePrefix_def prefix4_def Is4_def Is6_def ParseAddr_def parseIPv6_def Let_def
      dest: parseIPv4Fields_length split: option.splits Addr.splits if_splits list.splits)

lemma cidr_prefixes_masked: "list_all masked4 out \<Longrightarrow> list_all masked4 (cidr_prefixes raws out)"
  unfolding cidr_prefixes_def
  by (induction raws arbitrary: out)
    (auto simp: masked4_Masked(1) ParsePrefix_prefix4 split: option.splits)

lemma listIPv4ServiceCIDRs_masked:
  assumes "listIPv4ServiceCIDRs c = Inr ps"
  shows "list_all masked4 ps"
proof -
  have fold: "list_all masked4 (fold (\<lambda>item out.
               case item of
                 None \<Rightarrow> out
               | Some serviceCIDR \<Rightarrow>
                   if om_DeletionTimestamp (sc_Meta serviceCIDR) \<noteq> None then out
                   else if \<not> serviceCIDRReady (Some serviceCIDR) then out
                   else cidr_prefixes (sc_CIDRs serviceCIDR) out) items out)" if "list_all masked4 out" for items out
    using that by (induction items arbitrary: out) (auto simp: cidr_prefixes_masked split: option.splits)
  show ?thesis
    using assms fold [of "[]"]
    by (auto simp: listIPv4ServiceCIDRs_def list_all_iff split: sum.splits)
qed

section \<open>Guarantees of the allocator\<close>

text \<open>The API server's side of an allocation: names of \<open>IPAddress\<close> objects are unique, creating an
  existing one is refused and creating a new one succeeds.\<close>

definition ip_api :: "'w cluster \<Rightarrow> ('w \<Rightarrow> string set) \<Rightarrow> bool" where
  "ip_api c present \<longleftrightarrow>
     (\<forall>ip w. if om_Name (ip_Meta ip) \<in> present w
             then (\<exists>message. IPAddresses_Create c ip w = (Some (StatusError AlreadyExists message), w))
             else (\<exists>w'. IPAddresses_Create c ip w = (None, w') \<and> present w' = insert (om_Name (ip_Meta ip)) (present w)))"

lemma gatewayIPAddress_name [simp]: "om_Name (ip_Meta (gatewayIPAddress g a)) = Addr_String a"
  by (simp add: gatewayIPAddress_def)

lemma try_hosts_find:
  assumes "ip_api c present"
  shows "case find (\<lambda>a. Addr_String a \<notin> taken \<union> present w) as of
      None \<Rightarrow> \<exists>taken'. try_hosts c g as taken w = (Inr (None, taken'), w)
    | Some a \<Rightarrow> \<exists>taken' w'. try_hosts c g as taken w = (Inr (Some (Addr_String a), taken'), w')
        \<and> present w' = insert (Addr_String a) (present w)
        \<and> IPAddresses_Create c (gatewayIPAddress g a) w = (None, w')"
proof (induction as arbitrary: taken)
  case Nil
  then show ?case by simp
next
  case (Cons a as)
  have api: "if Addr_String a \<in> present w
      then (\<exists>message. IPAddresses_Create c (gatewayIPAddress g a) w = (Some (StatusError AlreadyExists message), w))
      else (\<exists>w'. IPAddresses_Create c (gatewayIPAddress g a) w = (None, w')
        \<and> present w' = insert (Addr_String a) (present w))"
    using assms unfolding ip_api_def by (metis gatewayIPAddress_name)
  consider "Addr_String a \<in> taken" | "Addr_String a \<notin> taken" "Addr_String a \<in> present w"
    | "Addr_String a \<notin> taken" "Addr_String a \<notin> present w" by blast
  then show ?case
  proof cases
    case 1
    with Cons.IH [of taken] show ?thesis by (auto split: option.splits)
  next
    case 2
    then have u: "insert (Addr_String a) taken \<union> present w = taken \<union> present w" by blast
    show ?thesis
      using 2 api Cons.IH [of "insert (Addr_String a) taken", unfolded u] by (auto split: option.splits)
  next
    case 3
    with api show ?thesis by auto
  qed
qed

lemma fold_names:
  "fold (\<lambda>item out. case item of None \<Rightarrow> out | Some ip \<Rightarrow> insert (om_Name (ip_Meta ip)) out) items acc =
    acc \<union> (\<lambda>ip. om_Name (ip_Meta ip)) ` {ip. Some ip \<in> set items}"
  by (induction items arbitrary: acc) (auto split: option.splits)

lemma listTakenIPs_Inr:
  "listTakenIPs c = Inr taken \<longleftrightarrow>
    (\<exists>items. ipAddresses_List c = Inr items \<and> taken = (\<lambda>ip. om_Name (ip_Meta ip)) ` {ip. Some ip \<in> set items})"
  by (auto simp: listTakenIPs_def fold_names split: sum.splits)

text \<open>C12: The allocator is a first fit. For a Gateway without an address, with the ready IPv4
  ServiceCIDRs \<open>ps\<close> (sorted by text) and the cached address names \<open>taken\<close>, and an API server that refuses
  existing names, the virtual IP is the first host address of the prefixes, in order, that is neither
  cached nor present at the server; it is reserved there, and only when there is none the allocation
  fails. Network and broadcast addresses are never used, the search ends in every case.\<close>

theorem ensureGatewayVIP_first_fit:
  assumes "listOwnedGatewayIPAddresses c (gateway_key g) = Inr []"
    and "listIPv4ServiceCIDRs c = Inr ps" and "ps \<noteq> []" and "listTakenIPs c = Inr taken"
    and "ip_api c present"
  shows "case find (\<lambda>a. Addr_String a \<notin> taken \<union> present w) (concat (map hosts ps)) of
      None \<Rightarrow> ensureGatewayVIP c g w = (Inl (ErrorString ''all IPv4 ServiceCIDR addresses are allocated''), w)
    | Some a \<Rightarrow> \<exists>w'. ensureGatewayVIP c g w = (Inr (Addr_String a), w')
        \<and> present w' = insert (Addr_String a) (present w)
        \<and> IPAddresses_Create c (gatewayIPAddress g a) w = (None, w')"
proof -
  have "ensureGatewayVIP c g w = alloc_result (try_hosts c g (concat (map hosts ps)) taken w)"
    using assms(1-4) by (simp add: ensureGatewayVIP_def alloc_prefixes_hosts listIPv4ServiceCIDRs_masked)
  with try_hosts_find [OF assms(5), where taken = taken and w = w and as = "concat (map hosts ps)" and g = g] show ?thesis
    by (auto simp: alloc_result_def split: option.splits)
qed

lemma try_hosts_Some:
  assumes "try_hosts c g as taken w = (Inr (Some vip, taken'), w')"
  shows "\<exists>a\<in>set as. vip = Addr_String a \<and> vip \<notin> taken
    \<and> (\<exists>w1. IPAddresses_Create c (gatewayIPAddress g a) w1 = (None, w'))"
  using assms
proof (induction as arbitrary: taken w)
  case Nil
  then show ?case by simp
next
  case (Cons a as)
  obtain e v where c: "IPAddresses_Create c (gatewayIPAddress g a) w = (e, v)" by fastforce
  show ?case
  proof (cases "Addr_String a \<in> taken")
    case True
    with Cons show ?thesis by (metis list.set_intros(2) try_hosts.simps(2))
  next
    case False
    show ?thesis
    proof (cases e)
      case None
      with Cons.prems c False show ?thesis by auto
    next
      case (Some err)
      with Cons.prems c False have "try_hosts c g as (insert (Addr_String a) taken) v = (Inr (Some vip, taken'), w')"
        by (auto split: if_splits)
      from Cons.IH [OF this] show ?thesis by auto
    qed
  qed
qed

lemma host_in_hosts:
  "a \<in> set (hosts p) \<longleftrightarrow> (\<exists>v. a = host v \<and> prefix_base p < v \<and> v < prefix_base p + prefix_size p - 1)"
  by (auto simp: hosts_def)

lemma ensureGatewayVIP_alloc:
  assumes "listOwnedGatewayIPAddresses c (gateway_key g) = Inr []" and "ensureGatewayVIP c g w = (Inr vip, w')"
  shows "\<exists>ps p v taken w1. listIPv4ServiceCIDRs c = Inr ps \<and> listTakenIPs c = Inr taken \<and> p \<in> set ps
    \<and> prefix_base p < v \<and> v < prefix_base p + prefix_size p - 1 \<and> vip = ipv4_String (be_bytes4 v)
    \<and> vip \<notin> taken \<and> IPAddresses_Create c (gatewayIPAddress g (host v)) w1 = (None, w')"
proof -
  from assms obtain ps taken where ps: "listIPv4ServiceCIDRs c = Inr ps" and t: "listTakenIPs c = Inr taken"
    and a: "alloc_prefixes c g ps taken w = (Inr vip, w')"
    by (auto simp: ensureGatewayVIP_def split: sum.splits if_splits)
  have "alloc_result (try_hosts c g (concat (map hosts ps)) taken w) = (Inr vip, w')"
    using a alloc_prefixes_hosts [OF listIPv4ServiceCIDRs_masked [OF ps], of c g taken w] by simp
  then obtain taken' where "try_hosts c g (concat (map hosts ps)) taken w = (Inr (Some vip, taken'), w')"
    by (auto simp: alloc_result_def split: prod.splits sum.splits option.splits)
  then obtain a w1 p where "p \<in> set ps" "a \<in> set (hosts p)" "vip = Addr_String a" "vip \<notin> taken"
    "IPAddresses_Create c (gatewayIPAddress g a) w1 = (None, w')"
    using try_hosts_Some by fastforce
  moreover from this(2) obtain v where "a = host v" "prefix_base p < v" "v < prefix_base p + prefix_size p - 1"
    unfolding host_in_hosts by blast
  moreover have "Addr_String (host v) = ipv4_String (be_bytes4 v)" by (simp add: host_def Addr_String_def)
  ultimately show ?thesis using ps t by metis
qed

abbreviation ip_name :: "IPAddress \<Rightarrow> string" where
  "ip_name ip \<equiv> om_Name (ip_Meta ip)"

text \<open>Where a prefix comes from.\<close>

definition ready_condition :: "Condition list \<Rightarrow> bool" where
  "ready_condition conds \<longleftrightarrow>
     (case find (\<lambda>cond. c_Type cond = ''Ready'') conds of None \<Rightarrow> True | Some cond \<Rightarrow> c_Status cond = ConditionTrue)"

lemma ready_loop_find: "ready_loop conds = ready_condition conds"
  by (induction conds) (simp_all add: ready_condition_def)

lemma cidr_prefixes_set:
  "p \<in> set (cidr_prefixes raws out) \<longleftrightarrow>
    p \<in> set out \<or> (\<exists>raw\<in>set raws. \<exists>p0. ParsePrefix raw = Some p0 \<and> Is4 (pfx_Addr p0) \<and> p = Masked p0)"
  unfolding cidr_prefixes_def by (induction raws arbitrary: out) (auto split: option.splits)

lemma listIPv4ServiceCIDRs_from:
  assumes "listIPv4ServiceCIDRs c = Inr ps" and "p \<in> set ps"
  shows "\<exists>items sc raw p0. serviceCIDRs_List c = Inr items \<and> Some sc \<in> set items
    \<and> om_DeletionTimestamp (sc_Meta sc) = None \<and> ready_condition (sc_Conditions sc)
    \<and> raw \<in> set (sc_CIDRs sc) \<and> ParsePrefix raw = Some p0 \<and> Is4 (pfx_Addr p0) \<and> p = Masked p0"
proof -
  obtain items where items: "serviceCIDRs_List c = Inr items"
    using assms(1) by (auto simp: listIPv4ServiceCIDRs_def split: sum.splits)
  let ?step = "\<lambda>item out. case item of
                 None \<Rightarrow> out
               | Some serviceCIDR \<Rightarrow>
                   if om_DeletionTimestamp (sc_Meta serviceCIDR) \<noteq> None then out
                   else if \<not> serviceCIDRReady (Some serviceCIDR) then out
                   else cidr_prefixes (sc_CIDRs serviceCIDR) out"
  have ready: "serviceCIDRReady (Some sc) = ready_condition (sc_Conditions sc)" for sc
    by (simp add: serviceCIDRReady_def ready_loop_find ready_condition_def)
  have "p \<in> set out \<or> (\<exists>sc raw p0. Some sc \<in> set items \<and> om_DeletionTimestamp (sc_Meta sc) = None
      \<and> ready_condition (sc_Conditions sc) \<and> raw \<in> set (sc_CIDRs sc) \<and> ParsePrefix raw = Some p0
      \<and> Is4 (pfx_Addr p0) \<and> p = Masked p0)" if "p \<in> set (fold ?step items out)" for out
    using that
  proof (induction items arbitrary: out)
    case (Cons item items)
    have "p \<in> set (fold ?step items (?step item out))" using Cons.prems by simp
    from Cons.IH [OF this] show ?case
      by (cases item) (auto simp: cidr_prefixes_set ready split: if_splits)
  qed simp
  from this [of "[]"] show ?thesis using assms items by (auto simp: listIPv4ServiceCIDRs_def)
qed

lemma listTakenIPs_from:
  assumes "listTakenIPs c = Inr taken"
  shows "\<exists>ips. ipAddresses_List c = Inr ips \<and> taken = {om_Name (ip_Meta ip) | ip. Some ip \<in> set ips}"
proof -
  have "fold (\<lambda>item out. case item of None \<Rightarrow> out | Some ip \<Rightarrow> insert (om_Name (ip_Meta ip)) out) ips out
      = out \<union> {om_Name (ip_Meta ip) | ip. Some ip \<in> set ips}" for ips out
    by (induction ips arbitrary: out) (auto split: option.splits)
  with assms show ?thesis by (auto simp: listTakenIPs_def split: sum.splits)
qed

text \<open>C8: A newly allocated address is safe, whatever the API server answers: when a Gateway that owns no
  address gets one, it is the text of an address strictly between the first and the last address of an
  IPv4 prefix that some cached ServiceCIDR lists which is not being deleted and whose \<open>Ready\<close> condition, if
  it has one, is true; it was not the name of a cached IPAddress, and the call that created the
  IPAddress object for this Gateway succeeded as the last call.\<close>

theorem ensureGatewayVIP_safe:
  assumes "listOwnedGatewayIPAddresses c (gateway_key g) = Inr []" and "ensureGatewayVIP c g w = (Inr vip, w')"
  shows "\<exists>items sc raw p0 p v ips w1. serviceCIDRs_List c = Inr items \<and> Some sc \<in> set items
    \<and> om_DeletionTimestamp (sc_Meta sc) = None
    \<and> (case find (\<lambda>cond. c_Type cond = ''Ready'') (sc_Conditions sc) of
         None \<Rightarrow> True | Some cond \<Rightarrow> c_Status cond = ConditionTrue)
    \<and> raw \<in> set (sc_CIDRs sc) \<and> ParsePrefix raw = Some p0 \<and> Is4 (pfx_Addr p0) \<and> p = Masked p0
    \<and> prefix_base p < v \<and> v < prefix_base p + prefix_size p - 1 \<and> vip = ipv4_String (be_bytes4 v)
    \<and> ipAddresses_List c = Inr ips \<and> (\<forall>ip. Some ip \<in> set ips \<longrightarrow> om_Name (ip_Meta ip) \<noteq> vip)
    \<and> IPAddresses_Create c (gatewayIPAddress g (host v)) w1 = (None, w')"
proof -
  obtain ps p v taken w1 where alloc: "listIPv4ServiceCIDRs c = Inr ps" "listTakenIPs c = Inr taken" "p \<in> set ps"
    "prefix_base p < v" "v < prefix_base p + prefix_size p - 1" "vip = ipv4_String (be_bytes4 v)"
    "vip \<notin> taken" "IPAddresses_Create c (gatewayIPAddress g (host v)) w1 = (None, w')"
    using ensureGatewayVIP_alloc [OF assms] by blast
  obtain items sc raw p0 where "serviceCIDRs_List c = Inr items" "Some sc \<in> set items"
    "om_DeletionTimestamp (sc_Meta sc) = None" "ready_condition (sc_Conditions sc)"
    "raw \<in> set (sc_CIDRs sc)" "ParsePrefix raw = Some p0" "Is4 (pfx_Addr p0)" "p = Masked p0"
    using listIPv4ServiceCIDRs_from [OF alloc(1,3)] by blast
  moreover obtain ips where "ipAddresses_List c = Inr ips" "\<forall>ip. Some ip \<in> set ips \<longrightarrow> ip_name ip \<noteq> vip"
    using listTakenIPs_from [OF alloc(2)] alloc(7) by blast
  ultimately show ?thesis
    using alloc(4-6,8) unfolding ready_condition_def
    by (intro exI [of _ items] exI [of _ sc] exI [of _ raw] exI [of _ p0] exI [of _ p] exI [of _ v] exI [of _ ips]
        exI [of _ w1]) simp
qed

text \<open>What the allocator writes is what the index finds: the IPAddress object created for a Gateway
  is indexed under that Gateway's key, so the next reconcile sees it as owned.\<close>

lemma gatewayIPAddress_indexed:
  assumes "gw_Namespace g \<noteq> []" and "gw_Name g \<noteq> []"
  shows "indexIPAddressByGateway (OIPAddress (gatewayIPAddress g a)) = Inr [namespacedKey (gateway_key g)]"
  using assms
  by (simp add: indexIPAddressByGateway_def gatewayKeyForIPAddress_def gatewayIPAddress_def emptyMeta_def
      map_get_def ipFamilyLabelKey_def managedByLabelKey_def namespacedKey_def Let_def)

text \<open>Deleting at the API server may fail. A call for a name touches no other object, and after it
  succeeded or reported the object as not found, the object is not there. A call that failed otherwise,
  say by a timeout, may or may not have deleted it.\<close>

definition ip_delete_api :: "'w cluster \<Rightarrow> ('w \<Rightarrow> string set) \<Rightarrow> bool" where
  "ip_delete_api c present \<longleftrightarrow>
     (\<forall>n w. case IPAddresses_Delete c n w of (e, w') \<Rightarrow>
        present w - {n} \<subseteq> present w' \<and> present w' \<subseteq> present w
        \<and> (case e of None \<Rightarrow> n \<notin> present w' | Some err \<Rightarrow> IsNotFound err \<longrightarrow> n \<notin> present w'))"

text \<open>Deleting a list of objects until a delete fails.\<close>

lemma delete_each:
  assumes "ip_delete_api c present"
    and "for_each IsNotFound (\<lambda>ip. IPAddresses_Delete c (ip_name ip)) ips w = (e, w')"
  shows "present w - ip_name ` set ips \<subseteq> present w' \<and> present w' \<subseteq> present w
    \<and> (case e of
         None \<Rightarrow> present w' = present w - ip_name ` set ips
       | Some err \<Rightarrow> \<not> IsNotFound err \<and> (\<exists>ip\<in>set ips. \<exists>v v'. IPAddresses_Delete c (ip_name ip) v = (Some err, v')))"
  using assms(2)
proof (induction ips arbitrary: w)
  case Nil
  then show ?case by auto
next
  case (Cons ip ips)
  obtain e1 v where d: "IPAddresses_Delete c (ip_name ip) w = (e1, v)" by fastforce
  have api: "present w - {ip_name ip} \<subseteq> present v \<and> present v \<subseteq> present w
      \<and> (case e1 of None \<Rightarrow> ip_name ip \<notin> present v | Some err \<Rightarrow> IsNotFound err \<longrightarrow> ip_name ip \<notin> present v)"
    using assms(1) [unfolded ip_delete_api_def, rule_format, of w "ip_name ip"] by (simp add: d)
  show ?case
  proof (cases "case e1 of None \<Rightarrow> True | Some err \<Rightarrow> IsNotFound err")
    case True
    then have "for_each IsNotFound (\<lambda>ip. IPAddresses_Delete c (ip_name ip)) ips v = (e, w')"
      using Cons.prems d by (auto split: option.splits)
    from Cons.IH [OF this] api True show ?thesis by (cases e; cases e1) auto
  next
    case False
    then obtain err where "e1 = Some err" "\<not> IsNotFound err" by (auto split: option.splits)
    moreover from this have "e = Some err" "w' = v" using Cons.prems d by auto
    ultimately show ?thesis using api d by auto
  qed
qed

lemma delete_each_keeps:
  assumes "\<forall>n w. rest (snd (IPAddresses_Delete c n w)) = rest w"
    and "for_each IsNotFound (\<lambda>ip. IPAddresses_Delete c (ip_name ip)) ips w = (e, w')"
  shows "rest w' = rest w"
  using for_each_invariant [OF assms(2), where P = "\<lambda>v. rest v = rest w"] assms(1) by simp

text \<open>Releasing the addresses of a Gateway: nothing else changes, and either all of them are gone or the
  error of a failed delete is returned.\<close>

lemma release_outcome:
  assumes "listOwnedGatewayIPAddresses c (gateway_key g) = Inr owned" and "ip_delete_api c present"
    and "\<forall>n w. rest (snd (IPAddresses_Delete c n w)) = rest w"
  obtains (released) w' where "releaseGatewayIPAddresses c g w = (None, w')" "rest w' = rest w"
      "present w' = present w - ip_name ` set owned"
  | (failed) err w' where "releaseGatewayIPAddresses c g w = (Some err, w')" "rest w' = rest w"
      "present w - ip_name ` set owned \<subseteq> present w'" "present w' \<subseteq> present w"
      "\<not> IsNotFound err" "\<exists>ip\<in>set owned. \<exists>v v'. IPAddresses_Delete c (ip_name ip) v = (Some err, v')"
proof -
  obtain e w' where r: "for_each IsNotFound (\<lambda>ip. IPAddresses_Delete c (ip_name ip)) owned w = (e, w')" by fastforce
  have "releaseGatewayIPAddresses c g w = (e, w')" using assms(1) r by (simp add: releaseGatewayIPAddresses_def)
  with delete_each [OF assms(2) r] delete_each_keeps [OF assms(3) r] that show thesis by (cases e) auto
qed

lemma go_sort_Min:
  fixes f :: "'a \<Rightarrow> 'k::linorder"
  assumes "xs \<noteq> []"
  shows "f (hd (go_sort f xs)) = Min (f ` set xs)"
proof -
  obtain y ys where y: "go_sort f xs = y # ys" using assms by (metis go_sort_eq_Nil list.exhaust)
  have "sorted (f y # map f ys)" using sorted_go_sort [of f xs] by (simp add: y)
  moreover have "set xs = insert y (set ys)" using set_go_sort [of f xs] by (simp add: y)
  ultimately show ?thesis by (auto simp: y intro!: Min_eqI [symmetric])
qed

text \<open>C37: A Gateway keeps one address: when it owns several, the lexicographically first one stays, only
  others are deleted at the API server and nothing is allocated. The first one is returned once exactly
  the others are gone; when a delete fails, other than for an object that is gone already, its error is
  returned.\<close>

theorem ensureGatewayVIP_owned:
  assumes "listOwnedGatewayIPAddresses c (gateway_key g) = Inr owned" and "owned \<noteq> []"
    and "distinct (map ip_name owned)" and "ip_delete_api c present"
  shows "\<exists>result w'. ensureGatewayVIP c g w = (result, w')
    \<and> present w - (ip_name ` set owned - {Min (ip_name ` set owned)}) \<subseteq> present w' \<and> present w' \<subseteq> present w
    \<and> (case result of
         Inr vip \<Rightarrow> vip = Min (ip_name ` set owned)
           \<and> present w' = present w - (ip_name ` set owned - {Min (ip_name ` set owned)})
       | Inl err \<Rightarrow> \<not> IsNotFound err
           \<and> (\<exists>ip\<in>set owned. \<exists>v v'. ip_name ip \<noteq> Min (ip_name ` set owned)
                \<and> IPAddresses_Delete c (ip_name ip) v = (Some err, v')))"
proof -
  obtain y ys where y: "go_sort ip_name owned = y # ys" using assms(2) by (metis go_sort_eq_Nil list.exhaust)
  have m: "ip_name y = Min (ip_name ` set owned)" using go_sort_Min [OF assms(2), of ip_name] by (simp add: y)
  have "mset (map ip_name owned) = mset (map ip_name (y # ys))" by (metis y mset_go_sort mset_map)
  then have d: "distinct (map ip_name (y # ys))" "ip_name ` set owned = insert (ip_name y) (ip_name ` set ys)"
    using assms(3) by (metis mset_eq_imp_distinct_iff, metis image_insert list.simps(15) mset_eq_setD set_map)
  then have ys: "ip_name ` set ys = ip_name ` set owned - {ip_name y}" by auto
  have "set owned = insert y (set ys)" using set_go_sort [of ip_name owned] by (simp add: y)
  moreover have "ip_name ip \<noteq> ip_name y" if "ip \<in> set ys" for ip
  proof -
    have "ip_name ip \<in> ip_name ` set ys" using that by (rule imageI)
    then show ?thesis using ys by auto
  qed
  ultimately have sub: "ip \<in> set owned \<and> ip_name ip \<noteq> ip_name y" if "ip \<in> set ys" for ip using that by simp
  obtain e w' where r: "for_each IsNotFound (\<lambda>ip. IPAddresses_Delete c (ip_name ip)) ys w = (e, w')" by fastforce
  note del = delete_each [OF assms(4) r, unfolded ys m]
  have "ensureGatewayVIP c g w = (case e of None \<Rightarrow> Inr (ip_name y) | Some err \<Rightarrow> Inl err, w')"
    using assms(1,2) r by (auto simp: ensureGatewayVIP_def y split: option.splits)
  with del sub show ?thesis unfolding m by (cases e) (simp, fastforce)+
qed

text \<open>C36: Cleanup releases before it lets go. Cleaning up a Gateway deletes the addresses it owns and
  nothing else, and only when none of them is present any more does it ask for the finalizer to be
  removed; when a delete fails, the error is returned and the rest of the world, the finalizer included,
  is as it was.\<close>

theorem cleanup_releases_addresses:
  assumes "listOwnedGatewayIPAddresses c (gateway_key g) = Inr owned" and "ip_delete_api c present"
    and "\<forall>n w. rest (snd (IPAddresses_Delete c n w)) = rest w"
  shows "\<exists>w'. rest w' = rest w \<and> present w - ip_name ` set owned \<subseteq> present w' \<and> present w' \<subseteq> present w
    \<and> (present w' = present w - ip_name ` set owned \<and> cleanupGatewayResources c g w = removeGatewayFinalizer c g w'
       \<or> (\<exists>err. cleanupGatewayResources c g w = (Some err, w') \<and> \<not> IsNotFound err
            \<and> (\<exists>ip\<in>set owned. \<exists>v v'. IPAddresses_Delete c (ip_name ip) v = (Some err, v'))))"
  using assms
proof (cases rule: release_outcome [of c g owned present rest w])
  case (released w')
  then show ?thesis by (intro exI [of _ w']) (simp add: cleanupGatewayResources_def)
next
  case (failed err w')
  then show ?thesis by (intro exI [of _ w']) (simp add: cleanupGatewayResources_def)
qed

lemma deleteString_eq: "deleteString vs target = filter (\<lambda>v. v \<noteq> target) vs"
proof -
  have "fold (\<lambda>value filtered. if value = target then filtered else filtered @ [value]) vs acc
      = acc @ filter (\<lambda>v. v \<noteq> target) vs" for acc
    by (induction vs arbitrary: acc) auto
  then show ?thesis by (simp add: deleteString_def)
qed

section \<open>Samples\<close>

definition sample_ip :: "string \<Rightarrow> IPAddress" where
  "sample_ip n = \<lparr>ip_Meta = emptyMeta\<lparr>om_Name := n, om_Labels := [managedByLabelKey \<mapsto> managedByLabelValue]\<rparr>,
     ip_ParentRef = Some \<lparr>ipr_Group = gatewayAPIGroup, ipr_Resource = ''gateways'', ipr_Namespace = ''default'',
       ipr_Name = ''demo''\<rparr>\<rparr>"

text \<open>A cluster whose world is the set of IPAddress names at the API server, with one ServiceCIDR.\<close>

definition ip_cluster :: "string set cluster" where
  "ip_cluster = empty_cluster\<lparr>
     serviceCIDRs_List := Inr [Some \<lparr>sc_Meta = emptyMeta, sc_CIDRs = [''10.96.0.0/30''], sc_Conditions = []\<rparr>],
     ipAddresses_List := Inr [Some (sample_ip ''10.96.0.1'')],
     IPAddresses_Create := (\<lambda>ip w. if ip_name ip \<in> w then (Some (StatusError AlreadyExists []), w)
                                   else (None, insert (ip_name ip) w)),
     IPAddresses_Delete := (\<lambda>n w. if n \<in> w then (None, w - {n}) else (Some (StatusError NotFound []), w))\<rparr>"

lemma ip_cluster_api: "ip_api ip_cluster id" "ip_delete_api ip_cluster id"
  by (simp_all add: ip_api_def ip_delete_api_def ip_cluster_def)

abbreviation sample_prefix :: Prefix where
  "sample_prefix \<equiv> \<lparr>pfx_Addr = Addr4 [10, 96, 0, 0], pfx_Bits = 30\<rparr>"

lemma sample_ParsePrefix: "ParsePrefix ''10.96.0.0/30'' = Some sample_prefix"
  by code_simp

lemma sample_base: "be_value [10, 96, 0, 0] = 174063616"
  by (simp add: be_value_four)

lemma sample_masked: "Masked sample_prefix = sample_prefix"
  by (simp add: Masked_def sample_base be_bytes4_def)

lemma ip_cluster_reads:
  "listIPv4ServiceCIDRs ip_cluster = Inr [sample_prefix]" "listTakenIPs ip_cluster = Inr {''10.96.0.1''}"
  "listOwnedGatewayIPAddresses ip_cluster (gateway_key g) = Inr []"
  by (simp_all add: listIPv4ServiceCIDRs_def listTakenIPs_def listOwnedGatewayIPAddresses_def ip_cluster_def
      empty_cluster_def cidr_prefixes_def sample_ParsePrefix sample_masked Is4_def serviceCIDRReady_def
      emptyMeta_def sample_ip_def)

lemma sample_hosts: "hosts sample_prefix = [Addr4 [10, 96, 0, 1], Addr4 [10, 96, 0, 2]]"
  by (simp add: hosts_def prefix_base_def prefix_size_def sample_base host_def be_bytes4_def upt_conv_Cons)

lemma sample_host_strings:
  "Addr_String (Addr4 [10, 96, 0, 1]) = ''10.96.0.1''" "Addr_String (Addr4 [10, 96, 0, 2]) = ''10.96.0.2''"
  by code_simp+

theorem ensureGatewayVIP_first_fit_witness:
  "\<exists>w'. ensureGatewayVIP ip_cluster sample_gateway {} = (Inr ''10.96.0.2'', w') \<and> w' = {''10.96.0.2''}"
  using ensureGatewayVIP_first_fit [OF ip_cluster_reads(3) ip_cluster_reads(1) _ ip_cluster_reads(2) ip_cluster_api(1),
      of sample_gateway "{}"]
  by (simp add: sample_hosts sample_host_strings)

lemma sample_alloc:
  assumes "listIPv4ServiceCIDRs c = Inr [sample_prefix]" "listTakenIPs c = Inr {''10.96.0.1''}"
    "listOwnedGatewayIPAddresses c (gateway_key g) = Inr []" "ip_api c id"
  shows "ensureGatewayVIP c g {} = (Inr ''10.96.0.2'', {''10.96.0.2''})"
  using try_hosts_find [OF assms(4), where taken = "{''10.96.0.1''}" and w = "{}"
      and as = "concat (map hosts [sample_prefix])" and g = g]
    alloc_prefixes_hosts [OF listIPv4ServiceCIDRs_masked [OF assms(1)], of c g "{''10.96.0.1''}" "{}"]
  by (auto simp: ensureGatewayVIP_def assms sample_hosts sample_host_strings alloc_result_def)

theorem ensureGatewayVIP_safe_witness:
  "\<exists>p v w'. ensureGatewayVIP ip_cluster sample_gateway {} = (Inr ''10.96.0.2'', w') \<and> p = sample_prefix
    \<and> prefix_base p < v \<and> v < prefix_base p + prefix_size p - 1 \<and> ''10.96.0.2'' = ipv4_String (be_bytes4 v)"
proof -
  obtain w' where w': "ensureGatewayVIP ip_cluster sample_gateway {} = (Inr ''10.96.0.2'', w')"
    using sample_alloc [OF ip_cluster_reads ip_cluster_api(1)] by blast
  moreover have "serviceCIDRs_List ip_cluster
      = Inr [Some \<lparr>sc_Meta = emptyMeta, sc_CIDRs = [''10.96.0.0/30''], sc_Conditions = []\<rparr>]"
    by (simp add: ip_cluster_def)
  ultimately show ?thesis
    using ensureGatewayVIP_safe [OF ip_cluster_reads(3) w'] by (auto simp: sample_ParsePrefix sample_masked)
qed

definition owning_cluster :: "string set cluster" where
  "owning_cluster = ip_cluster\<lparr>ipAddresses_ByIndex :=
     (\<lambda>_ _. Inr [OIPAddress (sample_ip ''10.96.0.7''), OIPAddress (sample_ip ''10.96.0.5'')])\<rparr>"

lemma owning_cluster_reads:
  "listOwnedGatewayIPAddresses owning_cluster (gateway_key g) = Inr [sample_ip ''10.96.0.7'', sample_ip ''10.96.0.5'']"
  "ip_delete_api owning_cluster id"
  using ip_cluster_api(2)
  by (simp_all add: listOwnedGatewayIPAddresses_def owning_cluster_def sample_ip_def emptyMeta_def ip_delete_api_def)

lemma sample_ip_name: "ip_name (sample_ip n) = n"
  by (simp add: sample_ip_def)

lemma owning_cluster_delete: "fst (IPAddresses_Delete owning_cluster n w) = Some err \<Longrightarrow> IsNotFound err"
  by (auto simp: owning_cluster_def ip_cluster_def split: if_splits)

theorem ensureGatewayVIP_owned_witness:
  "\<exists>w'. ensureGatewayVIP owning_cluster sample_gateway {''10.96.0.7'', ''10.96.0.5''} = (Inr ''10.96.0.5'', w')
    \<and> w' = {''10.96.0.5''}"
proof -
  have m: "Min {''10.96.0.7'', ''10.96.0.5''} = ''10.96.0.5''" by (simp add: min_def)
  have "distinct (map ip_name [sample_ip ''10.96.0.7'', sample_ip ''10.96.0.5''])" by (simp add: sample_ip_name)
  note own = ensureGatewayVIP_owned [OF owning_cluster_reads(1) _ this owning_cluster_reads(2), simplified sample_ip_name,
      of sample_gateway "{''10.96.0.7'', ''10.96.0.5''}"]
  then obtain result w' where
      r: "ensureGatewayVIP owning_cluster sample_gateway {''10.96.0.7'', ''10.96.0.5''} = (result, w')"
    by (meson surj_pair)
  have "result \<noteq> Inl err" for err
    using own r owning_cluster_delete by (auto simp: sample_ip_name prod_eq_iff)
  then obtain vip where "result = Inr vip" by (cases result) auto
  then show ?thesis using own r by (auto simp: sample_ip_name m)
qed

text \<open>A world of IPAddress names and of Gateways with the finalizer, at an API server that refuses to
  delete one address.\<close>

definition stubborn_cluster :: "(string set \<times> nat) cluster" where
  "stubborn_cluster = empty_cluster\<lparr>
     ipAddresses_ByIndex := (\<lambda>_ _. Inr [OIPAddress (sample_ip ''10.96.0.5''), OIPAddress (sample_ip ''10.96.0.7'')]),
     IPAddresses_Delete := (\<lambda>n w. if n = ''10.96.0.7'' then (Some (ErrorString ''refused''), w)
       else (None, fst w - {n}, snd w))\<rparr>"

lemma stubborn_cluster_reads:
  "listOwnedGatewayIPAddresses stubborn_cluster (gateway_key g) = Inr [sample_ip ''10.96.0.5'', sample_ip ''10.96.0.7'']"
  "ip_delete_api stubborn_cluster fst" "\<forall>n w. snd (snd (IPAddresses_Delete stubborn_cluster n w)) = snd w"
  by (simp_all add: listOwnedGatewayIPAddresses_def stubborn_cluster_def sample_ip_def emptyMeta_def ip_delete_api_def)

theorem cleanup_releases_addresses_witness:
  "(\<exists>w'. w' = ({} :: string set)
    \<and> cleanupGatewayResources owning_cluster sample_gateway {''10.96.0.7'', ''10.96.0.5''}
      = removeGatewayFinalizer owning_cluster sample_gateway w')
   \<and> (\<exists>w'. cleanupGatewayResources stubborn_cluster sample_gateway ({''10.96.0.5'', ''10.96.0.7''}, 1)
      = (Some (ErrorString ''refused''), w') \<and> ''10.96.0.7'' \<in> fst w' \<and> snd w' = 1)"
proof
  show "\<exists>w'. w' = ({} :: string set)
    \<and> cleanupGatewayResources owning_cluster sample_gateway {''10.96.0.7'', ''10.96.0.5''}
      = removeGatewayFinalizer owning_cluster sample_gateway w'"
    using cleanup_releases_addresses [OF owning_cluster_reads,
        where rest = "\<lambda>_. ()" and g = sample_gateway and w = "{''10.96.0.7'', ''10.96.0.5''}"]
      owning_cluster_delete
    by (auto simp: sample_ip_name) (metis fst_conv)+
  have "cleanupGatewayResources stubborn_cluster sample_gateway ({''10.96.0.5'', ''10.96.0.7''}, 1)
      = (Some (ErrorString ''refused''), ({''10.96.0.7''}, 1))"
    unfolding cleanupGatewayResources_def releaseGatewayIPAddresses_def stubborn_cluster_reads(1)
    by (simp add: sample_ip_name stubborn_cluster_def)
  moreover have "\<exists>w'. snd w' = snd ({''10.96.0.5'', ''10.96.0.7''}, 1 :: nat)
      \<and> ({''10.96.0.5'', ''10.96.0.7''} :: string set) - ip_name ` set [sample_ip ''10.96.0.5'', sample_ip ''10.96.0.7''] \<subseteq> fst w'"
    using cleanup_releases_addresses [OF stubborn_cluster_reads,
        where g = sample_gateway and w = "({''10.96.0.5'', ''10.96.0.7''}, 1)"] by (metis fst_conv)
  ultimately show "\<exists>w'. cleanupGatewayResources stubborn_cluster sample_gateway ({''10.96.0.5'', ''10.96.0.7''}, 1)
      = (Some (ErrorString ''refused''), w') \<and> ''10.96.0.7'' \<in> fst w' \<and> snd w' = 1" by simp
qed

end
