(* ===== verification/GatewayReconcile.thy ===== *)
theory GatewayReconcile
  imports RouteReconcile IPAM
begin

text \<open>
  \<open>internal/controller/gateway_reconcile.go\<close>: the reconcilers of GatewayClasses and Gateways. The
  listener functions of that file are in \<open>Listeners\<close>. A reconciler is a call on the world of the API
  server; it reads the informer caches, which do not change during one reconcile.
\<close>

section \<open>GatewayClasses\<close>

definition shouldManageGatewayClass :: "GatewayClass option \<Rightarrow> bool" where
  "shouldManageGatewayClass gatewayClass =
     (case gatewayClass of
        None \<Rightarrow> False
      | Some gc \<Rightarrow> om_Name (gc_Meta gc) = GatewayClassName \<or> gc_ControllerName gc = controllerName)"

definition gatewayClassAcceptedMessage :: "GatewayClass \<Rightarrow> bool \<Rightarrow> string" where
  "gatewayClassAcceptedMessage gatewayClass accepted =
     (if accepted then ''GatewayClass accepted by clusterip-gw-controller.''
      else if om_Name (gc_Meta gatewayClass) \<noteq> GatewayClassName
        then ''Only GatewayClass '' @ Quote GatewayClassName @ '' is supported by this controller.''
      else ''GatewayClass '' @ Quote GatewayClassName @ '' must set spec.controllerName to '' @ Quote controllerName @ ''.'')"

definition reconcileGatewayClass :: "'w cluster \<Rightarrow> string \<Rightarrow> 'w call" where
  "reconcileGatewayClass c key w =
     (case gatewayClasses_Get c key of
        Inl err \<Rightarrow> if IsNotFound err then (None, w) else (Some err, w)
      | Inr gatewayClass \<Rightarrow>
          if \<not> shouldManageGatewayClass (Some gatewayClass) then (None, w)
          else
            let generation = om_Generation (gc_Meta gatewayClass);
                accepted = (om_Name (gc_Meta gatewayClass) = GatewayClassName
                            \<and> gc_ControllerName gatewayClass = controllerName);
                updated0 = gatewayClass\<lparr>gc_Conditions := mergeConditions c (gc_Conditions gatewayClass)
                  [condition c ''Accepted'' (boolToConditionStatus accepted)
                     (conditionReason accepted ''Accepted'' ''Unsupported'')
                     (gatewayClassAcceptedMessage gatewayClass accepted) generation]\<rparr>;
                updated = (if accepted
                  then updated0\<lparr>gc_Conditions := mergeConditions c (gc_Conditions updated0)
                    [condition c ''SupportedVersion'' ConditionTrue ''SupportedVersion''
                       ''Gateway API versions used by this controller are supported.'' generation]\<rparr>
                  else updated0) in
            if gatewayClassStatusEqual gatewayClass updated then (None, w)
            else GatewayClasses_UpdateStatus c updated w)"

section \<open>Evaluating a Gateway\<close>

text \<open>One round of the listener loop: the statuses so far, the first error and the number of usable
  listeners.\<close>

definition evaluateGatewayListener ::
    "'w cluster \<Rightarrow> Gateway \<Rightarrow> GatewayClass \<Rightarrow> TCPRoute list \<Rightarrow> Listener \<Rightarrow>
      ListenerStatus list \<times> string \<times> nat \<Rightarrow> ListenerStatus list \<times> string \<times> nat" where
  "evaluateGatewayListener c gateway gatewayClass attachedRoutes listener st =
     (let (statuses, firstError, usableListeners) = st;
          attached = attachedRoutesForListener gateway listener attachedRoutes;
          refuse = (\<lambda>n message.
            (statuses @ [listenerRefused c listener n ''UnsupportedValue'' message (gw_Generation gateway)],
             (if firstError = [] then message else firstError), usableListeners)) in
      case attached of
        [] \<Rightarrow> refuse 0 (''Listener '' @ Quote (l_Name listener) @ '' requires exactly one attached TCPRoute.'')
      | [route] \<Rightarrow>
          let routeEval = evaluateRoute c route (matchingParentRef route gateway) gateway (Some gatewayClass) attachedRoutes in
          if re_acceptedStatus routeEval \<noteq> ConditionTrue \<or> re_resolvedStatus routeEval \<noteq> ConditionTrue then
            refuse 1 (''Attached TCPRoute '' @ tr_Namespace route @ ''/'' @ tr_Name route @ '' is not supported: ''
              @ re_acceptedMessage routeEval @ ''; '' @ re_resolvedMessage routeEval)
          else (statuses @ [listenerAccepted c listener 1 (gw_Generation gateway)], firstError, usableListeners + 1)
      | _ \<Rightarrow> refuse (of_nat (length attached)) (''Listener '' @ Quote (l_Name listener)
               @ '' supports exactly one attached TCPRoute; multiple attached TCPRoutes were found.''))"

definition notAccepted :: "gatewayEvaluation \<Rightarrow> string \<Rightarrow> string \<Rightarrow> gatewayEvaluation" where
  "notAccepted evaluation reason message =
     evaluation\<lparr>ge_acceptedReason := reason, ge_acceptedMessage := message,
       ge_programmedReason := ''Invalid'', ge_programmedMessage := message\<rparr>"

definition evaluateGateway ::
    "'w cluster \<Rightarrow> Gateway \<Rightarrow> GatewayClass option \<Rightarrow> TCPRoute list \<Rightarrow> gatewayEvaluation" where
  "evaluateGateway c gateway gatewayClass attachedRoutes =
     (let evaluation = \<lparr>ge_acceptedStatus = ConditionFalse, ge_acceptedReason = ''Pending'',
            ge_acceptedMessage = ''Waiting for GatewayClass acceptance.'', ge_programmedReason = ''Pending'',
            ge_programmedMessage = ''Waiting for controller reconciliation.'', ge_listeners = [], ge_valid = False,
            ge_selectedVIP = [], ge_needsVIP = False\<rparr> in
      case gatewayClass of
        None \<Rightarrow> notAccepted evaluation ''InvalidParameters'' (''GatewayClass '' @ Quote GatewayClassName @ '' was not found.'')
      | Some cls \<Rightarrow>
          if gc_ControllerName cls \<noteq> controllerName then
            notAccepted evaluation ''InvalidParameters''
              (''GatewayClass '' @ Quote (om_Name (gc_Meta cls)) @ '' is controlled by '' @ Quote (gc_ControllerName cls)
               @ '', not '' @ Quote controllerName @ ''.'')
          else
            let validation = validateGatewayListeners c (Some gateway);
                evaluation = evaluation\<lparr>ge_listeners := glv_statuses validation\<rparr> in
            if \<not> glv_valid validation then notAccepted evaluation ''ListenersNotValid'' (glv_message validation)
            else if length (gw_SpecAddresses gateway) > 0 then
              let message = ''Spec.addresses is not supported for '' @ GatewayClassName @ '' Gateways in this phase.'' in
              (notAccepted evaluation ''UnsupportedAddress'' message)\<lparr>ge_listeners :=
                 listenerStatusesForGatewayMessage c (gw_Listeners gateway) message (gw_Generation gateway)\<rparr>
            else
              let (statuses, firstError, usableListeners) =
                    fold (evaluateGatewayListener c gateway cls attachedRoutes) (glv_listeners validation) ([], [], 0);
                  evaluation = evaluation\<lparr>ge_listeners := statuses\<rparr> in
              if usableListeners = 0 then notAccepted evaluation ''Invalid'' firstError
              else evaluation\<lparr>ge_valid := True, ge_needsVIP := True, ge_acceptedStatus := ConditionTrue,
                     ge_acceptedReason := ''Accepted'',
                     ge_acceptedMessage := (if usableListeners = length (glv_listeners validation)
                        then ''Gateway accepted by clusterip-gw-controller.''
                        else ''Gateway accepted by clusterip-gw-controller; some listeners are not supported.''),
                     ge_programmedReason := ''Pending'', ge_programmedMessage := ''Waiting for VIP allocation.''\<rparr>)"

section \<open>Reconciling a Gateway\<close>

text \<open>How the outcome of the allocation enters the evaluation.\<close>

definition withVIP :: "'w cluster \<Rightarrow> Gateway \<Rightarrow> gatewayEvaluation \<Rightarrow> goerror + string \<Rightarrow> gatewayEvaluation" where
  "withVIP c gateway evaluation result =
     (case result of
        Inl err \<Rightarrow> evaluation\<lparr>ge_needsVIP := False, ge_selectedVIP := [],
          ge_programmedReason := ''AddressNotAssigned'', ge_programmedMessage := Error err,
          ge_listeners := setListenerProgrammedCondition c (ge_listeners evaluation) ConditionFalse
            ''AddressNotAssigned'' (Error err) (gw_Generation gateway)\<rparr>
      | Inr vip \<Rightarrow> evaluation\<lparr>ge_selectedVIP := vip, ge_programmedReason := ''Pending'',
          ge_programmedMessage := ''VIP reserved; dataplane programming is not implemented in this phase.'',
          ge_listeners := setListenerProgrammedCondition c (ge_listeners evaluation) ConditionFalse
            ''Pending'' ''VIP reserved; dataplane programming is pending.'' (gw_Generation gateway)\<rparr>)"

definition reconcileGateway :: "'w cluster \<Rightarrow> string \<Rightarrow> 'w call" where
  "reconcileGateway c key w =
     (case getGateway c key of
        Inl err \<Rightarrow> if isNotFound (Some err) then (None, w) else (Some err, w)
      | Inr gateway \<Rightarrow>
          if gw_GatewayClassName gateway \<noteq> GatewayClassName then
            (case gatewayPreviouslyManaged c gateway of
               Inl err \<Rightarrow> (Some err, w)
             | Inr previouslyManaged \<Rightarrow>
                 if previouslyManaged then
                   (case clearManagedGatewayStatus c gateway w of
                      (Some err, w1) \<Rightarrow> (Some err, w1)
                    | (None, w1) \<Rightarrow> cleanupGatewayResources c gateway w1)
                 else cleanupGatewayResources c gateway w)
          else if om_DeletionTimestamp (gw_Meta gateway) \<noteq> None then cleanupGatewayResources c gateway w
          else
            (case ensureGatewayFinalizer c gateway w of
               (Inl err, w1) \<Rightarrow> (Some err, w1)
             | (Inr finalizerAdded, w1) \<Rightarrow>
                 if finalizerAdded then (None, w1)
                 else case getGatewayClass c of
                        Inl err \<Rightarrow> (Some err, w1)
                      | Inr gatewayClass \<Rightarrow>
                          (case listRoutesForGateway c (gateway_key gateway) of
                             Inl err \<Rightarrow> (Some err, w1)
                           | Inr attachedRoutes \<Rightarrow>
                               let evaluation = evaluateGateway c gateway gatewayClass attachedRoutes in
                               if \<not> ge_valid evaluation then
                                 (case releaseGatewayIPAddresses c gateway w1 of
                                    (Some err, w2) \<Rightarrow> (Some err, w2)
                                  | (None, w2) \<Rightarrow> updateGatewayStatus c gateway evaluation w2)
                               else
                                 (let (result, w2) = ensureGatewayVIP c gateway w1 in
                                  updateGatewayStatus c gateway (withVIP c gateway evaluation result) w2))))"

section \<open>What a Gateway needs\<close>

text \<open>A listener is usable when exactly one route is attached to it, alone there, with a backend that
  resolves.\<close>

definition listener_usable :: "'w cluster \<Rightarrow> Gateway \<Rightarrow> TCPRoute list \<Rightarrow> Listener \<Rightarrow> bool" where
  "listener_usable c g routes l \<longleftrightarrow>
     (\<exists>r. attachedRoutesForListener g l routes = [r] \<and> alone_on_listener c r (matchingParentRef r g) g routes
          \<and> backend_resolves c r)"

text \<open>The status written for a listener that passed validation.\<close>

definition listener_outcome :: "'w cluster \<Rightarrow> Gateway \<Rightarrow> TCPRoute list \<Rightarrow> Listener \<Rightarrow> ListenerStatus \<Rightarrow> bool" where
  "listener_outcome c g routes l s \<longleftrightarrow>
     (if listener_usable c g routes l then s = listenerAccepted c l 1 (gw_Generation g)
      else \<exists>message. s = listenerRefused c l (of_nat (length (attachedRoutesForListener g l routes)))
                         ''UnsupportedValue'' message (gw_Generation g))"

lemma evaluateGatewayListener_step:
  assumes "gc_ControllerName cls = controllerName"
  shows "\<exists>s fe'. listener_outcome c g routes l s
    \<and> evaluateGatewayListener c g cls routes l (statuses, fe, n)
      = (statuses @ [s], fe', n + (if listener_usable c g routes l then 1 else 0))"
proof -
  have ours: "our_class (Some cls)" using assms by (simp add: our_class_def)
  show ?thesis
  proof (cases "\<exists>r. attachedRoutesForListener g l routes = [r]")
    case True
    then obtain r where r: "attachedRoutesForListener g l routes = [r]" by blast
    show ?thesis
      using evaluateRoute_status(1) [of c r "matchingParentRef r g" g "Some cls" routes]
        evaluateRoute_status(2) [OF ours, of c r "matchingParentRef r g" g routes] ours
      by (auto simp: evaluateGatewayListener_def listener_outcome_def listener_usable_def r Let_def)
  next
    case False
    then have "\<not> listener_usable c g routes l" by (auto simp: listener_usable_def)
    with False show ?thesis
      by (auto simp: evaluateGatewayListener_def listener_outcome_def Let_def split: list.splits)
  qed
qed

lemma evaluateGatewayListener_fold:
  assumes "gc_ControllerName cls = controllerName"
  shows "\<exists>ss fe'. list_all2 (listener_outcome c g routes) ls ss
    \<and> fold (evaluateGatewayListener c g cls routes) ls (statuses, fe, n)
      = (statuses @ ss, fe', n + length (filter (listener_usable c g routes) ls))"
proof (induction ls arbitrary: statuses fe n)
  case Nil
  then show ?case by simp
next
  case (Cons l ls)
  obtain s fe1 where s: "listener_outcome c g routes l s"
    "evaluateGatewayListener c g cls routes l (statuses, fe, n)
      = (statuses @ [s], fe1, n + (if listener_usable c g routes l then 1 else 0))"
    using evaluateGatewayListener_step [OF assms] by blast
  from Cons.IH [of "statuses @ [s]" fe1 "n + (if listener_usable c g routes l then 1 else 0)"] s
  show ?case by fastforce
qed

lemma listener_outcome_name: "listener_outcome c g routes l s \<Longrightarrow> lst_Name s = l_Name l"
  by (auto simp: listener_outcome_def listenerAccepted_def listenerRefused_def listenerStatusForOutcome_def
      split: if_splits)

lemma listener_outcome_names: "list_all2 (listener_outcome c g routes) ls ss \<Longrightarrow> map lst_Name ss = map l_Name ls"
  by (induction rule: list_all2_induct) (simp_all add: listener_outcome_name)

lemma notAccepted_simps [simp]:
  "ge_valid (notAccepted e reason message) = ge_valid e"
  "ge_acceptedStatus (notAccepted e reason message) = ge_acceptedStatus e"
  "ge_listeners (notAccepted e reason message) = ge_listeners e"
  "ge_selectedVIP (notAccepted e reason message) = ge_selectedVIP e"
  by (simp_all add: notAccepted_def)

lemma refusal_names: "map lst_Name (listenerStatusesForGatewayMessage c ls message gen) = map l_Name ls"
  by (simp add: listenerStatusesForGatewayMessage_def listenerRefused_def listenerStatusForOutcome_def)

lemma evaluateGateway_cases:
  fixes c :: "'w cluster" and g :: Gateway and routes :: "TCPRoute list"
  defines "ev cls \<equiv> evaluateGateway c g cls routes"
  shows "\<not> our_class cls \<Longrightarrow> \<not> ge_valid (ev cls) \<and> ge_acceptedStatus (ev cls) = ConditionFalse \<and> ge_listeners (ev cls) = []"
    and "our_class cls \<Longrightarrow> \<not> (glv_valid (validateGatewayListeners c (Some g)) \<and> gw_SpecAddresses g = []) \<Longrightarrow>
      \<not> ge_valid (ev cls) \<and> ge_acceptedStatus (ev cls) = ConditionFalse
      \<and> map lst_Name (ge_listeners (ev cls)) = map l_Name (gw_Listeners g)"
    and "our_class cls \<Longrightarrow> glv_valid (validateGatewayListeners c (Some g)) \<Longrightarrow> gw_SpecAddresses g = [] \<Longrightarrow>
      ge_valid (ev cls) = list_ex (listener_usable c g routes) (gw_Listeners g)
      \<and> ge_acceptedStatus (ev cls) = boolToConditionStatus (ge_valid (ev cls))
      \<and> list_all2 (listener_outcome c g routes) (gw_Listeners g) (ge_listeners (ev cls))"
    and "ge_selectedVIP (ev cls) = []"
proof -
  show "ge_selectedVIP (ev cls) = []"
    by (simp add: ev_def evaluateGateway_def Let_def split: option.splits prod.splits)
  show "\<not> ge_valid (ev cls) \<and> ge_acceptedStatus (ev cls) = ConditionFalse \<and> ge_listeners (ev cls) = []" if "\<not> our_class cls"
    using that by (auto simp: ev_def evaluateGateway_def our_class_def Let_def split: option.splits)
  show "\<not> ge_valid (ev cls) \<and> ge_acceptedStatus (ev cls) = ConditionFalse
      \<and> map lst_Name (ge_listeners (ev cls)) = map l_Name (gw_Listeners g)"
    if "our_class cls" "\<not> (glv_valid (validateGatewayListeners c (Some g)) \<and> gw_SpecAddresses g = [])"
    using that validateGatewayListeners_Some(3) [of c g]
    by (cases "glv_valid (validateGatewayListeners c (Some g))")
      (auto simp: ev_def evaluateGateway_def our_class_def Let_def refusal_names)
  show "ge_valid (ev cls) = list_ex (listener_usable c g routes) (gw_Listeners g)
      \<and> ge_acceptedStatus (ev cls) = boolToConditionStatus (ge_valid (ev cls))
      \<and> list_all2 (listener_outcome c g routes) (gw_Listeners g) (ge_listeners (ev cls))"
    if ours: "our_class cls" and v: "glv_valid (validateGatewayListeners c (Some g))" and "gw_SpecAddresses g = []"
  proof -
    obtain k where k: "cls = Some k" "gc_ControllerName k = controllerName" using ours by (auto simp: our_class_def)
    obtain ss fe' where f: "list_all2 (listener_outcome c g routes) (gw_Listeners g) ss"
      "fold (evaluateGatewayListener c g k routes) (gw_Listeners g) ([], [], 0)
        = (ss, fe', length (filter (listener_usable c g routes) (gw_Listeners g)))"
      using evaluateGatewayListener_fold [OF k(2), of c g routes "gw_Listeners g" "[]" "[]" 0] by auto
    have "length (filter (listener_usable c g routes) (gw_Listeners g)) = 0
        \<longleftrightarrow> \<not> list_ex (listener_usable c g routes) (gw_Listeners g)"
      by (auto simp: list_ex_iff filter_empty_conv)
    then show ?thesis
      using f that(3) k validateGatewayListeners_Some(2) [OF v] v
      by (auto simp: ev_def evaluateGateway_def Let_def boolToConditionStatus_def)
  qed
qed

text \<open>C26: Which Gateways the controller accepts. A Gateway is accepted, and gets a virtual IP, exactly
  when its class is run by this controller, its listeners are valid, it asks for no address of its own and
  at least one listener has exactly one attached route that is accepted and resolves. Under its class
  every listener has a status, in order; on a Gateway that passes the first three checks, exactly the
  usable listeners are accepted and all others are refused with the number of their routes.\<close>

theorem evaluateGateway_correct:
  "let ev = evaluateGateway c g cls routes in
     ge_valid ev = (our_class cls \<and> glv_valid (validateGatewayListeners c (Some g)) \<and> gw_SpecAddresses g = []
                    \<and> list_ex (listener_usable c g routes) (gw_Listeners g))
     \<and> ge_acceptedStatus ev = boolToConditionStatus (ge_valid ev)
     \<and> (if our_class cls then map lst_Name (ge_listeners ev) = map l_Name (gw_Listeners g) else ge_listeners ev = [])
     \<and> (if our_class cls \<and> glv_valid (validateGatewayListeners c (Some g)) \<and> gw_SpecAddresses g = []
        then list_all2 (listener_outcome c g routes) (gw_Listeners g) (ge_listeners ev) else True)"
  using evaluateGateway_cases [where c = c and g = g and routes = routes and cls = cls] listener_outcome_names
  unfolding Let_def by (auto simp: boolToConditionStatus_def)

section \<open>Effects of the Gateway reconciler\<close>

text \<open>A property of the world that every call of the reconciler keeps, except the creation of an
  IPAddress object.\<close>

definition kept_without_create :: "'w cluster \<Rightarrow> ('w \<Rightarrow> bool) \<Rightarrow> bool" where
  "kept_without_create c P \<longleftrightarrow>
     (\<forall>w. P w \<longrightarrow> (\<forall>ns n. P (snd (Gateways_Get c ns n w))) \<and> (\<forall>g. P (snd (Gateways_Update c g w)))
        \<and> (\<forall>g. P (snd (Gateways_UpdateStatus c g w))) \<and> (\<forall>n. P (snd (IPAddresses_Delete c n w))))"

lemma kept_calls:
  assumes "kept_without_create c P" and "P w"
  shows "P (snd (Gateways_Get c ns n w))" "P (snd (Gateways_Update c g w))" "P (snd (Gateways_UpdateStatus c g w))"
    "P (snd (IPAddresses_Delete c nm w))"
  using assms unfolding kept_without_create_def by blast+

lemma releaseGatewayIPAddresses_kept:
  assumes "kept_without_create c P" and "P w"
  shows "P (snd (releaseGatewayIPAddresses c g w))"
proof -
  have "P (snd (for_each IsNotFound (\<lambda>ip. IPAddresses_Delete c (om_Name (ip_Meta ip))) owned w))" for owned
    using for_each_invariant [where P = P] kept_calls(4) [OF assms(1)] assms(2) by (metis prod.collapse)
  with assms(2) show ?thesis by (auto simp: releaseGatewayIPAddresses_def split: sum.splits)
qed

lemma updateGatewayStatus_kept:
  "kept_without_create c P \<Longrightarrow> P w \<Longrightarrow> P (snd (updateGatewayStatus c g ev w))"
  "kept_without_create c P \<Longrightarrow> P w \<Longrightarrow> P (snd (clearManagedGatewayStatus c g w))"
  by (auto simp: updateGatewayStatus_def clearManagedGatewayStatus_def Let_def intro: kept_calls(3))

lemma removeGatewayFinalizer_kept:
  assumes "kept_without_create c P" and "P w"
  shows "P (snd (removeGatewayFinalizer c g w))"
proof -
  obtain r w1 where r: "Gateways_Get c (gw_Namespace g) (gw_Name g) w = (r, w1)" by fastforce
  have w1: "P w1" using kept_calls(1) [OF assms, of "gw_Namespace g" "gw_Name g"] r by simp
  have "P (snd (Gateways_Update c g' w1))" for g' by (rule kept_calls(2) [OF assms(1) w1])
  then show ?thesis
    using r w1 by (auto simp: removeGatewayFinalizer_def split: sum.splits prod.splits option.splits) (metis snd_conv)+
qed

lemma cleanupGatewayResources_kept:
  assumes "kept_without_create c P" and "P w"
  shows "P (snd (cleanupGatewayResources c g w))"
  using releaseGatewayIPAddresses_kept [OF assms, of g] removeGatewayFinalizer_kept [OF assms(1)]
  by (auto simp: cleanupGatewayResources_def split: prod.splits option.splits)

lemma ensureGatewayFinalizer_kept:
  assumes "kept_without_create c P" and "P w"
  shows "P (snd (ensureGatewayFinalizer c g w))"
proof -
  obtain r w1 where r: "Gateways_Get c (gw_Namespace g) (gw_Name g) w = (r, w1)" by fastforce
  have w1: "P w1" using kept_calls(1) [OF assms, of "gw_Namespace g" "gw_Name g"] r by simp
  have "P (snd (Gateways_Update c g' w1))" for g' by (rule kept_calls(2) [OF assms(1) w1])
  then show ?thesis
    using r w1 assms(2) by (auto simp: ensureGatewayFinalizer_def split: sum.splits prod.splits option.splits) (metis snd_conv)+
qed

lemma ensureGatewayFinalizer_False:
  assumes "ensureGatewayFinalizer c g w = (Inr False, w1)"
  shows "controllerFinalizer \<in> set (om_Finalizers (gw_Meta g)) \<or>
    (\<exists>current. Gateways_Get c (gw_Namespace g) (gw_Name g) w = (Inr current, w1)
       \<and> controllerFinalizer \<in> set (om_Finalizers (gw_Meta current)))"
  using assms by (auto simp: ensureGatewayFinalizer_def split: if_splits prod.splits sum.splits option.splits)

text \<open>The reconciler on a Gateway of this class that is not being deleted, past the finalizer.\<close>

lemma reconcileGateway_live:
  assumes "getGateway c key = Inr g" and "gw_GatewayClassName g = GatewayClassName"
    and "om_DeletionTimestamp (gw_Meta g) = None" and "ensureGatewayFinalizer c g w = (Inr False, w1)"
    and "getGatewayClass c = Inr cls" and "listRoutesForGateway c (gateway_key g) = Inr routes"
  shows "reconcileGateway c key w =
    (let ev = evaluateGateway c g cls routes in
     if \<not> ge_valid ev then
       (case releaseGatewayIPAddresses c g w1 of
          (Some err, w2) \<Rightarrow> (Some err, w2) | (None, w2) \<Rightarrow> updateGatewayStatus c g ev w2)
     else (let (result, w2) = ensureGatewayVIP c g w1 in updateGatewayStatus c g (withVIP c g ev result) w2))"
  using assms by (simp add: reconcileGateway_def)

text \<open>C7: Addresses are reserved only under protection. If reconciling a Gateway breaks a property of
  the world that no call but the creation of an IPAddress object can break, then the Gateway is of this
  class, is not being deleted, is accepted by the evaluation, and carries the controller's finalizer, in
  the cache or in the object just read from the API server: no address outlives its Gateway unnoticed.\<close>

theorem allocation_is_protected:
  assumes "getGateway c key = Inr g" and "kept_without_create c P" and "P w"
    and "\<not> P (snd (reconcileGateway c key w))"
  shows "gw_GatewayClassName g = GatewayClassName \<and> om_DeletionTimestamp (gw_Meta g) = None
    \<and> (controllerFinalizer \<in> set (om_Finalizers (gw_Meta g)) \<or>
       (\<exists>current w1. Gateways_Get c (gw_Namespace g) (gw_Name g) w = (Inr current, w1)
          \<and> controllerFinalizer \<in> set (om_Finalizers (gw_Meta current))))
    \<and> (\<exists>cls routes. getGatewayClass c = Inr cls \<and> listRoutesForGateway c (gateway_key g) = Inr routes
         \<and> ge_valid (evaluateGateway c g cls routes))"
proof -
  note kept = cleanupGatewayResources_kept [OF assms(2)] updateGatewayStatus_kept [OF assms(2)]
    releaseGatewayIPAddresses_kept [OF assms(2)]
  obtain e w0 where clear: "clearManagedGatewayStatus c g w = (e, w0)" by fastforce
  then have "P w0" using kept(3) [OF assms(3), of g] by simp
  then have cl: "gw_GatewayClassName g = GatewayClassName"
    using assms(1,3,4) kept(1) clear
    by (force simp: reconcileGateway_def split: sum.splits option.splits if_splits)
  have live: "om_DeletionTimestamp (gw_Meta g) = None"
    using assms(1,4) kept(1) [OF assms(3), of g] cl by (cases "om_DeletionTimestamp (gw_Meta g)") (simp_all add: reconcileGateway_def)
  obtain r w1 where fin: "ensureGatewayFinalizer c g w = (r, w1)" by fastforce
  have w1: "P w1" using ensureGatewayFinalizer_kept [OF assms(2,3), of g] fin by simp
  obtain cls routes where r: "r = Inr False" "getGatewayClass c = Inr cls"
    "listRoutesForGateway c (gateway_key g) = Inr routes"
    using assms(1,4) cl live fin w1 by (auto simp: reconcileGateway_def split: sum.splits if_splits)
  have "ge_valid (evaluateGateway c g cls routes)"
  proof (rule ccontr)
    assume inv: "\<not> ge_valid (evaluateGateway c g cls routes)"
    obtain e2 w2 where rel: "releaseGatewayIPAddresses c g w1 = (e2, w2)" by fastforce
    then have "P w2" using kept(4) [OF w1, of g] by simp
    then show False
      using reconcileGateway_live [OF assms(1) cl live fin [unfolded r(1)] r(2,3)] assms(4) inv rel kept(2)
      by (auto simp: Let_def split: option.splits)
  qed
  with cl live r ensureGatewayFinalizer_False [OF fin [unfolded r(1)]] show ?thesis by blast
qed

text \<open>C27: A Gateway that is no longer valid gives its addresses back: past the finalizer, when the
  evaluation refuses it, the addresses it owns are deleted and nothing else is touched before the status
  is written; the status is written only when none of them is present any more, and it publishes no
  address. When a delete fails, its error is returned and the rest of the world, the statuses included,
  is as it was.\<close>

theorem invalid_gateway_releases:
  assumes "getGateway c key = Inr g" and "gw_GatewayClassName g = GatewayClassName"
    and "om_DeletionTimestamp (gw_Meta g) = None" and "controllerFinalizer \<in> set (om_Finalizers (gw_Meta g))"
    and "getGatewayClass c = Inr cls" and "listRoutesForGateway c (gateway_key g) = Inr routes"
    and "\<not> ge_valid (evaluateGateway c g cls routes)"
    and "listOwnedGatewayIPAddresses c (gateway_key g) = Inr owned" and "ip_delete_api c present"
    and "\<forall>n w. rest (snd (IPAddresses_Delete c n w)) = rest w"
  shows "\<exists>w'. rest w' = rest w \<and> present w - ip_name ` set owned \<subseteq> present w' \<and> present w' \<subseteq> present w
    \<and> (present w' = present w - ip_name ` set owned
         \<and> reconcileGateway c key w = updateGatewayStatus c g (evaluateGateway c g cls routes) w'
         \<and> gw_Addresses (gatewayWithStatus c g (evaluateGateway c g cls routes)) = []
       \<or> (\<exists>err. reconcileGateway c key w = (Some err, w') \<and> \<not> IsNotFound err
            \<and> (\<exists>ip\<in>set owned. \<exists>v v'. IPAddresses_Delete c (ip_name ip) v = (Some err, v'))))"
proof -
  have fin: "ensureGatewayFinalizer c g w = (Inr False, w)" using assms(4) by (simp add: ensureGatewayFinalizer_def)
  have none: "gw_Addresses (gatewayWithStatus c g (evaluateGateway c g cls routes)) = []"
    by (simp add: gatewayWithStatus_def evaluateGateway_cases(4))
  note live = reconcileGateway_live [OF assms(1-3) fin assms(5,6), unfolded Let_def]
  from assms(8-10) show ?thesis
  proof (cases rule: release_outcome [of c g owned present rest w])
    case (released w')
    then show ?thesis using live assms(7) none by (intro exI [of _ w']) simp
  next
    case (failed err w')
    then show ?thesis using live assms(7) by (intro exI [of _ w']) simp
  qed
qed

section \<open>A sample cluster\<close>

text \<open>The Gateway \<open>default/demo\<close> with its class, its route, the selector of the route and one ServiceCIDR;
  the world is the set of IPAddress names at the API server.\<close>

definition demo_gateway :: Gateway where
  "demo_gateway = gateway_with_finalizers (sample_gateway\<lparr>gw_Addresses := []\<rparr>) [controllerFinalizer]"

definition demo_selector :: XEndpointSelector where
  "demo_selector = \<lparr>xs_APIVersion = [], xs_Kind = [], xs_Meta = sample_meta ''default'' ''app'',
     xs_Selector = \<lparr>ls_MatchLabels = [(''app'', ''demo'')], ls_MatchExpressions = []\<rparr>, xs_Conditions = []\<rparr>"

definition demo_cluster :: "string set cluster" where
  "demo_cluster = ip_cluster\<lparr>
     gatewayClasses_Get := (\<lambda>n. Inr sample_class),
     gateways_Get := (\<lambda>ns n. Inr demo_gateway),
     routes_Get := (\<lambda>ns n. Inr sample_route),
     routes_ByIndex := (\<lambda>i key. Inr [OTCPRoute sample_route]),
     endpointSelectors_GetByKey := (\<lambda>key. Inr (Some \<lparr>us_Namespace = ''default'', us_Name = ''app'', us_Object = []\<rparr>)),
     FromUnstructured := (\<lambda>u. Inr demo_selector)\<rparr>"

lemmas demo_defs = demo_gateway_def gateway_with_finalizers_def

lemma demo_fields:
  "gw_Namespace demo_gateway = ''default''" "gw_Name demo_gateway = ''demo''" "gw_Generation demo_gateway = 1"
  "gw_GatewayClassName demo_gateway = GatewayClassName" "om_DeletionTimestamp (gw_Meta demo_gateway) = None"
  "gw_Listeners demo_gateway = [sample_listener]" "gw_SpecAddresses demo_gateway = []"
  "om_Finalizers (gw_Meta demo_gateway) = [controllerFinalizer]"
  by (simp_all add: demo_defs sample_defs GatewayClassName_def)

lemma demo_reads:
  "getGateway demo_cluster ''default/demo'' = Inr demo_gateway"
  "getGatewayClass demo_cluster = Inr (Some sample_class)"
  "listRoutesForGateway demo_cluster key = Inr [sample_route]"
  "listOwnedGatewayIPAddresses demo_cluster key = Inr []"
  "listIPv4ServiceCIDRs demo_cluster = Inr [sample_prefix]" "listTakenIPs demo_cluster = Inr {''10.96.0.1''}"
  "ip_api demo_cluster id" "ip_delete_api demo_cluster id"
proof -
  have "splitNamespacedKey ''default/demo'' = Inr (NamespacedName ''default'' ''demo'')" by code_simp
  then show "getGateway demo_cluster ''default/demo'' = Inr demo_gateway"
    by (simp add: getGateway_def demo_cluster_def)
qed (use ip_cluster_api ip_cluster_reads in \<open>simp_all add: demo_cluster_def getGatewayClass_def listRoutesForGateway_def
    listOwnedGatewayIPAddresses_def listIPv4ServiceCIDRs_def listTakenIPs_def ip_api_def ip_delete_api_def
    ip_cluster_def empty_cluster_def\<close>)

lemma sample_route_resolves:
  assumes "getEndpointSelector c (NamespacedName ''default'' ''app'') = Inr selector"
    and "LabelSelectorAsSelector c (xs_Selector selector) = Inr matches"
  shows "backend_resolves c sample_route"
  using assms by (auto simp: backend_resolves_def sample_route_def sample_defs string_or_def)

lemma demo_resolves: "backend_resolves demo_cluster sample_route"
proof (rule sample_route_resolves)
  show "getEndpointSelector demo_cluster (NamespacedName ''default'' ''app'') = Inr demo_selector"
    by (simp add: getEndpointSelector_def demo_cluster_def endpointSelectorFromObject_def
        endpointSelectorFromUnstructured_def)
  show "LabelSelectorAsSelector demo_cluster (xs_Selector demo_selector) = Inr (\<lambda>_. True)"
    by (simp add: demo_cluster_def ip_cluster_def empty_cluster_def)
qed

lemma demo_listeners: "glv_valid (validateGatewayListeners c (Some demo_gateway))"
  by (simp add: validateGatewayListeners_Some demo_fields listener_supported_def allowedRoutesSupported_def sample_listener_def)

lemma demo_attached: "attachedRoutesForListener demo_gateway sample_listener [sample_route] = [sample_route]"
  by (simp add: attachedRoutesForListener_eq demo_fields sample_route_defs sample_defs)

lemma demo_alone: "alone_on_listener c sample_route (hd (tr_ParentRefs sample_route)) demo_gateway [sample_route]"
proof -
  have "filter (parentMatchesListener (hd (tr_ParentRefs sample_route))) (gw_Listeners demo_gateway) = [sample_listener]"
    by (simp add: demo_fields sample_route_defs sample_defs)
  then show ?thesis
    using demo_attached demo_listeners by (auto simp: alone_on_listener_def demo_fields sample_route_def sample_defs)
qed

lemma demo_usable: "listener_usable demo_cluster demo_gateway [sample_route] sample_listener"
proof -
  have "matchingParentRef sample_route demo_gateway = hd (tr_ParentRefs sample_route)"
    by (simp add: matchingParentRef_def demo_fields sample_route_defs sample_defs)
  with demo_attached demo_alone demo_resolves show ?thesis by (simp add: listener_usable_def)
qed

lemma demo_valid: "ge_valid (evaluateGateway demo_cluster demo_gateway (Some sample_class) [sample_route])"
  using evaluateGateway_cases(3) [OF sample_class_ours demo_listeners demo_fields(7), where c = demo_cluster and routes = "[sample_route]"]
    demo_usable
  by (simp add: demo_fields)

lemma demo_alloc: "ensureGatewayVIP demo_cluster demo_gateway {} = (Inr ''10.96.0.2'', {''10.96.0.2''})"
  by (rule sample_alloc) (rule demo_reads)+

lemma demo_finalizer: "ensureGatewayFinalizer demo_cluster demo_gateway w = (Inr False, w)"
  by (simp add: ensureGatewayFinalizer_def demo_fields)

lemma demo_status_call: "snd (Gateways_UpdateStatus demo_cluster g w) = w"
  by (simp add: demo_cluster_def ip_cluster_def empty_cluster_def)

lemma demo_reconcile: "snd (reconcileGateway demo_cluster ''default/demo'' {}) = {''10.96.0.2''}"
  unfolding reconcileGateway_live [OF demo_reads(1) demo_fields(4,5) demo_finalizer demo_reads(2,3)]
  using demo_valid demo_alloc by (simp add: Let_def updateGatewayStatus_def demo_status_call)

theorem allocation_is_protected_witness:
  "reconcileGateway demo_cluster ''default/demo'' {} \<noteq> (None, {})
    \<and> ge_valid (evaluateGateway demo_cluster demo_gateway (Some sample_class) [sample_route])"
proof -
  have "kept_without_create demo_cluster (\<lambda>w. w = {})"
    by (auto simp: kept_without_create_def demo_cluster_def ip_cluster_def empty_cluster_def)
  moreover have ne: "snd (reconcileGateway demo_cluster ''default/demo'' {}) \<noteq> {}" by (simp add: demo_reconcile)
  ultimately obtain cls routes where "getGatewayClass demo_cluster = Inr cls"
    "listRoutesForGateway demo_cluster (gateway_key demo_gateway) = Inr routes"
    "ge_valid (evaluateGateway demo_cluster demo_gateway cls routes)"
    using allocation_is_protected [OF demo_reads(1), of "\<lambda>w. w = {}" "{}"] by blast
  with ne show ?thesis unfolding demo_reads by (metis snd_conv sum.inject(2))
qed

definition refusing_cluster :: "string set cluster" where
  "refusing_cluster = owning_cluster\<lparr>gatewayClasses_Get := (\<lambda>n. Inr sample_class),
     gateways_Get := (\<lambda>ns n. Inr demo_gateway), routes_ByIndex := (\<lambda>i key. Inr [])\<rparr>"

theorem invalid_gateway_releases_witness:
  "\<exists>w' ev. w' = {''10.96.0.9''}
    \<and> reconcileGateway refusing_cluster ''default/demo'' {''10.96.0.5'', ''10.96.0.7'', ''10.96.0.9''}
      = updateGatewayStatus refusing_cluster demo_gateway ev w'"
proof -
  have "splitNamespacedKey ''default/demo'' = Inr (NamespacedName ''default'' ''demo'')" by code_simp
  then have g: "getGateway refusing_cluster ''default/demo'' = Inr demo_gateway"
    by (simp add: getGateway_def refusing_cluster_def)
  have r: "getGatewayClass refusing_cluster = Inr (Some sample_class)"
    "listRoutesForGateway refusing_cluster (gateway_key demo_gateway) = Inr []"
    "listOwnedGatewayIPAddresses refusing_cluster (gateway_key demo_gateway)
      = Inr [sample_ip ''10.96.0.7'', sample_ip ''10.96.0.5'']" "ip_delete_api refusing_cluster id"
    using owning_cluster_reads(1) [of demo_gateway]
    by (simp_all add: refusing_cluster_def getGatewayClass_def listRoutesForGateway_def
        listOwnedGatewayIPAddresses_def) (simp add: ip_delete_api_def owning_cluster_def ip_cluster_def)
  have deletes: "IPAddresses_Delete refusing_cluster = IPAddresses_Delete owning_cluster"
    by (simp add: refusing_cluster_def)
  have "\<not> listener_usable refusing_cluster demo_gateway [] sample_listener"
    by (simp add: listener_usable_def attachedRoutesForListener_eq)
  then have inv: "\<not> ge_valid (evaluateGateway refusing_cluster demo_gateway (Some sample_class) [])"
    using evaluateGateway_cases(3) [OF sample_class_ours demo_listeners demo_fields(7),
        where c = refusing_cluster and routes = "[]"] by (simp add: demo_fields)
  have fin: "controllerFinalizer \<in> set (om_Finalizers (gw_Meta demo_gateway))" by (simp add: demo_fields)
  show ?thesis
    using invalid_gateway_releases [OF g demo_fields(4,5) fin r(1,2) inv r(3,4),
        where w = "{''10.96.0.5'', ''10.96.0.7'', ''10.96.0.9''}" and rest = "\<lambda>_. ()"] owning_cluster_delete
    by (auto simp: sample_ip_name deletes) (metis fst_conv)+
qed

end
