(* ===== verification/EndpointSelectorReconcile.thy ===== *)
theory EndpointSelectorReconcile
  imports GatewayReconcile GoHash "HOL-Library.Product_Lexorder"
begin

text \<open>
  \<open>internal/controller/endpointselector_reconcile.go\<close>: the controller keeps one EndpointSlice per
  listener that a selector backs. The bindings are the listeners of accepted routes that name the
  selector, the endpoints are the ready IPv4 pods the selector matches, and the slices that exist are
  updated, deleted or created until they are the desired ones. The map of desired slices is walked in an
  order the language leaves open, an argument of the reconciler.
\<close>

section \<open>Selector status\<close>

definition endpointSelectorStatusEqual :: "XEndpointSelector \<Rightarrow> XEndpointSelector \<Rightarrow> bool" where
  "endpointSelectorStatusEqual oldObj newObj = conditionsEqual (xs_Conditions oldObj) (xs_Conditions newObj)"

definition endpointSelectorToUnstructured :: "'w cluster \<Rightarrow> XEndpointSelector \<Rightarrow> goerror + Unstructured" where
  "endpointSelectorToUnstructured c selector0 =
     (let selector1 = (if xs_APIVersion selector0 = []
            then selector0\<lparr>xs_APIVersion := ''gateway.networking.x-k8s.io/v1alpha1''\<rparr> else selector0);
          selector = (if xs_Kind selector1 = [] then selector1\<lparr>xs_Kind := endpointSelectorKind\<rparr> else selector1) in
      case ToUnstructured c selector of Inl err \<Rightarrow> Inl err | Inr obj \<Rightarrow> Inr obj)"

definition updateEndpointSelectorStatus ::
    "'w cluster \<Rightarrow> XEndpointSelector \<Rightarrow> ConditionStatus \<Rightarrow> string \<Rightarrow> string \<Rightarrow> 'w call" where
  "updateEndpointSelectorStatus c selector status reason message w =
     (let updated = selector\<lparr>xs_Conditions := mergeConditions c []
            [condition c ''Accepted'' status reason message (om_Generation (xs_Meta selector))]\<rparr> in
      if endpointSelectorStatusEqual selector updated then (None, w)
      else case endpointSelectorToUnstructured c updated of
             Inl err \<Rightarrow> (Some err, w)
           | Inr unstructuredSelector \<Rightarrow>
               XEndpointSelectors_UpdateStatus c (om_Namespace (xs_Meta updated)) unstructuredSelector w)"

section \<open>Bindings\<close>

record gatewayBinding =
  gb_gateway :: Gateway
  gb_listenerName :: string
  gb_backendPort :: int32

abbreviation selector_key :: "XEndpointSelector \<Rightarrow> NamespacedName" where
  "selector_key s \<equiv> NamespacedName (om_Namespace (xs_Meta s)) (om_Name (xs_Meta s))"

text \<open>The loop over the parent references of a route: the first reference under which the route is
  accepted and resolved gives the binding.\<close>

fun binding_loop :: "'w cluster \<Rightarrow> TCPRoute \<Rightarrow> int32 \<Rightarrow> ParentReference list \<Rightarrow> goerror + gatewayBinding option" where
  "binding_loop c route port [] = Inr None"
| "binding_loop c route port (parentRef # parentRefs) =
     (if \<not> isGatewayParentRef parentRef then binding_loop c route port parentRefs
      else case gateways_Get c (string_or (tr_Namespace route) (pr_Namespace parentRef)) (pr_Name parentRef) of
             Inl err \<Rightarrow> if IsNotFound err then binding_loop c route port parentRefs else Inl err
           | Inr gateway \<Rightarrow>
               if gw_GatewayClassName gateway \<noteq> GatewayClassName then binding_loop c route port parentRefs
               else case getGatewayClass c of
                      Inl err \<Rightarrow> Inl err
                    | Inr gatewayClass \<Rightarrow>
                        (case listRoutesForGateway c (gateway_key gateway) of
                           Inl err \<Rightarrow> Inl err
                         | Inr attachedRoutes \<Rightarrow>
                             let evaluation = evaluateRoute c route parentRef gateway gatewayClass attachedRoutes in
                             if re_acceptedStatus evaluation \<noteq> ConditionTrue \<or> re_resolvedStatus evaluation \<noteq> ConditionTrue
                             then binding_loop c route port parentRefs
                             else case resolveGatewayListener c gateway parentRef of
                                    Inl err \<Rightarrow> binding_loop c route port parentRefs
                                  | Inr listener \<Rightarrow>
                                      Inr (Some \<lparr>gb_gateway = gateway, gb_listenerName = l_Name listener,
                                                 gb_backendPort = port\<rparr>)))"

definition gatewayBindingForRoute ::
    "'w cluster \<Rightarrow> XEndpointSelector \<Rightarrow> TCPRoute \<Rightarrow> goerror + gatewayBinding option" where
  "gatewayBindingForRoute c selector route =
     (if length (tr_Rules route) \<noteq> 1 \<or> length (tr_Rules route ! 0) \<noteq> 1 then Inr None
      else
        let backend = tr_Rules route ! 0 ! 0 in
        if \<not> isEndpointSelectorBackendRef (tr_Namespace route) backend then Inr None
        else if string_or (tr_Namespace route) (br_Namespace backend) \<noteq> om_Namespace (xs_Meta selector)
                \<or> br_Name backend \<noteq> om_Name (xs_Meta selector) then Inr None
        else case br_Port backend of
               None \<Rightarrow> Inr None
             | Some port \<Rightarrow> binding_loop c route port (tr_ParentRefs route))"

definition binding_key :: "gatewayBinding \<Rightarrow> string" where
  "binding_key b = namespacedKey (gateway_key (gb_gateway b)) @ '':'' @ gb_listenerName b"

fun bindings_loop ::
    "'w cluster \<Rightarrow> XEndpointSelector \<Rightarrow> obj list \<Rightarrow> string set \<Rightarrow> gatewayBinding list \<Rightarrow> goerror + gatewayBinding list" where
  "bindings_loop c selector [] seen bindings = Inr bindings"
| "bindings_loop c selector (item # items) seen bindings =
     (case routeFromObject item of
        Inl panic \<Rightarrow> Inl panic
      | Inr route \<Rightarrow>
          (case gatewayBindingForRoute c selector route of
             Inl err \<Rightarrow> Inl err
           | Inr None \<Rightarrow> bindings_loop c selector items seen bindings
           | Inr (Some binding) \<Rightarrow>
               if binding_key binding \<in> seen then bindings_loop c selector items seen bindings
               else bindings_loop c selector items (insert (binding_key binding) seen) (bindings @ [binding])))"

definition listReferencedGatewayBindings :: "'w cluster \<Rightarrow> XEndpointSelector \<Rightarrow> goerror + gatewayBinding list" where
  "listReferencedGatewayBindings c selector =
     (case routes_ByIndex c routeByBackendEndpointSelectorIndex (namespacedKey (selector_key selector)) of
        Inl err \<Rightarrow> Inl err
      | Inr items \<Rightarrow>
          (case bindings_loop c selector items {} [] of
             Inl err \<Rightarrow> Inl err
           | Inr bindings \<Rightarrow> Inr (go_sort binding_key bindings)))"

section \<open>Endpoints\<close>

fun podReady_loop :: "(string \<times> string) list \<Rightarrow> bool" where
  "podReady_loop [] = False"
| "podReady_loop ((conditionType, status) # conds) =
     (if conditionType = ''Ready'' then status = ConditionTrue else podReady_loop conds)"

definition podReady :: "Pod \<Rightarrow> bool" where
  "podReady pod = podReady_loop (pod_Conditions pod)"

definition isIPv4String :: "string \<Rightarrow> bool" where
  "isIPv4String value \<longleftrightarrow> To4 (ParseIP value) \<noteq> []"

definition endpointForPod :: "Pod \<Rightarrow> SliceEndpoint option" where
  "endpointForPod pod =
     (if om_Namespace (pod_Meta pod) = [] \<or> om_Name (pod_Meta pod) = [] \<or> om_DeletionTimestamp (pod_Meta pod) \<noteq> None
      then None
      else if \<not> podReady pod \<or> \<not> isIPv4String (pod_PodIP pod) then None
      else Some \<lparr>se_Addresses = [pod_PodIP pod], se_Ready = Some True,
             se_TargetRef = Some \<lparr>oref_APIVersion = ''v1'', oref_Kind = ''Pod'', oref_Namespace = om_Namespace (pod_Meta pod),
               oref_Name = om_Name (pod_Meta pod), oref_UID = om_UID (pod_Meta pod)\<rparr>,
             se_NodeName = (if pod_NodeName pod \<noteq> [] then Some (pod_NodeName pod) else None)\<rparr>)"

text \<open>The order of the endpoints: by address, then by the name of the pod. Every endpoint has an address
  and a target.\<close>

definition endpoint_order :: "SliceEndpoint \<Rightarrow> string \<times> string" where
  "endpoint_order e = (hd (se_Addresses e), case se_TargetRef e of None \<Rightarrow> [] | Some r \<Rightarrow> oref_Name r)"

definition buildEndpointSliceEndpoints :: "'w cluster \<Rightarrow> XEndpointSelector \<Rightarrow> goerror + SliceEndpoint list" where
  "buildEndpointSliceEndpoints c selector =
     (case LabelSelectorAsSelector c (xs_Selector selector) of
        Inl err \<Rightarrow> Inl err
      | Inr matches \<Rightarrow>
          (case pods_List c (om_Namespace (xs_Meta selector)) of
             Inl err \<Rightarrow> Inl err
           | Inr pods \<Rightarrow>
               Inr (go_sort endpoint_order
                 (fold (\<lambda>pod endpoints.
                    if \<not> matches (om_Labels (pod_Meta pod)) then endpoints
                    else case endpointForPod pod of None \<Rightarrow> endpoints | Some endpoint \<Rightarrow> endpoints @ [endpoint]) pods []))))"

section \<open>Slices\<close>

definition endpointSliceName :: "string \<Rightarrow> string \<Rightarrow> string" where
  "endpointSliceName gatewayName listenerName =
     (let name = (if listenerName \<noteq> [] then gatewayName @ ''-'' @ listenerName else gatewayName) in
      if length name \<le> 63 then name
      else
        let suffix = ''-'' @ EncodeToString (take 4 (sha1_Sum (string_bytes name)));
            maxPrefixLen = 63 - length suffix in
        take maxPrefixLen name @ suffix)"

text \<open>\<open>metav1.NewControllerRef\<close> for a Gateway of \<open>gateway.networking.k8s.io/v1\<close>.\<close>

definition gatewayControllerRef :: "Gateway \<Rightarrow> OwnerReference" where
  "gatewayControllerRef gateway =
     \<lparr>or_APIVersion = ''gateway.networking.k8s.io/v1'', or_Kind = ''Gateway'', or_Name = gw_Name gateway,
      or_UID = om_UID (gw_Meta gateway), or_Controller = Some True, or_BlockOwnerDeletion = Some True\<rparr>"

definition desiredEndpointSlice ::
    "XEndpointSelector \<Rightarrow> Gateway \<Rightarrow> string \<Rightarrow> int32 \<Rightarrow> SliceEndpoint list \<Rightarrow> EndpointSlice" where
  "desiredEndpointSlice selector gateway listenerName port endpoints =
     \<lparr>es_Meta = emptyMeta\<lparr>om_Namespace := gw_Namespace gateway,
        om_Name := endpointSliceName (gw_Name gateway) listenerName,
        om_Labels := [LabelManagedBy \<mapsto> ManagedByValue,
          EndpointSelectorNamespaceLabelKey \<mapsto> om_Namespace (xs_Meta selector),
          EndpointSelectorNameLabelKey \<mapsto> om_Name (xs_Meta selector),
          GatewayNamespaceLabelKey \<mapsto> gw_Namespace gateway,
          GatewayNameLabelKey \<mapsto> gw_Name gateway,
          GatewayListenerLabelKey \<mapsto> listenerName],
        om_OwnerReferences := [gatewayControllerRef gateway]\<rparr>,
      es_AddressType = ''IPv4'',
      es_Ports = [\<lparr>ep_Name = None, ep_Protocol = Some ''TCP'', ep_Port = Some port\<rparr>],
      es_Endpoints = endpoints\<rparr>"

fun slices_from_objects :: "obj list \<Rightarrow> goerror + EndpointSlice list" where
  "slices_from_objects [] = Inr []"
| "slices_from_objects (item # items) =
     (case endpointSliceFromObject item of
        Inl panic \<Rightarrow> Inl panic
      | Inr s \<Rightarrow> (case slices_from_objects items of Inl panic \<Rightarrow> Inl panic | Inr ss \<Rightarrow> Inr (s # ss)))"

definition listManagedEndpointSlices :: "'w cluster \<Rightarrow> NamespacedName \<Rightarrow> goerror + EndpointSlice list" where
  "listManagedEndpointSlices c key =
     (case endpointSlices_ByIndex c endpointSliceByEndpointSelectorIndex (namespacedKey key) of
        Inl err \<Rightarrow> Inl err
      | Inr items \<Rightarrow> slices_from_objects items)"

abbreviation slice_ns :: "EndpointSlice \<Rightarrow> string" where "slice_ns s \<equiv> om_Namespace (es_Meta s)"
abbreviation slice_name :: "EndpointSlice \<Rightarrow> string" where "slice_name s \<equiv> om_Name (es_Meta s)"

definition deleteManagedEndpointSlices :: "'w cluster \<Rightarrow> NamespacedName \<Rightarrow> 'w call" where
  "deleteManagedEndpointSlices c key w =
     (case listManagedEndpointSlices c key of
        Inl err \<Rightarrow> (Some err, w)
      | Inr existing \<Rightarrow> for_each IsNotFound (\<lambda>s. EndpointSlices_Delete c (slice_ns s) (slice_name s)) existing w)"

definition endpointSliceEqual :: "EndpointSlice \<Rightarrow> EndpointSlice \<Rightarrow> bool" where
  "endpointSliceEqual a b \<longleftrightarrow>
     om_Labels (es_Meta a) = om_Labels (es_Meta b) \<and> om_OwnerReferences (es_Meta a) = om_OwnerReferences (es_Meta b)
     \<and> es_AddressType a = es_AddressType b \<and> es_Ports a = es_Ports b \<and> es_Endpoints a = es_Endpoints b"

definition updatedSlice :: "EndpointSlice \<Rightarrow> EndpointSlice \<Rightarrow> EndpointSlice" where
  "updatedSlice endpointSlice desiredSlice =
     endpointSlice\<lparr>es_Meta := (es_Meta endpointSlice)\<lparr>om_Labels := om_Labels (es_Meta desiredSlice),
         om_OwnerReferences := om_OwnerReferences (es_Meta desiredSlice)\<rparr>,
       es_AddressType := es_AddressType desiredSlice, es_Ports := es_Ports desiredSlice,
       es_Endpoints := es_Endpoints desiredSlice\<rparr>"

section \<open>Reconciling a selector\<close>

type_synonym desired_slices = "string \<rightharpoonup> EndpointSlice"

definition desiredSlices :: "XEndpointSelector \<Rightarrow> gatewayBinding list \<Rightarrow> SliceEndpoint list \<Rightarrow> desired_slices" where
  "desiredSlices selector bindings endpoints =
     fold (\<lambda>b desired.
       let s = desiredEndpointSlice selector (gb_gateway b) (gb_listenerName b) (gb_backendPort b) endpoints in
       desired(slice_name s \<mapsto> s)) bindings Map.empty"

text \<open>The loop over the existing slices: what is still desired afterwards.\<close>

fun sync_existing :: "'w cluster \<Rightarrow> EndpointSlice list \<Rightarrow> desired_slices \<Rightarrow> 'w \<Rightarrow> (goerror + desired_slices) \<times> 'w" where
  "sync_existing c [] desired w = (Inr desired, w)"
| "sync_existing c (s # ss) desired w =
     (case desired (slice_name s) of
        None \<Rightarrow>
          (case EndpointSlices_Delete c (slice_ns s) (slice_name s) w of
             (Some err, w') \<Rightarrow> if \<not> IsNotFound err then (Inl err, w') else sync_existing c ss desired w'
           | (None, w') \<Rightarrow> sync_existing c ss desired w')
      | Some desiredSlice \<Rightarrow>
          if endpointSliceEqual s desiredSlice then sync_existing c ss (desired(slice_name s := None)) w
          else (case EndpointSlices_Update c (updatedSlice s desiredSlice) w of
                  (Some err, w') \<Rightarrow> (Inl err, w')
                | (None, w') \<Rightarrow> sync_existing c ss (desired(slice_name s := None)) w'))"

definition create_slices :: "'w cluster \<Rightarrow> desired_slices \<Rightarrow> string list \<Rightarrow> 'w call" where
  "create_slices c desired names = for_each (\<lambda>_. False) (EndpointSlices_Create c) (List.map_filter desired names)"

definition reconcileEndpointSelector :: "'w cluster \<Rightarrow> (desired_slices \<Rightarrow> string list) \<Rightarrow> string \<Rightarrow> 'w call" where
  "reconcileEndpointSelector c order key w =
     (case splitNamespacedKey key of
        Inl err \<Rightarrow> (Some err, w)
      | Inr namespacedName \<Rightarrow>
          (case getEndpointSelector c namespacedName of
             Inl err \<Rightarrow>
               if isNotFound (Some err) then deleteManagedEndpointSlices c namespacedName w else (Some err, w)
           | Inr selector \<Rightarrow>
               let (acceptedStatus, acceptedReason, acceptedMessage) = evaluateEndpointSelector c selector in
               (case updateEndpointSelectorStatus c selector acceptedStatus acceptedReason acceptedMessage w of
                  (Some err, w1) \<Rightarrow> (Some err, w1)
                | (None, w1) \<Rightarrow>
                    if acceptedStatus \<noteq> ConditionTrue then deleteManagedEndpointSlices c namespacedName w1
                    else case listReferencedGatewayBindings c selector of
                           Inl err \<Rightarrow> (Some err, w1)
                         | Inr bindings \<Rightarrow>
                             if length bindings = 0 then deleteManagedEndpointSlices c namespacedName w1
                             else case buildEndpointSliceEndpoints c selector of
                                    Inl err \<Rightarrow> (Some err, w1)
                                  | Inr endpoints \<Rightarrow>
                                      let desired = desiredSlices selector bindings endpoints in
                                      (case listManagedEndpointSlices c namespacedName of
                                         Inl err \<Rightarrow> (Some err, w1)
                                       | Inr existing \<Rightarrow>
                                           (case sync_existing c existing desired w1 of
                                              (Inl err, w2) \<Rightarrow> (Some err, w2)
                                            | (Inr remaining, w2) \<Rightarrow> create_slices c remaining (order remaining) w2)))))"

section \<open>Endpoints are the ready pods\<close>

definition selected_pods :: "((string \<rightharpoonup> string) \<Rightarrow> bool) \<Rightarrow> Pod list \<Rightarrow> Pod set" where
  "selected_pods matches pods = {pod \<in> set pods. matches (om_Labels (pod_Meta pod))
     \<and> om_Namespace (pod_Meta pod) \<noteq> [] \<and> om_Name (pod_Meta pod) \<noteq> [] \<and> om_DeletionTimestamp (pod_Meta pod) = None
     \<and> find (\<lambda>(t, _). t = ''Ready'') (pod_Conditions pod) = Some (''Ready'', ConditionTrue)
     \<and> To4 (ParseIP (pod_PodIP pod)) \<noteq> []}"

lemma podReady_loop_iff: "podReady_loop conds \<longleftrightarrow> find (\<lambda>(t, _). t = ''Ready'') conds = Some (''Ready'', ConditionTrue)"
  by (induction conds rule: podReady_loop.induct) auto

lemma endpointForPod_Some:
  "endpointForPod pod = Some e \<longleftrightarrow> pod \<in> selected_pods (\<lambda>_. True) [pod] \<and> e = the (endpointForPod pod)"
  by (auto simp: endpointForPod_def selected_pods_def podReady_def podReady_loop_iff isIPv4String_def)

lemma endpoints_fold:
  "fold (\<lambda>pod out. if \<not> P pod then out else case f pod of None \<Rightarrow> out | Some e \<Rightarrow> out @ [e]) pods acc =
    acc @ List.map_filter f (filter P pods)"
  by (induction pods arbitrary: acc) (auto simp: List.map_filter_simps split: option.splits)

lemma buildEndpointSliceEndpoints_Inr:
  assumes "LabelSelectorAsSelector c (xs_Selector selector) = Inr matches"
    and "pods_List c (om_Namespace (xs_Meta selector)) = Inr pods"
  shows "buildEndpointSliceEndpoints c selector = Inr (go_sort endpoint_order
      (List.map_filter endpointForPod (filter (\<lambda>pod. matches (om_Labels (pod_Meta pod))) pods)))"
  using assms endpoints_fold [of "\<lambda>pod. matches (om_Labels (pod_Meta pod))" endpointForPod pods "[]"]
  by (simp add: buildEndpointSliceEndpoints_def)

lemma set_selected_endpoints:
  "set (List.map_filter endpointForPod (filter (\<lambda>pod. matches (om_Labels (pod_Meta pod))) pods)) =
    (\<lambda>pod. the (endpointForPod pod)) ` selected_pods matches pods"
proof -
  have "endpointForPod pod \<noteq> None \<longleftrightarrow> pod \<in> selected_pods (\<lambda>_. True) [pod]" for pod
    using endpointForPod_Some [of pod] by (metis not_None_eq option.sel)
  then show ?thesis
    unfolding List.map_filter_def by (fastforce simp: selected_pods_def)
qed

section \<open>What the agent reads from a desired slice\<close>

lemma slice_label_keys:
  "distinct [LabelManagedBy, EndpointSelectorNamespaceLabelKey, EndpointSelectorNameLabelKey, GatewayNamespaceLabelKey,
     GatewayNameLabelKey, GatewayListenerLabelKey]"
  by (simp add: label_key_defs)

lemma desired_slice_labels:
  "label (es_Meta (desiredEndpointSlice selector g l port eps)) LabelManagedBy = ManagedByValue"
  "label (es_Meta (desiredEndpointSlice selector g l port eps)) EndpointSelectorNamespaceLabelKey = om_Namespace (xs_Meta selector)"
  "label (es_Meta (desiredEndpointSlice selector g l port eps)) EndpointSelectorNameLabelKey = om_Name (xs_Meta selector)"
  "label (es_Meta (desiredEndpointSlice selector g l port eps)) GatewayNamespaceLabelKey = gw_Namespace g"
  "label (es_Meta (desiredEndpointSlice selector g l port eps)) GatewayNameLabelKey = gw_Name g"
  "label (es_Meta (desiredEndpointSlice selector g l port eps)) GatewayListenerLabelKey = l"
  using slice_label_keys by (auto simp: desiredEndpointSlice_def map_get_def)

lemma endpointForPod_fields:
  "pod \<in> selected_pods matches pods \<Longrightarrow>
    se_Addresses (the (endpointForPod pod)) = [pod_PodIP pod] \<and> se_Ready (the (endpointForPod pod)) = Some True"
  by (auto simp: endpointForPod_def selected_pods_def podReady_def podReady_loop_iff isIPv4String_def)

lemma desired_slice_endpoints:
  assumes "set eps = (\<lambda>pod. the (endpointForPod pod)) ` selected_pods matches pods"
  shows "set (slice_endpoints (desiredEndpointSlice selector g l port eps)) =
    (\<lambda>pod. \<lparr>ept_IP = ipv4_String (To4 (ParseIP (pod_PodIP pod))), ept_Port = sint port\<rparr>) ` selected_pods matches pods"
proof -
  have r: "set (ready_addresses eps) = pod_PodIP ` selected_pods matches pods"
    unfolding set_ready_addresses assms using endpointForPod_fields by force
  have ip: "To4 (ParseIP (pod_PodIP pod)) \<noteq> []" if "pod \<in> selected_pods matches pods" for pod
    using that by (simp add: selected_pods_def)
  have "e \<in> set (slice_endpoints (desiredEndpointSlice selector g l port eps)) \<longleftrightarrow>
      (\<exists>a\<in>set (ready_addresses eps). e \<in> set (addr_endpoints port a))" for e
    by (simp add: set_slice_endpoints desiredEndpointSlice_def port_admitted_Some)
  then show ?thesis
    unfolding r by (auto simp: set_addr_endpoints ip)
qed

text \<open>C10: From pods to the dataplane. A slice the controller writes for a listener, with the endpoints
  it computes for the selector, is filed by the agent under exactly that Gateway and listener, is found
  again by the controller under the selector, and gives the agent exactly one IPv4 endpoint, with the
  backend port, for every pod of the namespace that matches the selector, is named, ready, not being
  deleted and has an IPv4 address, and nothing else.\<close>

theorem desired_slice_reaches_agent:
  assumes "gw_Namespace g \<noteq> []" and "gw_Name g \<noteq> []" and "om_Namespace (xs_Meta selector) \<noteq> []"
    and "om_Name (xs_Meta selector) \<noteq> []"
    and "LabelSelectorAsSelector c (xs_Selector selector) = Inr matches"
    and "pods_List c (om_Namespace (xs_Meta selector)) = Inr pods"
  shows "\<exists>eps. buildEndpointSliceEndpoints c selector = Inr eps
    \<and> frontendKeyForEndpointSlice (Some (desiredEndpointSlice selector g l port eps)) = Some (FrontendKey (gateway_key g) l)
    \<and> indexEndpointSliceByEndpointSelector (OEndpointSlice (desiredEndpointSlice selector g l port eps))
        = Inr [namespacedKey (selector_key selector)]
    \<and> set (slice_endpoints (desiredEndpointSlice selector g l port eps)) =
        (\<lambda>pod. \<lparr>ept_IP = ipv4_String (To4 (ParseIP (pod_PodIP pod))), ept_Port = sint port\<rparr>) ` selected_pods matches pods"
proof -
  let ?eps = "go_sort endpoint_order (List.map_filter endpointForPod (filter (\<lambda>pod. matches (om_Labels (pod_Meta pod))) pods))"
  let ?d = "desiredEndpointSlice selector g l port ?eps"
  have "frontendKeyForEndpointSlice (Some ?d) = Some (FrontendKey (gateway_key g) l)"
    using assms(1,2) by (simp add: frontendKeyForEndpointSlice_def desired_slice_labels)
  moreover have "endpointSelectorKeyForEndpointSlice ?d = namespacedKey (selector_key selector)"
    using assms(3,4) by (simp add: endpointSelectorKeyForEndpointSlice_def desired_slice_labels)
  then have "indexEndpointSliceByEndpointSelector (OEndpointSlice ?d) = Inr [namespacedKey (selector_key selector)]"
    by (simp add: indexEndpointSliceByEndpointSelector_def namespacedKey_def)
  moreover have "set (slice_endpoints ?d) =
      (\<lambda>pod. \<lparr>ept_IP = ipv4_String (To4 (ParseIP (pod_PodIP pod))), ept_Port = sint port\<rparr>) ` selected_pods matches pods"
    by (rule desired_slice_endpoints) (simp add: set_selected_endpoints)
  ultimately show ?thesis using buildEndpointSliceEndpoints_Inr [OF assms(5,6)] by blast
qed

section \<open>Slice names\<close>

lemma endpointSliceName_length:
  assumes "gateway \<noteq> []"
  shows "length (endpointSliceName gateway listener) \<le> 63 \<and> endpointSliceName gateway listener \<noteq> []"
  using assms by (simp add: endpointSliceName_def Let_def)

text \<open>C33: Slice names are not unique. The separator between the Gateway name and the listener name may
  occur in both, so two Gateways of one namespace can need the same slice name for different listeners;
  the map of desired slices then keeps only the second slice, and the first listener has no endpoints.\<close>

theorem endpointSliceName_collides:
  "endpointSliceName (x @ ''-'' @ y) (a # z) = endpointSliceName x (y @ ''-'' @ a # z)
    \<and> (let named = \<lambda>g n. g\<lparr>gw_Meta := (gw_Meta g)\<lparr>om_Name := n\<rparr>\<rparr>;
           b1 = \<lparr>gb_gateway = named g (x @ ''-'' @ y), gb_listenerName = a # z, gb_backendPort = p1\<rparr>;
           b2 = \<lparr>gb_gateway = named g x, gb_listenerName = y @ ''-'' @ a # z, gb_backendPort = p2\<rparr>
       in b1 \<noteq> b2 \<and> desiredSlices selector [b1, b2] eps =
            [endpointSliceName x (y @ ''-'' @ a # z)
               \<mapsto> desiredEndpointSlice selector (named g x) (y @ ''-'' @ a # z) p2 eps])"
proof -
  have "endpointSliceName (x @ ''-'' @ y) (a # z) = endpointSliceName x (y @ ''-'' @ a # z)"
    by (simp add: endpointSliceName_def)
  then show ?thesis
    by (simp add: Let_def desiredSlices_def) (simp add: desiredEndpointSlice_def)
qed

section \<open>Bindings\<close>

lemma binding_loop_Some:
  assumes "binding_loop c route port parents = Inr (Some b)"
  shows "\<exists>p\<in>set parents. \<exists>g cls routes l. isGatewayParentRef p
    \<and> gateways_Get c (string_or (tr_Namespace route) (pr_Namespace p)) (pr_Name p) = Inr g
    \<and> gw_GatewayClassName g = GatewayClassName \<and> getGatewayClass c = Inr cls
    \<and> listRoutesForGateway c (gateway_key g) = Inr routes
    \<and> re_acceptedStatus (evaluateRoute c route p g cls routes) = ConditionTrue
    \<and> re_resolvedStatus (evaluateRoute c route p g cls routes) = ConditionTrue
    \<and> resolveGatewayListener c g p = Inr l
    \<and> b = \<lparr>gb_gateway = g, gb_listenerName = l_Name l, gb_backendPort = port\<rparr>"
  using assms
proof (induction parents)
  case Nil
  then show ?case by simp
next
  case (Cons p ps)
  show ?case
  proof (cases "binding_loop c route port ps = Inr (Some b)")
    case True
    from Cons.IH [OF this] show ?thesis by (auto simp del: Inr_inject)
  next
    case False
    with Cons.prems show ?thesis
      by (force simp: Let_def split: if_splits sum.splits)
  qed
qed

text \<open>What a binding stands for: a route that names the selector and, under the bound Gateway, is accepted,
  resolved and attached to the bound listener.\<close>

definition binding_of ::
    "'w cluster \<Rightarrow> XEndpointSelector \<Rightarrow> TCPRoute \<Rightarrow> ParentReference \<Rightarrow> GatewayClass option \<Rightarrow> TCPRoute list \<Rightarrow> Listener \<Rightarrow>
      gatewayBinding \<Rightarrow> bool" where
  "binding_of c selector route p cls routes l b \<longleftrightarrow>
     p \<in> set (tr_ParentRefs route) \<and> isGatewayParentRef p
     \<and> gateways_Get c (string_or (tr_Namespace route) (pr_Namespace p)) (pr_Name p) = Inr (gb_gateway b)
     \<and> gw_GatewayClassName (gb_gateway b) = GatewayClassName \<and> getGatewayClass c = Inr cls
     \<and> listRoutesForGateway c (gateway_key (gb_gateway b)) = Inr routes
     \<and> our_class cls \<and> alone_on_listener c route p (gb_gateway b) routes \<and> backend_resolves c route
     \<and> resolveGatewayListener c (gb_gateway b) p = Inr l \<and> gb_listenerName b = l_Name l
     \<and> (\<exists>backend. tr_Rules route = [[backend]] \<and> br_Port backend = Some (gb_backendPort b)
          \<and> NamespacedName (string_or (tr_Namespace route) (br_Namespace backend)) (br_Name backend) = selector_key selector)"

lemma gatewayBindingForRoute_Some:
  assumes "gatewayBindingForRoute c selector route = Inr (Some b)"
  shows "\<exists>p cls routes l. binding_of c selector route p cls routes l b"
proof -
  from assms have one: "length (tr_Rules route) = 1" "length (tr_Rules route ! 0) = 1"
    by (auto simp: gatewayBindingForRoute_def split: if_splits)
  then obtain backend where be: "tr_Rules route = [[backend]]"
    by (metis One_nat_def length_0_conv length_Suc_conv nth_Cons_0)
  with assms obtain port where port: "br_Port backend = Some port"
    and key: "string_or (tr_Namespace route) (br_Namespace backend) = om_Namespace (xs_Meta selector)"
      "br_Name backend = om_Name (xs_Meta selector)"
    and loop: "binding_loop c route port (tr_ParentRefs route) = Inr (Some b)"
    by (auto simp: gatewayBindingForRoute_def Let_def split: if_splits option.splits)
  from binding_loop_Some [OF loop] be port key show ?thesis
    unfolding binding_of_def evaluateRoute_status(1) using evaluateRoute_status(2) by fastforce
qed

lemma binding_of_namespace:
  "binding_of c selector route p cls routes l b \<Longrightarrow> gw_Namespace (gb_gateway b) = om_Namespace (xs_Meta selector)"
  by (auto simp: binding_of_def alone_on_listener_def backend_resolves_def)

definition bound_by :: "'w cluster \<Rightarrow> XEndpointSelector \<Rightarrow> obj list \<Rightarrow> gatewayBinding \<Rightarrow> bool" where
  "bound_by c selector items b \<longleftrightarrow> (\<exists>route p cls routes l. binding_of c selector route p cls routes l b
     \<and> (OTCPRoute route \<in> set items \<or> DeletedFinalStateUnknown (OTCPRoute route) \<in> set items))"

lemma bound_by_Cons: "bound_by c selector items b \<Longrightarrow> bound_by c selector (item # items) b"
  unfolding bound_by_def by (metis list.set_intros(2))

lemma bindings_loop_Inr:
  assumes "bindings_loop c selector items seen acc = Inr bs" and "seen = binding_key ` set acc"
    and "distinct (map binding_key acc)"
  shows "distinct (map binding_key bs) \<and>
    (\<forall>b \<in> set bs. b \<in> set acc \<or> bound_by c selector items b)"
  using assms
proof (induction items arbitrary: seen acc)
  case Nil
  then show ?case by simp
next
  case (Cons item items)
  from Cons.prems(1) obtain route where route: "routeFromObject item = Inr route" by (auto split: sum.splits)
  then have item: "item = OTCPRoute route \<or> item = DeletedFinalStateUnknown (OTCPRoute route)"
    by (simp add: route_obj.convert_Inr)
  from Cons.prems(1) route obtain r where r: "gatewayBindingForRoute c selector route = Inr r" by (auto split: sum.splits)
  show ?case
  proof (cases "r = None \<or> (\<exists>b. r = Some b \<and> binding_key b \<in> seen)")
    case True
    with Cons.prems(1) route r have "bindings_loop c selector items seen acc = Inr bs" by auto
    from Cons.IH [OF this Cons.prems(2,3)] show ?thesis using bound_by_Cons by blast
  next
    case False
    then obtain b where b: "r = Some b" "binding_key b \<notin> seen" by auto
    with Cons.prems(1) route r
    have "bindings_loop c selector items (insert (binding_key b) seen) (acc @ [b]) = Inr bs" by simp
    from Cons.IH [OF this] Cons.prems(2,3) b(2)
    have "distinct (map binding_key bs) \<and>
      (\<forall>b' \<in> set bs. b' \<in> set (acc @ [b]) \<or> bound_by c selector items b')" by simp
    moreover have "bound_by c selector (item # items) b"
      using gatewayBindingForRoute_Some [OF r [unfolded b(1)]] item unfolding bound_by_def by (metis list.set_intros(1))
    ultimately show ?thesis using bound_by_Cons by fastforce
  qed
qed

lemma listReferencedGatewayBindings_Inr:
  assumes "listReferencedGatewayBindings c selector = Inr bs"
  shows "distinct (map binding_key bs)" "sorted (map binding_key bs)"
    "b \<in> set bs \<Longrightarrow> \<exists>route p cls routes l. binding_of c selector route p cls routes l b"
proof -
  from assms obtain items bs0 where l: "bindings_loop c selector items {} [] = Inr bs0" "bs = go_sort binding_key bs0"
    by (auto simp: listReferencedGatewayBindings_def split: sum.splits)
  from bindings_loop_Inr [OF l(1)] have d: "distinct (map binding_key bs0)"
    and b: "\<And>b. b \<in> set bs0 \<Longrightarrow> bound_by c selector items b" by auto
  show "sorted (map binding_key bs)" by (simp add: l(2) sorted_go_sort)
  show "distinct (map binding_key bs)"
    using d mset_eq_imp_distinct_iff [of "map binding_key bs" "map binding_key bs0"] by (simp add: l(2))
  show "b \<in> set bs \<Longrightarrow> \<exists>route p cls routes l. binding_of c selector route p cls routes l b" using b [of b] by (simp add: l(2) bound_by_def) blast
qed

text \<open>The caches are consistent: a lister returns the object of the name it is asked for, and the route
  informer's indexer serves the index of routes by Gateway.\<close>

definition caches_consistent :: "'w cluster \<Rightarrow> obj list \<Rightarrow> bool" where
  "caches_consistent c routeObjs \<longleftrightarrow>
     (\<forall>ns n g. gateways_Get c ns n = Inr g \<longrightarrow> gw_Namespace g = ns \<and> gw_Name g = n)
     \<and> index_api (routes_ByIndex c routeByGatewayIndex) routeObjs indexRouteByGateway"

lemma listRoutesForGateway_Inr:
  assumes "listRoutesForGateway c key = Inr routes"
  shows "\<exists>items. routes_ByIndex c routeByGatewayIndex (namespacedKey key) = Inr items
    \<and> set routes = {r. OTCPRoute r \<in> set items}"
proof -
  have "set (fold (\<lambda>item out. case item of OTCPRoute route \<Rightarrow> out @ [route] | _ \<Rightarrow> out) items acc)
      = set acc \<union> {r. OTCPRoute r \<in> set items}" for items acc
    by (induction items arbitrary: acc) (auto split: obj.splits)
  with assms show ?thesis by (auto simp: listRoutesForGateway_def split: sum.splits)
qed

text \<open>C29: The two reconcilers agree. Whenever the selector reconciler binds a listener of a Gateway
  through a route, the Gateway reconciler finds that listener usable with the same caches; unless the
  Gateway asks for its own addresses it is then accepted and gets a virtual IP. So no EndpointSlice is
  written for a listener the controller refuses.\<close>

theorem bound_listener_usable:
  assumes "gatewayBindingForRoute c selector route = Inr (Some b)" and "caches_consistent c routeObjs"
    and "OTCPRoute route \<in> set routeObjs"
  shows "\<exists>cls routes l. getGatewayClass c = Inr cls \<and> listRoutesForGateway c (gateway_key (gb_gateway b)) = Inr routes
    \<and> l \<in> set (gw_Listeners (gb_gateway b)) \<and> gb_listenerName b = l_Name l
    \<and> listener_usable c (gb_gateway b) routes l
    \<and> ge_valid (evaluateGateway c (gb_gateway b) cls routes) = (gw_SpecAddresses (gb_gateway b) = [])"
proof -
  let ?g = "gb_gateway b"
  from gatewayBindingForRoute_Some [OF assms(1)] obtain p cls routes l
    where B: "binding_of c selector route p cls routes l b" by blast
  then have p: "p \<in> set (tr_ParentRefs route)" "isGatewayParentRef p"
    "gateways_Get c (string_or (tr_Namespace route) (pr_Namespace p)) (pr_Name p) = Inr ?g"
    and alone: "alone_on_listener c route p ?g routes" and res: "resolveGatewayListener c ?g p = Inr l"
    by (auto simp: binding_of_def)
  from p(3) assms(2) have key: "string_or (tr_Namespace route) (pr_Namespace p) = gw_Namespace ?g" "pr_Name p = gw_Name ?g"
    by (auto simp: caches_consistent_def)
  then have refers: "parentRefersTo route ?g p" using p(2) by (simp add: parentRefersTo_def)
  have single: "tr_ParentRefs route = [p]" using alone p(1) by (auto simp: alone_on_listener_def length_Suc_conv)
  then have mp: "matchingParentRef route ?g = p" using refers by (simp add: matchingParentRef_def)
  have "parent_key route p = namespacedKey (gateway_key ?g)" by (simp add: parent_key_def key)
  then have "namespacedKey (gateway_key ?g) \<in> set (routeGatewayParentKeys route)"
    using p(1,2) unfolding set_routeGatewayParentKeys by (metis (mono_tags) imageI mem_Collect_eq)
  then have mem: "route \<in> set routes"
    using B assms(2,3) listRoutesForGateway_Inr [of c "gateway_key ?g" routes]
    by (auto simp: binding_of_def caches_consistent_def index_api_def indexRouteByGateway_def)
  have lm: "l \<in> set (gw_Listeners ?g)" "parentMatchesListener p l"
    using res unfolding resolveGatewayListener_Inr by (metis filter_eq_single_mem)+
  have one: "length (attachedRoutesForListener ?g l routes) = 1"
    using alone res unfolding alone_on_listener_def resolveGatewayListener_Inr by auto
  have "route \<in> set (attachedRoutesForListener ?g l routes)"
    using mem single refers lm(2) alone by (auto simp: attachedRoutesForListener_eq alone_on_listener_def)
  with one have "attachedRoutesForListener ?g l routes = [route]" by (auto simp: length_Suc_conv)
  then have u: "listener_usable c ?g routes l" using alone mp B by (auto simp: listener_usable_def binding_of_def)
  have v: "glv_valid (validateGatewayListeners c (Some ?g))" using alone by (simp add: alone_on_listener_def)
  have "our_class cls" using B by (simp add: binding_of_def)
  then have "ge_valid (evaluateGateway c ?g cls routes) = (gw_SpecAddresses ?g = [])"
    using evaluateGateway_cases(2,3) [where c = c and g = ?g and routes = routes and cls = cls] v u lm(1)
    by (auto simp: list_ex_iff)
  then show ?thesis using B u lm(1) by (auto simp: binding_of_def)
qed

section \<open>Convergence of the slices\<close>

text \<open>What the agent reads from a slice. The names of ports are not part of it: an API server may fill
  them in.\<close>

type_synonym slice_content =
  "(string \<rightharpoonup> string) \<times> string \<times> (string option \<times> int32 option) list \<times> SliceEndpoint list"

definition slice_view :: "EndpointSlice \<Rightarrow> slice_content" where
  "slice_view s = (om_Labels (es_Meta s), es_AddressType s, map (\<lambda>p. (ep_Protocol p, ep_Port p)) (es_Ports s), es_Endpoints s)"

abbreviation slice_key :: "EndpointSlice \<Rightarrow> string \<times> string" where
  "slice_key s \<equiv> (slice_ns s, slice_name s)"

text \<open>The API server keeps slices by namespace and name: creating an existing one is refused, updating
  or deleting a missing one reports that it was not found.\<close>

definition slice_api :: "'w cluster \<Rightarrow> ('w \<Rightarrow> (string \<times> string \<rightharpoonup> slice_content)) \<Rightarrow> bool" where
  "slice_api c store \<longleftrightarrow>
     (\<forall>s w. if store w (slice_key s) = None
            then \<exists>w'. EndpointSlices_Create c s w = (None, w') \<and> store w' = (store w)(slice_key s \<mapsto> slice_view s)
            else \<exists>message. EndpointSlices_Create c s w = (Some (StatusError AlreadyExists message), w))
     \<and> (\<forall>s w. if store w (slice_key s) = None
            then \<exists>message. EndpointSlices_Update c s w = (Some (StatusError NotFound message), w)
            else \<exists>w'. EndpointSlices_Update c s w = (None, w') \<and> store w' = (store w)(slice_key s \<mapsto> slice_view s))
     \<and> (\<forall>ns n w. if store w (ns, n) = None
            then \<exists>message. EndpointSlices_Delete c ns n w = (Some (StatusError NotFound message), w)
            else \<exists>w'. EndpointSlices_Delete c ns n w = (None, w') \<and> store w' = (store w)((ns, n) := None))"

lemma slice_apiD:
  assumes "slice_api c store"
  shows "store w (slice_key s) = None \<Longrightarrow>
      \<exists>w'. EndpointSlices_Create c s w = (None, w') \<and> store w' = (store w)(slice_key s \<mapsto> slice_view s)"
    and "store w (slice_key s) \<noteq> None \<Longrightarrow>
      \<exists>w'. EndpointSlices_Update c s w = (None, w') \<and> store w' = (store w)(slice_key s \<mapsto> slice_view s)"
    and "\<exists>r w'. EndpointSlices_Delete c ns n w = (r, w') \<and> (case r of None \<Rightarrow> True | Some e \<Rightarrow> IsNotFound e)
      \<and> store w' = (store w)((ns, n) := None)"
proof -
  note api = assms [unfolded slice_api_def]
  show "store w (slice_key s) = None \<Longrightarrow>
      \<exists>w'. EndpointSlices_Create c s w = (None, w') \<and> store w' = (store w)(slice_key s \<mapsto> slice_view s)"
    "store w (slice_key s) \<noteq> None \<Longrightarrow>
      \<exists>w'. EndpointSlices_Update c s w = (None, w') \<and> store w' = (store w)(slice_key s \<mapsto> slice_view s)"
    using api by metis+
  show "\<exists>r w'. EndpointSlices_Delete c ns n w = (r, w') \<and> (case r of None \<Rightarrow> True | Some e \<Rightarrow> IsNotFound e)
      \<and> store w' = (store w)((ns, n) := None)"
  proof (cases "store w (ns, n)")
    case None
    then obtain m where "EndpointSlices_Delete c ns n w = (Some (StatusError NotFound m), w)" using api by metis
    with None show ?thesis by (auto simp: fun_upd_idem)
  next
    case (Some v)
    then have "store w (ns, n) \<noteq> None" by simp
    then obtain w' where "EndpointSlices_Delete c ns n w = (None, w')" "store w' = (store w)((ns, n) := None)"
      using api by metis
    then show ?thesis by auto
  qed
qed

lemma slice_view_updated:
  "endpointSliceEqual s d \<Longrightarrow> slice_view s = slice_view d" "slice_view (updatedSlice s d) = slice_view d"
  "slice_key (updatedSlice s d) = slice_key s"
  by (auto simp: slice_view_def endpointSliceEqual_def updatedSlice_def)

text \<open>After the loop over the existing slices, their names hold what is desired for them.\<close>

lemma sync_existing_converges:
  assumes api: "slice_api c store" and "distinct (map slice_name ss)" and "set ss \<subseteq> {s. slice_ns s = ns}"
    and "\<And>s. s \<in> set ss \<Longrightarrow> store w (slice_key s) = Some (slice_view s)"
  shows "\<exists>w'. sync_existing c ss desired w = (Inr (desired |` (- slice_name ` set ss)), w')
    \<and> store w' = (\<lambda>k. if k \<in> Pair ns ` slice_name ` set ss then map_option slice_view (desired (snd k)) else store w k)"
  using assms(2-)
proof (induction ss arbitrary: desired w)
  case Nil
  then show ?case by simp
next
  case (Cons s ss)
  have s: "slice_ns s = ns" "slice_name s \<notin> slice_name ` set ss" "store w (slice_key s) = Some (slice_view s)"
    using Cons.prems by auto
  have step: "\<exists>w1. sync_existing c (s # ss) desired w = sync_existing c ss (desired(slice_name s := None)) w1
      \<and> store w1 = (store w)(slice_key s := map_option slice_view (desired (slice_name s)))"
  proof (cases "desired (slice_name s)")
    case None
    then have d: "desired(slice_name s := None) = desired" by (simp add: fun_upd_idem)
    show ?thesis
      using slice_apiD(3) [OF api, of "slice_ns s" "slice_name s" w] None
      by (auto simp: d split: option.splits) blast
  next
    case (Some d)
    show ?thesis
    proof (cases "endpointSliceEqual s d")
      case True
      with Some s(3) show ?thesis by (auto simp: slice_view_updated(1) intro!: fun_upd_idem [symmetric])
    next
      case False
      have "store w (slice_key (updatedSlice s d)) \<noteq> None" using s(3) by (simp add: slice_view_updated)
      from slice_apiD(2) [OF api this] Some False show ?thesis by (auto simp: slice_view_updated)
    qed
  qed
  then obtain w1 where w1: "sync_existing c (s # ss) desired w = sync_existing c ss (desired(slice_name s := None)) w1"
    "store w1 = (store w)(slice_key s := map_option slice_view (desired (slice_name s)))" by blast
  have "store w1 (slice_key t) = Some (slice_view t)" if "t \<in> set ss" for t
  proof -
    have "slice_name t \<noteq> slice_name s" using that s(2) by (metis imageI)
    with Cons.prems(3) [of t] that w1(2) show ?thesis by auto
  qed
  then obtain w' where w': "sync_existing c ss (desired(slice_name s := None)) w1
        = (Inr ((desired(slice_name s := None)) |` (- slice_name ` set ss)), w')"
    "store w' = (\<lambda>k. if k \<in> Pair ns ` slice_name ` set ss
        then map_option slice_view ((desired(slice_name s := None)) (snd k)) else store w1 k)"
    using Cons.IH [of w1 "desired(slice_name s := None)"] Cons.prems(1,2)
    by (metis (no_types, lifting) distinct.simps(2) list.set_intros(2) list.simps(9) subset_code(1))
  have "(desired(slice_name s := None)) |` (- slice_name ` set ss) = desired |` (- slice_name ` set (s # ss))"
    by (auto simp: restrict_map_def)
  moreover have "store w' = (\<lambda>k. if k \<in> Pair ns ` slice_name ` set (s # ss)
      then map_option slice_view (desired (snd k)) else store w k)"
    unfolding w'(2) w1(2) using s(1,2) by (auto simp: fun_eq_iff)
  ultimately show ?case using w1(1) w'(1) by auto
qed

lemma create_slices_converges:
  assumes api: "slice_api c store" and "distinct names" and "set names \<subseteq> dom desired"
    and "\<And>n d. desired n = Some d \<Longrightarrow> slice_key d = (ns, n)"
    and "\<And>n. n \<in> set names \<Longrightarrow> store w (ns, n) = None"
  shows "\<exists>w'. create_slices c desired names w = (None, w')
    \<and> store w' = (\<lambda>k. if k \<in> Pair ns ` set names then map_option slice_view (desired (snd k)) else store w k)"
  using assms(2-)
proof (induction names arbitrary: w)
  case Nil
  then show ?case by (simp add: create_slices_def List.map_filter_simps)
next
  case (Cons n names)
  obtain d where d: "desired n = Some d" using Cons.prems(2) by auto
  have k: "slice_key d = (ns, n)" using Cons.prems(3) [OF d] .
  then have "store w (slice_key d) = None" using Cons.prems(4) [of n] by simp
  from slice_apiD(1) [OF api this] obtain w1 where w1: "EndpointSlices_Create c d w = (None, w1)"
    "store w1 = (store w)((ns, n) \<mapsto> slice_view d)" unfolding k by auto
  have "store w1 (ns, m) = None" if "m \<in> set names" for m
    using Cons.prems(1,4) that w1(2) by auto
  then obtain w' where w': "create_slices c desired names w1 = (None, w')"
    "store w' = (\<lambda>k. if k \<in> Pair ns ` set names then map_option slice_view (desired (snd k)) else store w1 k)"
    using Cons.IH [of w1] Cons.prems(1,2,3) by auto
  have "create_slices c desired (n # names) w = create_slices c desired names w1"
    by (simp add: create_slices_def List.map_filter_simps d w1(1))
  moreover have "store w' = (\<lambda>k. if k \<in> Pair ns ` set (n # names) then map_option slice_view (desired (snd k)) else store w k)"
    unfolding w'(2) w1(2) using d by (auto simp: fun_eq_iff)
  ultimately show ?case using w'(1) by auto
qed

definition binding_slice :: "XEndpointSelector \<Rightarrow> SliceEndpoint list \<Rightarrow> gatewayBinding \<Rightarrow> EndpointSlice" where
  "binding_slice selector eps b = desiredEndpointSlice selector (gb_gateway b) (gb_listenerName b) (gb_backendPort b) eps"

lemma desiredSlices_fold:
  "fold (\<lambda>b desired. let s = f b in desired(slice_name s \<mapsto> s)) bs m n = Some d \<Longrightarrow>
    m n = Some d \<or> (\<exists>b\<in>set bs. d = f b \<and> slice_name d = n)"
  by (induction bs arbitrary: m) (fastforce simp: Let_def split: if_splits)+

lemma desiredSlices_Some:
  "desiredSlices selector bs eps n = Some d \<Longrightarrow> \<exists>b\<in>set bs. d = binding_slice selector eps b \<and> slice_name d = n"
  using desiredSlices_fold [of "binding_slice selector eps" bs Map.empty n d]
  by (auto simp: desiredSlices_def binding_slice_def)

lemma desiredSlices_dom: "dom (desiredSlices selector bs eps) = (\<lambda>b. slice_name (binding_slice selector eps b)) ` set bs"
proof -
  have "dom (fold (\<lambda>b desired. let s = f b in desired(slice_name s \<mapsto> s)) bs m) = dom m \<union> (\<lambda>b. slice_name (f b)) ` set bs"
    for f :: "gatewayBinding \<Rightarrow> EndpointSlice" and m
    by (induction bs arbitrary: m) (auto simp: Let_def)
  from this [of "binding_slice selector eps" Map.empty] show ?thesis by (simp add: desiredSlices_def binding_slice_def)
qed

text \<open>The reads of a reconcile that gets to the slices, and a slice cache that mirrors the API server.\<close>

definition selector_reads ::
    "'w cluster \<Rightarrow> string \<Rightarrow> XEndpointSelector \<Rightarrow> gatewayBinding list \<Rightarrow> SliceEndpoint list \<Rightarrow> EndpointSlice list \<Rightarrow> bool" where
  "selector_reads c key selector bindings eps existing \<longleftrightarrow>
     splitNamespacedKey key = Inr (selector_key selector) \<and> getEndpointSelector c (selector_key selector) = Inr selector
     \<and> fst (evaluateEndpointSelector c selector) = ConditionTrue
     \<and> listReferencedGatewayBindings c selector = Inr bindings \<and> bindings \<noteq> []
     \<and> buildEndpointSliceEndpoints c selector = Inr eps
     \<and> listManagedEndpointSlices c (selector_key selector) = Inr existing"

definition slices_mirrored :: "('w \<Rightarrow> (string \<times> string \<rightharpoonup> slice_content)) \<Rightarrow> string \<Rightarrow> EndpointSlice list \<Rightarrow> 'w \<Rightarrow> bool" where
  "slices_mirrored store ns existing w \<longleftrightarrow> distinct (map slice_name existing)
     \<and> (\<forall>s \<in> set existing. slice_ns s = ns \<and> store w (slice_key s) = Some (slice_view s))"

text \<open>C6: The slices converge. When the reads of a reconcile succeed and the cache mirrors the slices of
  the selector at the API server, the reconcile succeeds, and afterwards the API server holds, in the
  namespace of the selector, the desired slice under every desired name, nothing under the names of the
  other slices the selector had, and everything else as before. A foreign object under a desired name is
  excluded, the status write is one that succeeds without touching slices, and the order in which the map
  of remaining slices is walked does not matter.\<close>

theorem endpoint_slices_converge:
  assumes reads: "selector_reads c key selector bindings eps existing"
    and status: "updateEndpointSelectorStatus c selector (fst (evaluateEndpointSelector c selector))
      (fst (snd (evaluateEndpointSelector c selector))) (snd (snd (evaluateEndpointSelector c selector))) w = (None, w1)"
    and api: "slice_api c store" and mirror: "slices_mirrored store (om_Namespace (xs_Meta selector)) existing w1"
    and free: "\<And>n. n \<in> dom (desiredSlices selector bindings eps) - slice_name ` set existing \<Longrightarrow>
      store w1 (om_Namespace (xs_Meta selector), n) = None"
    and order: "\<And>m. finite (dom m) \<Longrightarrow> range_order m (order m)"
  shows "\<exists>w'. reconcileEndpointSelector c order key w = (None, w')
    \<and> store w' = (\<lambda>(ns, n). if ns \<noteq> om_Namespace (xs_Meta selector) then store w1 (ns, n)
        else case desiredSlices selector bindings eps n of
               Some d \<Rightarrow> Some (slice_view d)
             | None \<Rightarrow> if n \<in> slice_name ` set existing then None else store w1 (ns, n))"
proof -
  let ?ns = "om_Namespace (xs_Meta selector)" and ?D = "desiredSlices selector bindings eps"
  let ?R = "?D |` (- slice_name ` set existing)"
  have bindings: "listReferencedGatewayBindings c selector = Inr bindings" using reads by (simp add: selector_reads_def)
  have keys: "slice_key d = (?ns, n)" if "?R n = Some d" for n d
    using desiredSlices_Some [of selector bindings eps n d] that
      listReferencedGatewayBindings_Inr(3) [OF bindings] binding_of_namespace
    by (auto simp: restrict_map_def binding_slice_def desiredEndpointSlice_def split: if_splits) blast
  obtain w2 where w2: "sync_existing c existing ?D w1 = (Inr ?R, w2)"
    "store w2 = (\<lambda>k. if k \<in> Pair ?ns ` slice_name ` set existing then map_option slice_view (?D (snd k)) else store w1 k)"
    using sync_existing_converges [OF api, of existing ?ns w1 ?D] mirror unfolding slices_mirrored_def by blast
  have fin: "finite (dom ?R)" by (simp add: desiredSlices_dom)
  note ro = order [OF fin]
  have names: "distinct (order ?R)" "set (order ?R) = dom ?R" using range_orderD [OF ro] by auto
  have "store w2 (?ns, n) = None" if "n \<in> set (order ?R)" for n
    using that free [of n] unfolding names(2) w2(2) by auto
  then obtain w' where w': "create_slices c ?R (order ?R) w2 = (None, w')"
    "store w' = (\<lambda>k. if k \<in> Pair ?ns ` set (order ?R) then map_option slice_view (?R (snd k)) else store w2 k)"
    using create_slices_converges [OF api names(1) _ keys, where w = w2] names(2) by blast
  have "reconcileEndpointSelector c order key w = (None, w')"
    using reads status w2(1) w'(1) by (auto simp: reconcileEndpointSelector_def selector_reads_def Let_def split: prod.splits)
  moreover have "store w' = (\<lambda>(ns, n). if ns \<noteq> ?ns then store w1 (ns, n)
        else case ?D n of Some d \<Rightarrow> Some (slice_view d)
             | None \<Rightarrow> if n \<in> slice_name ` set existing then None else store w1 (ns, n))"
    unfolding w'(2) names(2) w2(2)
    by (auto simp: fun_eq_iff restrict_map_def dom_def split: option.splits)
  ultimately show ?thesis by blast
qed

text \<open>The API server fills in the name of a port that has none, with the empty string. A slice that is as
  desired otherwise is then never equal to the desired one.\<close>

definition ports_defaulted :: "EndpointSlice \<Rightarrow> bool" where
  "ports_defaulted s \<longleftrightarrow> list_all (\<lambda>p. ep_Name p \<noteq> None) (es_Ports s)"

lemma defaulted_differs:
  assumes "desiredSlices selector bs eps n = Some d" and "ports_defaulted s"
  shows "\<not> endpointSliceEqual s d"
proof
  assume "endpointSliceEqual s d"
  then have "es_Ports s = es_Ports d" by (simp add: endpointSliceEqual_def)
  moreover have "\<exists>p\<in>set (es_Ports d). ep_Name p = None"
    using desiredSlices_Some [OF assms(1)] by (auto simp: binding_slice_def desiredEndpointSlice_def)
  ultimately show False using assms(2) by (auto simp: ports_defaulted_def list_all_iff)
qed

lemma sync_existing_rewrites:
  assumes "distinct (map slice_name ss)"
    and "\<And>s. s \<in> set ss \<Longrightarrow> D (slice_name s) = Some (d s) \<and> \<not> endpointSliceEqual s (d s)"
  shows "sync_existing c ss D w =
    (case for_each (\<lambda>_. False) (\<lambda>s. EndpointSlices_Update c (updatedSlice s (d s))) ss w of
       (Some err, w') \<Rightarrow> (Inl err, w')
     | (None, w') \<Rightarrow> (Inr (D |` (- slice_name ` set ss)), w'))"
  using assms
proof (induction ss arbitrary: D w)
  case Nil
  then show ?case by (simp add: restrict_map_def)
next
  case (Cons s ss)
  have s: "D (slice_name s) = Some (d s)" "\<not> endpointSliceEqual s (d s)" using Cons.prems(2) [of s] by simp_all
  have ne: "slice_name t \<noteq> slice_name s" if "t \<in> set ss" for t
    using Cons.prems(1) that by simp (metis imageI)
  then have rest: "(D(slice_name s := None)) (slice_name t) = Some (d t) \<and> \<not> endpointSliceEqual t (d t)"
    if "t \<in> set ss" for t
    using Cons.prems(2) [of t] that by simp
  have "distinct (map slice_name ss)" using Cons.prems(1) by simp
  note IH = Cons.IH [OF this rest]
  have "sync_existing c ss (D(slice_name s := None)) w1 =
    (case for_each (\<lambda>_. False) (\<lambda>s. EndpointSlices_Update c (updatedSlice s (d s))) ss w1 of
       (Some err, w') \<Rightarrow> (Inl err, w')
     | (None, w') \<Rightarrow> (Inr ((D(slice_name s := None)) |` (- slice_name ` set ss)), w'))" for w1
    by (rule IH)
  moreover have "(D(slice_name s := None)) |` (- slice_name ` set ss) = D |` (- slice_name ` set (s # ss))"
    by (auto simp: restrict_map_def)
  ultimately show ?case using s by (simp split: prod.splits option.splits)
qed

text \<open>C32: Settled slices are written again. When the slices of a selector are exactly the desired ones, each
  with the content the agent reads, but read back from an API server that fills in port names, then
  beyond the status the reconcile of the selector consists of an update of every one of them: the
  comparison that should save the write fails on the port names, every time.\<close>

theorem settled_slices_rewritten:
  assumes "selector_reads c key selector bindings eps existing"
    and "updateEndpointSelectorStatus c selector (fst (evaluateEndpointSelector c selector))
      (fst (snd (evaluateEndpointSelector c selector))) (snd (snd (evaluateEndpointSelector c selector))) w = (None, w1)"
    and "distinct (map slice_name existing)"
    and "slice_name ` set existing = dom (desiredSlices selector bindings eps)"
    and "\<forall>s\<in>set existing. map_option slice_view (desiredSlices selector bindings eps (slice_name s)) = Some (slice_view s)
      \<and> ports_defaulted s"
    and "\<And>m. finite (dom m) \<Longrightarrow> range_order m (order m)"
  shows "reconcileEndpointSelector c order key w =
    for_each (\<lambda>_. False) (\<lambda>s. EndpointSlices_Update c
      (updatedSlice s (the (desiredSlices selector bindings eps (slice_name s))))) existing w1"
proof -
  let ?D = "desiredSlices selector bindings eps"
  have "?D (slice_name s) = Some (the (?D (slice_name s))) \<and> \<not> endpointSliceEqual s (the (?D (slice_name s)))"
    if "s \<in> set existing" for s
    using assms(5) that defaulted_differs by fastforce
  note sync = sync_existing_rewrites [OF assms(3) this, of c w1]
  have "?D |` (- slice_name ` set existing) = Map.empty"
    unfolding assms(4) by (auto simp: restrict_map_def dom_def)
  moreover have "order Map.empty = []" using range_orderD [OF assms(6) [of Map.empty]] by simp
  ultimately show ?thesis
    using assms(1,2) sync
    by (auto simp: reconcileEndpointSelector_def selector_reads_def Let_def create_slices_def List.map_filter_simps
        split: prod.splits option.splits)
qed

section \<open>A sample selector\<close>

definition demo_pod :: Pod where
  "demo_pod = \<lparr>pod_Meta = sample_meta ''default'' ''app-0'', pod_NodeName = ''node-1'', pod_PodIP = ''10.0.0.2'',
     pod_Conditions = [(''Initialized'', ''True''), (''Ready'', ''True'')]\<rparr>"

definition stale_slice :: EndpointSlice where
  "stale_slice = sample_slice\<lparr>es_Meta := (es_Meta sample_slice)\<lparr>om_Name := ''old''\<rparr>\<rparr>"

definition serve_index :: "obj list \<Rightarrow> (obj \<Rightarrow> goerror + string list) \<Rightarrow> string \<Rightarrow> obj list" where
  "serve_index objs indexFunc key = filter (\<lambda>x. case indexFunc x of Inl _ \<Rightarrow> False | Inr keys \<Rightarrow> key \<in> set keys) objs"

text \<open>A cluster whose world is the slice store of the API server.\<close>

definition slices_cluster :: "EndpointSlice list \<Rightarrow> (string \<times> string \<rightharpoonup> slice_content) cluster" where
  "slices_cluster existing = empty_cluster\<lparr>
     gatewayClasses_Get := (\<lambda>n. Inr sample_class),
     gateways_Get := (\<lambda>ns n. if ns = ''default'' \<and> n = ''demo'' then Inr demo_gateway else Inl (StatusError NotFound n)),
     routes_ByIndex := (\<lambda>i key. Inr (serve_index [OTCPRoute sample_route]
        (if i = routeByGatewayIndex then indexRouteByGateway else indexRouteByBackendEndpointSelector) key)),
     endpointSelectors_GetByKey := (\<lambda>key. Inr (Some \<lparr>us_Namespace = ''default'', us_Name = ''app'', us_Object = []\<rparr>)),
     endpointSlices_ByIndex := (\<lambda>i key. Inr (map OEndpointSlice existing)),
     pods_List := (\<lambda>ns. Inr [demo_pod]),
     FromUnstructured := (\<lambda>u. Inr demo_selector),
     ToUnstructured := (\<lambda>s. Inr \<lparr>us_Namespace = ''default'', us_Name = ''app'', us_Object = []\<rparr>),
     EndpointSlices_Create := (\<lambda>s w. if w (slice_key s) = None then (None, w(slice_key s \<mapsto> slice_view s))
                                     else (Some (StatusError AlreadyExists []), w)),
     EndpointSlices_Update := (\<lambda>s w. if w (slice_key s) = None then (Some (StatusError NotFound []), w)
                                     else (None, w(slice_key s \<mapsto> slice_view s))),
     EndpointSlices_Delete := (\<lambda>ns n w. if w (ns, n) = None then (Some (StatusError NotFound []), w)
                                        else (None, w((ns, n) := None)))\<rparr>"

lemma slices_cluster_api: "slice_api (slices_cluster existing) id"
  by (simp add: slice_api_def slices_cluster_def)

lemma slices_cluster_reads:
  "getEndpointSelector (slices_cluster existing) key = Inr demo_selector"
  "LabelSelectorAsSelector (slices_cluster existing) s = Inr (\<lambda>_. True)"
  "pods_List (slices_cluster existing) ns = Inr [demo_pod]"
  "getGatewayClass (slices_cluster existing) = Inr (Some sample_class)"
  "gateways_Get (slices_cluster existing) ''default'' ''demo'' = Inr demo_gateway"
  by (simp_all add: slices_cluster_def getEndpointSelector_def endpointSelectorFromObject_def
      endpointSelectorFromUnstructured_def getGatewayClass_def empty_cluster_def)

lemma sample_route_keys:
  "routeGatewayParentKeys sample_route = [''default/demo'']"
  "routeBackendEndpointSelectorKeys sample_route = [''default/app'']"
  by (simp_all add: routeGatewayParentKeys_def routeBackendEndpointSelectorKeys_def sample_route_def isGatewayParentRef_def
      isEndpointSelectorBackendRef_def string_or_def add_key_def parent_key_def backend_key_def namespacedKey_def
      sample_defs gatewayAPIGroup_def endpointSelectorAPIGroup_def)

lemma slices_cluster_routes:
  "listRoutesForGateway (slices_cluster existing) sample_nn = Inr [sample_route]"
  "routes_ByIndex (slices_cluster existing) routeByBackendEndpointSelectorIndex ''default/app'' = Inr [OTCPRoute sample_route]"
  by (simp_all add: listRoutesForGateway_def slices_cluster_def serve_index_def indexRouteByGateway_def
      indexRouteByBackendEndpointSelector_def sample_route_keys namespacedKey_def demo_fields routeByGatewayIndex_def
      routeByBackendEndpointSelectorIndex_def)

lemma demo_selector_key: "om_Namespace (xs_Meta demo_selector) = ''default''" "om_Name (xs_Meta demo_selector) = ''app''"
  by (simp_all add: demo_selector_def sample_defs)

definition demo_binding :: gatewayBinding where
  "demo_binding = \<lparr>gb_gateway = demo_gateway, gb_listenerName = ''tcp'', gb_backendPort = 8080\<rparr>"

lemma demo_gatewayBinding: "gatewayBindingForRoute (slices_cluster existing) demo_selector sample_route = Inr (Some demo_binding)"
proof -
  let ?c = "slices_cluster existing" and ?p = "hd (tr_ParentRefs sample_route)"
  have ok: "re_acceptedStatus (evaluateRoute ?c sample_route ?p demo_gateway (Some sample_class) [sample_route]) = ConditionTrue"
    "re_resolvedStatus (evaluateRoute ?c sample_route ?p demo_gateway (Some sample_class) [sample_route]) = ConditionTrue"
    using evaluateRoute_status(1) [of ?c sample_route ?p demo_gateway "Some sample_class" "[sample_route]"]
      evaluateRoute_status(2) [OF sample_class_ours, of ?c sample_route ?p demo_gateway "[sample_route]"]
      sample_class_ours demo_alone sample_route_resolves [OF slices_cluster_reads(1,2)] by auto
  have l: "resolveGatewayListener ?c demo_gateway ?p = Inr sample_listener"
    unfolding resolveGatewayListener_Inr using demo_listeners by (simp add: demo_fields sample_route_defs sample_defs)
  have p: "tr_ParentRefs sample_route = [?p]" "isGatewayParentRef ?p" "string_or (tr_Namespace sample_route) (pr_Namespace ?p) = ''default''"
    "pr_Name ?p = ''demo''" by (simp_all add: sample_route_defs sample_defs)
  have "binding_loop ?c sample_route 8080 [?p] = Inr (Some demo_binding)"
    using ok l p(2-) by (simp add: slices_cluster_reads slices_cluster_routes demo_fields demo_binding_def sample_listener_def)
  then have "binding_loop ?c sample_route 8080 (tr_ParentRefs sample_route) = Inr (Some demo_binding)" by (simp flip: p(1))
  moreover have "isEndpointSelectorBackendRef (tr_Namespace sample_route) (tr_Rules sample_route ! 0 ! 0)"
    by (simp add: isEndpointSelectorBackendRef_def sample_route_def string_or_def sample_defs endpointSelectorAPIGroup_def)
  ultimately show ?thesis
    by (simp add: gatewayBindingForRoute_def Let_def demo_selector_key)
      (simp add: sample_route_def string_or_def sample_defs)
qed

theorem bound_listener_usable_witness:
  "listener_usable (slices_cluster []) demo_gateway [sample_route] sample_listener"
proof -
  have "index_api (routes_ByIndex (slices_cluster []) routeByGatewayIndex) [OTCPRoute sample_route] indexRouteByGateway"
    by (simp add: index_api_def slices_cluster_def serve_index_def)
  moreover have "gw_Namespace g = ns \<and> gw_Name g = n" if "gateways_Get (slices_cluster []) ns n = Inr g" for ns n g
    using that by (auto simp: slices_cluster_def demo_fields split: if_splits)
  ultimately have "caches_consistent (slices_cluster []) [OTCPRoute sample_route]"
    unfolding caches_consistent_def by blast
  from bound_listener_usable [OF demo_gatewayBinding this] show ?thesis
    by (auto simp: demo_binding_def slices_cluster_routes demo_fields)
qed

theorem desired_slice_reaches_agent_witness:
  "\<exists>eps. buildEndpointSliceEndpoints (slices_cluster []) demo_selector = Inr eps
    \<and> frontendKeyForEndpointSlice (Some (desiredEndpointSlice demo_selector demo_gateway ''tcp'' 8080 eps))
      = Some (FrontendKey (NamespacedName ''default'' ''demo'') ''tcp'')
    \<and> set (slice_endpoints (desiredEndpointSlice demo_selector demo_gateway ''tcp'' 8080 eps))
      = {\<lparr>ept_IP = ''10.0.0.2'', ept_Port = 8080\<rparr>}"
proof -
  have "selected_pods (\<lambda>_. True) [demo_pod] = {demo_pod}"
    by (auto simp: selected_pods_def demo_pod_def sample_meta_def emptyMeta_def sample_ips)
  moreover have "gw_Namespace demo_gateway \<noteq> []" "gw_Name demo_gateway \<noteq> []" "om_Namespace (xs_Meta demo_selector) \<noteq> []"
    "om_Name (xs_Meta demo_selector) \<noteq> []" by (simp_all add: demo_fields demo_selector_key)
  ultimately show ?thesis
    using desired_slice_reaches_agent [of demo_gateway demo_selector "slices_cluster []" "\<lambda>_. True" "[demo_pod]" "''tcp''" 8080]
    by (auto simp: slices_cluster_reads demo_fields demo_pod_def sample_ips sample_strings)
qed

lemma demo_bindings: "listReferencedGatewayBindings (slices_cluster existing) demo_selector = Inr [demo_binding]"
  by (simp add: listReferencedGatewayBindings_def demo_selector_key namespacedKey_def slices_cluster_routes
      route_obj.convert_embed demo_gatewayBinding)

lemma slices_from_objects_embed: "slices_from_objects (map OEndpointSlice ss) = Inr ss"
  by (induction ss) (simp_all add: slice_obj.convert_embed)

lemma demo_selector_reads:
  "\<exists>eps. selector_reads (slices_cluster existing) ''default/app'' demo_selector [demo_binding] eps existing"
proof -
  have "splitNamespacedKey ''default/app'' = Inr (NamespacedName ''default'' ''app'')" by code_simp
  then show ?thesis
    using buildEndpointSliceEndpoints_Inr [OF slices_cluster_reads(2,3)]
    by (auto simp: selector_reads_def demo_selector_key slices_cluster_reads demo_bindings evaluateEndpointSelector_def
        listManagedEndpointSlices_def slices_from_objects_embed) (simp add: slices_cluster_def slices_from_objects_embed)
qed

lemma demo_selector_status:
  "updateEndpointSelectorStatus (slices_cluster existing) demo_selector status reason message w = (None, w)"
  by (auto simp: updateEndpointSelectorStatus_def Let_def endpointSelectorToUnstructured_def slices_cluster_def empty_cluster_def)

lemma sorted_order: "finite (dom m) \<Longrightarrow> range_order m (sorted_list_of_set (dom m))" for m :: desired_slices
  by (simp add: range_order_def)

lemma demo_slice_name: "slice_name (binding_slice demo_selector eps demo_binding) = ''demo-tcp''"
  by (simp add: binding_slice_def desiredEndpointSlice_def demo_binding_def endpointSliceName_def demo_fields)

theorem endpoint_slices_converge_witness:
  "\<exists>w'. reconcileEndpointSelector (slices_cluster [stale_slice]) (\<lambda>m. sorted_list_of_set (dom m)) ''default/app''
      [(''default'', ''old'') \<mapsto> slice_view stale_slice] = (None, w')
    \<and> dom w' = {(''default'', ''demo-tcp'')}"
proof -
  let ?c = "slices_cluster [stale_slice]" and ?w = "[(''default'', ''old'') \<mapsto> slice_view stale_slice]"
  obtain eps where reads: "selector_reads ?c ''default/app'' demo_selector [demo_binding] eps [stale_slice]"
    using demo_selector_reads by blast
  have names: "slice_ns stale_slice = ''default''" "slice_name stale_slice = ''old''"
    by (simp_all add: stale_slice_def sample_defs)
  have D: "desiredSlices demo_selector [demo_binding] eps = [''demo-tcp'' \<mapsto> binding_slice demo_selector eps demo_binding]"
    using demo_slice_name [of eps] by (simp add: desiredSlices_def binding_slice_def)
  have "slices_mirrored id (om_Namespace (xs_Meta demo_selector)) [stale_slice] ?w"
    by (simp add: slices_mirrored_def names demo_selector_key)
  note conv = endpoint_slices_converge [OF reads demo_selector_status slices_cluster_api this _ sorted_order,
      unfolded D demo_selector_key id_apply]
  obtain w' where w': "reconcileEndpointSelector ?c (\<lambda>m. sorted_list_of_set (dom m)) ''default/app'' ?w = (None, w')"
    "w' = (\<lambda>(ns, n). if ns \<noteq> ''default'' then ?w (ns, n)
        else case [''demo-tcp'' \<mapsto> binding_slice demo_selector eps demo_binding] n of
               Some d \<Rightarrow> Some (slice_view d)
             | None \<Rightarrow> if n \<in> slice_name ` set [stale_slice] then None else ?w (ns, n))"
    by (rule exE [OF conv]) (auto simp: names)
  have "dom w' = {(''default'', ''demo-tcp'')}"
    unfolding w'(2) by (auto simp: dom_def names slice_view_def split: if_splits)
  with w'(1) show ?thesis by blast
qed

text \<open>The demo selector with its slice as the API server returns it. In a world that has lost the slice
  meanwhile, the update is what fails.\<close>

definition defaulted_slice :: "SliceEndpoint list \<Rightarrow> EndpointSlice" where
  "defaulted_slice eps = (binding_slice demo_selector eps demo_binding)\<lparr>es_Ports :=
     [\<lparr>ep_Name = Some [], ep_Protocol = Some ''TCP'', ep_Port = Some 8080\<rparr>]\<rparr>"

lemma defaulted_slice_content:
  "slice_view (defaulted_slice eps) = slice_view (binding_slice demo_selector eps demo_binding)"
  "slice_name (defaulted_slice eps) = ''demo-tcp''" "ports_defaulted (defaulted_slice eps)"
  using demo_slice_name [of eps]
  by (simp_all add: defaulted_slice_def slice_view_def ports_defaulted_def)
    (simp add: binding_slice_def desiredEndpointSlice_def demo_binding_def)

theorem settled_slices_rewritten_witness:
  "\<exists>s. slice_name s = ''demo-tcp'' \<and>
    reconcileEndpointSelector (slices_cluster [s]) (\<lambda>m. sorted_list_of_set (dom m)) ''default/app'' Map.empty
      = (Some (StatusError NotFound []), Map.empty)"
proof -
  define E where "E = go_sort endpoint_order (List.map_filter endpointForPod [demo_pod])"
  let ?s = "defaulted_slice E"
  have b: "buildEndpointSliceEndpoints (slices_cluster [?s]) demo_selector = Inr E"
    unfolding E_def using buildEndpointSliceEndpoints_Inr [OF slices_cluster_reads(2,3)] by simp
  obtain eps where reads: "selector_reads (slices_cluster [?s]) ''default/app'' demo_selector [demo_binding] eps [?s]"
    using demo_selector_reads by blast
  then have "eps = E" using b by (simp add: selector_reads_def)
  note reads = reads [unfolded this]
  have D: "desiredSlices demo_selector [demo_binding] E = [''demo-tcp'' \<mapsto> binding_slice demo_selector E demo_binding]"
    using demo_slice_name [of E] by (simp add: desiredSlices_def binding_slice_def)
  have "reconcileEndpointSelector (slices_cluster [?s]) (\<lambda>m. sorted_list_of_set (dom m)) ''default/app'' Map.empty
      = for_each (\<lambda>_. False) (\<lambda>s. EndpointSlices_Update (slices_cluster [?s])
          (updatedSlice s (the (desiredSlices demo_selector [demo_binding] E (slice_name s))))) [?s] Map.empty"
    by (rule settled_slices_rewritten [OF reads demo_selector_status])
      (auto simp: D defaulted_slice_content sorted_order)
  also have "\<dots> = (Some (StatusError NotFound []), Map.empty)" by (simp add: slices_cluster_def)
  finally show ?thesis using defaulted_slice_content(2) by blast
qed

section \<open>Well-formed slices\<close>

text \<open>What the API server and the agent expect of a slice: a name of 1 to 63 characters, IPv4 addresses, one
  TCP port, and endpoints that are ready with exactly one IPv4 address each, in their fixed order.\<close>

definition wellformed_slice :: "EndpointSlice \<Rightarrow> bool" where
  "wellformed_slice s \<longleftrightarrow> slice_name s \<noteq> [] \<and> length (slice_name s) \<le> 63 \<and> es_AddressType s = ''IPv4''
     \<and> (\<exists>port. es_Ports s = [\<lparr>ep_Name = None, ep_Protocol = Some ''TCP'', ep_Port = Some port\<rparr>])
     \<and> (\<forall>e\<in>set (es_Endpoints s). se_Ready e = Some True \<and> (\<exists>ip. se_Addresses e = [ip] \<and> To4 (ParseIP ip) \<noteq> []))
     \<and> sorted (map endpoint_order (es_Endpoints s))"

lemma built_endpoints:
  assumes "buildEndpointSliceEndpoints c selector = Inr eps"
  shows "sorted (map endpoint_order eps)"
    and "e \<in> set eps \<Longrightarrow> se_Ready e = Some True \<and> (\<exists>ip. se_Addresses e = [ip] \<and> To4 (ParseIP ip) \<noteq> [])"
proof -
  obtain matches pods where mp: "LabelSelectorAsSelector c (xs_Selector selector) = Inr matches"
    "pods_List c (om_Namespace (xs_Meta selector)) = Inr pods"
    using assms by (auto simp: buildEndpointSliceEndpoints_def split: sum.splits)
  have eps: "eps = go_sort endpoint_order (List.map_filter endpointForPod (filter (\<lambda>pod. matches (om_Labels (pod_Meta pod))) pods))"
    using buildEndpointSliceEndpoints_Inr [OF mp] assms by simp
  show "sorted (map endpoint_order eps)" unfolding eps by (rule sorted_go_sort)
  show "se_Ready e = Some True \<and> (\<exists>ip. se_Addresses e = [ip] \<and> To4 (ParseIP ip) \<noteq> [])" if "e \<in> set eps"
  proof -
    from that obtain pod where "pod \<in> selected_pods matches pods" "e = the (endpointForPod pod)"
      unfolding eps set_go_sort set_selected_endpoints by blast
    then show ?thesis using endpointForPod_fields by (simp add: selected_pods_def)
  qed
qed

text \<open>C28: Every slice the controller wants is well formed, and lies in the namespace of its selector, for Gateways
  with a name: whatever the pods, routes and Gateways in the caches look like.\<close>

theorem desired_slices_wellformed:
  assumes "buildEndpointSliceEndpoints c selector = Inr eps" and "listReferencedGatewayBindings c selector = Inr bindings"
    and "desiredSlices selector bindings eps n = Some d" and "\<forall>b\<in>set bindings. gw_Name (gb_gateway b) \<noteq> []"
  shows "wellformed_slice d \<and> slice_name d = n \<and> slice_ns d = om_Namespace (xs_Meta selector)"
proof -
  obtain b where b: "b \<in> set bindings" "d = binding_slice selector eps b" "slice_name d = n"
    using desiredSlices_Some [OF assms(3)] by blast
  have "gw_Namespace (gb_gateway b) = om_Namespace (xs_Meta selector)"
    using listReferencedGatewayBindings_Inr(3) [OF assms(2) b(1)] binding_of_namespace by blast
  then have "slice_ns d = om_Namespace (xs_Meta selector)" by (simp add: b(2) binding_slice_def desiredEndpointSlice_def)
  moreover have "wellformed_slice d"
    using built_endpoints [OF assms(1)] endpointSliceName_length [of "gw_Name (gb_gateway b)" "gb_listenerName b"] assms(4) b(1)
    by (simp add: wellformed_slice_def b(2) binding_slice_def desiredEndpointSlice_def)
  ultimately show ?thesis using b(3) by blast
qed

theorem desired_slices_wellformed_witness:
  "\<exists>eps d. desiredSlices demo_selector [demo_binding] eps ''demo-tcp'' = Some d \<and> wellformed_slice d"
proof -
  obtain eps where eps: "buildEndpointSliceEndpoints (slices_cluster []) demo_selector = Inr eps"
    using buildEndpointSliceEndpoints_Inr [OF slices_cluster_reads(2,3)] by blast
  have D: "desiredSlices demo_selector [demo_binding] eps ''demo-tcp'' = Some (binding_slice demo_selector eps demo_binding)"
    using demo_slice_name [of eps] by (simp add: desiredSlices_def binding_slice_def)
  have "\<forall>b\<in>set [demo_binding]. gw_Name (gb_gateway b) \<noteq> []" by (simp add: demo_binding_def demo_fields)
  from desired_slices_wellformed [OF eps demo_bindings D this] D show ?thesis by blast
qed

end
