(* ===== verification/Handlers.thy ===== *)
theory Handlers
  imports EndpointSelectorReconcile
begin

text \<open>
  \<open>internal/controller/handlers.go\<close>: which keys of which work queue an informer event adds. The work
  queues belong to \<open>client-go\<close>: a record of operations on an arbitrary queue state \<open>'q\<close>. A handler takes
  the four queues to the queues after it; a panic of an object conversion is the error value of the
  handler, index errors are logged and end the function they occur in. The proofs compute, for every
  event, the exact set of added keys, and show that every Gateway whose reconcile an event changes is
  among them, also when the handlers run on later caches.
\<close>

section \<open>Work queues\<close>

text \<open>\<open>Get\<close> waits while there is nothing to hand out; that it does not return is \<open>None\<close>.\<close>

record 'q workqueue =
  wq_Add :: "string \<Rightarrow> 'q \<Rightarrow> 'q"
  wq_Get :: "'q \<Rightarrow> ((string \<times> bool) \<times> 'q) option"
  wq_Done :: "string \<Rightarrow> 'q \<Rightarrow> 'q"
  wq_AddRateLimited :: "string \<Rightarrow> 'q \<Rightarrow> 'q"
  wq_Forget :: "string \<Rightarrow> 'q \<Rightarrow> 'q"

record 'q queues =
  gatewayClassQueue :: 'q
  gatewayQueue :: 'q
  routeQueue :: 'q
  endpointSelectorQueue :: 'q

type_synonym 'q handler = "'q queues \<Rightarrow> goerror option \<times> 'q queues"

definition skip :: "'q handler" where
  "skip q = (None, q)"

definition panicking :: "goerror \<Rightarrow> 'q handler" where
  "panicking p q = (Some p, q)"

text \<open>Statements in sequence: a panic ends the handler.\<close>

definition andThen :: "'q handler \<Rightarrow> 'q handler \<Rightarrow> 'q handler" where
  "andThen h1 h2 q = (case h1 q of (Some p, q') \<Rightarrow> (Some p, q') | (None, q') \<Rightarrow> h2 q')"

definition for_all :: "('a \<Rightarrow> 'q handler) \<Rightarrow> 'a list \<Rightarrow> 'q handler" where
  "for_all = for_each (\<lambda>_. False)"

definition on_gatewayClassQueue :: "('q \<Rightarrow> 'q) \<Rightarrow> 'q handler" where
  "on_gatewayClassQueue f q = (None, q\<lparr>gatewayClassQueue := f (gatewayClassQueue q)\<rparr>)"

definition on_gatewayQueue :: "('q \<Rightarrow> 'q) \<Rightarrow> 'q handler" where
  "on_gatewayQueue f q = (None, q\<lparr>gatewayQueue := f (gatewayQueue q)\<rparr>)"

definition on_routeQueue :: "('q \<Rightarrow> 'q) \<Rightarrow> 'q handler" where
  "on_routeQueue f q = (None, q\<lparr>routeQueue := f (routeQueue q)\<rparr>)"

definition on_endpointSelectorQueue :: "('q \<Rightarrow> 'q) \<Rightarrow> 'q handler" where
  "on_endpointSelectorQueue f q = (None, q\<lparr>endpointSelectorQueue := f (endpointSelectorQueue q)\<rparr>)"

text \<open>An object of an event, converted or a panic.\<close>

definition with_object :: "goerror + 'a \<Rightarrow> ('a \<Rightarrow> 'q handler) \<Rightarrow> 'q handler" where
  "with_object x h = (case x of Inl p \<Rightarrow> panicking p | Inr a \<Rightarrow> h a)"

section \<open>Enqueueing\<close>

definition enqueueGatewayNamespacedName :: "'q workqueue \<Rightarrow> NamespacedName \<Rightarrow> 'q handler" where
  "enqueueGatewayNamespacedName Q key =
     (if nn_Namespace key = [] \<or> nn_Name key = [] then skip else on_gatewayQueue (wq_Add Q (namespacedKey key)))"

definition enqueueRouteNamespacedName :: "'q workqueue \<Rightarrow> NamespacedName \<Rightarrow> 'q handler" where
  "enqueueRouteNamespacedName Q key =
     (if nn_Namespace key = [] \<or> nn_Name key = [] then skip else on_routeQueue (wq_Add Q (namespacedKey key)))"

definition enqueueEndpointSelectorNamespacedName :: "'q workqueue \<Rightarrow> NamespacedName \<Rightarrow> 'q handler" where
  "enqueueEndpointSelectorNamespacedName Q key =
     (if nn_Namespace key = [] \<or> nn_Name key = [] then skip else on_endpointSelectorQueue (wq_Add Q (namespacedKey key)))"

definition enqueueGatewayParentsForRoute :: "'q workqueue \<Rightarrow> TCPRoute \<Rightarrow> 'q handler" where
  "enqueueGatewayParentsForRoute Q route = for_all (\<lambda>key. on_gatewayQueue (wq_Add Q key)) (routeGatewayParentKeys route)"

definition enqueueEndpointSelectorsForRoute :: "'q workqueue \<Rightarrow> TCPRoute \<Rightarrow> 'q handler" where
  "enqueueEndpointSelectorsForRoute Q route =
     for_all (\<lambda>key. on_endpointSelectorQueue (wq_Add Q key)) (routeBackendEndpointSelectorKeys route)"

abbreviation route_nn :: "TCPRoute \<Rightarrow> NamespacedName" where
  "route_nn route \<equiv> NamespacedName (tr_Namespace route) (tr_Name route)"

definition enqueueRoutesForGateway :: "'q workqueue \<Rightarrow> 'w cluster \<Rightarrow> NamespacedName \<Rightarrow> 'q handler" where
  "enqueueRoutesForGateway Q c key =
     (case routes_ByIndex c routeByGatewayIndex (namespacedKey key) of
        Inl err \<Rightarrow> skip
      | Inr items \<Rightarrow> for_all (\<lambda>item. with_object (routeFromObject item) (\<lambda>route.
          andThen (enqueueRouteNamespacedName Q (route_nn route)) (enqueueEndpointSelectorsForRoute Q route))) items)"

definition enqueueGatewaysForClass :: "'q workqueue \<Rightarrow> 'w cluster \<Rightarrow> string \<Rightarrow> 'q handler" where
  "enqueueGatewaysForClass Q c className =
     (case gateways_ByIndex c gatewayByClassIndex className of
        Inl err \<Rightarrow> skip
      | Inr items \<Rightarrow> for_all (\<lambda>item. with_object (gatewayFromObject item) (\<lambda>gateway.
          andThen (enqueueGatewayNamespacedName Q (gateway_key gateway)) (enqueueRoutesForGateway Q c (gateway_key gateway))))
          items)"

definition enqueueGatewayForIPAddressObject :: "'q workqueue \<Rightarrow> obj \<Rightarrow> 'q handler" where
  "enqueueGatewayForIPAddressObject Q obj = with_object (ipAddressFromObject obj) (\<lambda>ipAddress.
     let key = gatewayKeyForIPAddress ipAddress in
     if key \<noteq> [] then on_gatewayQueue (wq_Add Q key) else skip)"

definition enqueueEndpointSelectorForEndpointSliceObject :: "'q workqueue \<Rightarrow> obj \<Rightarrow> 'q handler" where
  "enqueueEndpointSelectorForEndpointSliceObject Q obj = with_object (endpointSliceFromObject obj) (\<lambda>endpointSlice.
     let key = endpointSelectorKeyForEndpointSlice endpointSlice in
     if key \<noteq> [] then on_endpointSelectorQueue (wq_Add Q key) else skip)"

abbreviation NamespaceIndex :: string where "NamespaceIndex \<equiv> ''namespace''"

abbreviation unstructured_nn :: "Unstructured \<Rightarrow> NamespacedName" where
  "unstructured_nn u \<equiv> NamespacedName (us_Namespace u) (us_Name u)"

definition enqueueEndpointSelectorsForPodObject :: "'q workqueue \<Rightarrow> 'w cluster \<Rightarrow> obj \<Rightarrow> 'q handler" where
  "enqueueEndpointSelectorsForPodObject Q c obj = with_object (podFromObject obj) (\<lambda>pod.
     if om_Namespace (pod_Meta pod) = [] then skip
     else case endpointSelectors_ByIndex c NamespaceIndex (om_Namespace (pod_Meta pod)) of
            Inl err \<Rightarrow> skip
          | Inr items \<Rightarrow> for_all (\<lambda>item. with_object (endpointSelectorFromObject item) (\<lambda>selector.
              enqueueEndpointSelectorNamespacedName Q (unstructured_nn selector))) items)"

definition enqueueSelectorAndRelatedRoutes :: "'q workqueue \<Rightarrow> 'w cluster \<Rightarrow> obj \<Rightarrow> 'q handler" where
  "enqueueSelectorAndRelatedRoutes Q c obj = with_object (endpointSelectorFromObject obj) (\<lambda>selector.
     andThen (enqueueEndpointSelectorNamespacedName Q (unstructured_nn selector))
       (case routes_ByIndex c routeByBackendEndpointSelectorIndex (namespacedKey (unstructured_nn selector)) of
          Inl err \<Rightarrow> skip
        | Inr items \<Rightarrow> for_all (\<lambda>item. with_object (routeFromObject item) (\<lambda>route.
            andThen (enqueueRouteNamespacedName Q (route_nn route)) (enqueueGatewayParentsForRoute Q route))) items))"

section \<open>Event handlers\<close>

datatype event = Added obj | Updated obj obj | Deleted obj

datatype informer = GatewayClassInformer | GatewayInformer | RouteInformer | EndpointSelectorInformer | PodInformer
  | EndpointSliceInformer | IPAddressInformer | ServiceCIDRInformer

text \<open>The object of an event the handlers that ignore the old object look at.\<close>

fun event_object :: "event \<Rightarrow> obj" where
  "event_object (Added x) = x"
| "event_object (Updated old x) = x"
| "event_object (Deleted x) = x"

definition handleGatewayClass :: "'q workqueue \<Rightarrow> 'w cluster \<Rightarrow> obj \<Rightarrow> 'q handler" where
  "handleGatewayClass Q c obj = with_object (gatewayClassFromObject obj) (\<lambda>gatewayClass.
     andThen (on_gatewayClassQueue (wq_Add Q (om_Name (gc_Meta gatewayClass))))
       (enqueueGatewaysForClass Q c (om_Name (gc_Meta gatewayClass))))"

definition handleGateway :: "'q workqueue \<Rightarrow> 'w cluster \<Rightarrow> obj \<Rightarrow> 'q handler" where
  "handleGateway Q c obj = with_object (gatewayFromObject obj) (\<lambda>gateway.
     andThen (enqueueGatewayNamespacedName Q (gateway_key gateway)) (enqueueRoutesForGateway Q c (gateway_key gateway)))"

definition handleRoute :: "'q workqueue \<Rightarrow> obj \<Rightarrow> 'q handler" where
  "handleRoute Q obj = with_object (routeFromObject obj) (\<lambda>route.
     andThen (enqueueRouteNamespacedName Q (route_nn route))
       (andThen (enqueueGatewayParentsForRoute Q route) (enqueueEndpointSelectorsForRoute Q route)))"

definition handleRouteUpdate :: "'q workqueue \<Rightarrow> obj \<Rightarrow> obj \<Rightarrow> 'q handler" where
  "handleRouteUpdate Q oldObj newObj = andThen
     (with_object (routeFromObject oldObj) (\<lambda>oldRoute.
        andThen (enqueueGatewayParentsForRoute Q oldRoute) (enqueueEndpointSelectorsForRoute Q oldRoute)))
     (handleRoute Q newObj)"

definition registerHandlers :: "'q workqueue \<Rightarrow> 'w cluster \<Rightarrow> informer \<Rightarrow> event \<Rightarrow> 'q handler" where
  "registerHandlers Q c informer ev =
     (case informer of
        GatewayClassInformer \<Rightarrow> handleGatewayClass Q c (event_object ev)
      | GatewayInformer \<Rightarrow> handleGateway Q c (event_object ev)
      | RouteInformer \<Rightarrow> (case ev of Updated old new \<Rightarrow> handleRouteUpdate Q old new | _ \<Rightarrow> handleRoute Q (event_object ev))
      | EndpointSelectorInformer \<Rightarrow> enqueueSelectorAndRelatedRoutes Q c (event_object ev)
      | PodInformer \<Rightarrow> enqueueEndpointSelectorsForPodObject Q c (event_object ev)
      | EndpointSliceInformer \<Rightarrow> enqueueEndpointSelectorForEndpointSliceObject Q (event_object ev)
      | IPAddressInformer \<Rightarrow> enqueueGatewayForIPAddressObject Q (event_object ev)
      | ServiceCIDRInformer \<Rightarrow> enqueueGatewaysForClass Q c GatewayClassName)"

section \<open>The keys an event adds\<close>

datatype queue_name = GatewayClassQ | GatewayQ | RouteQ | EndpointSelectorQ

fun queue_of :: "queue_name \<Rightarrow> 'q queues \<Rightarrow> 'q" where
  "queue_of GatewayClassQ q = gatewayClassQueue q"
| "queue_of GatewayQ q = gatewayQueue q"
| "queue_of RouteQ q = routeQueue q"
| "queue_of EndpointSelectorQ q = endpointSelectorQueue q"

text \<open>What the work queue documents of \<open>Add\<close>: on a queue that is not shut down, the key is among those
  still to be processed, and no other key is lost.\<close>

definition queue_adds :: "'q workqueue \<Rightarrow> ('q \<Rightarrow> bool) \<Rightarrow> ('q \<Rightarrow> string set) \<Rightarrow> bool" where
  "queue_adds Q running outstanding \<longleftrightarrow>
     (\<forall>k q. running q \<longrightarrow> running (wq_Add Q k q) \<and> outstanding (wq_Add Q k q) = insert k (outstanding q))"

definition all_running :: "('q \<Rightarrow> bool) \<Rightarrow> 'q queues \<Rightarrow> bool" where
  "all_running running q \<longleftrightarrow> (\<forall>n. running (queue_of n q))"

definition outstanding_keys :: "('q \<Rightarrow> string set) \<Rightarrow> 'q queues \<Rightarrow> (queue_name \<times> string) set" where
  "outstanding_keys outstanding q = {(n, k). k \<in> outstanding (queue_of n q)}"

definition enqueues :: "('q \<Rightarrow> bool) \<Rightarrow> ('q \<Rightarrow> string set) \<Rightarrow> 'q handler \<Rightarrow> (queue_name \<times> string) set \<Rightarrow> bool" where
  "enqueues running outstanding h S \<longleftrightarrow>
     (\<forall>q. all_running running q \<longrightarrow>
       (\<exists>q'. h q = (None, q') \<and> all_running running q' \<and> outstanding_keys outstanding q' = outstanding_keys outstanding q \<union> S))"

lemma enqueuesD:
  assumes "enqueues running outstanding h S" and "all_running running q"
  shows "\<exists>q'. h q = (None, q') \<and> all_running running q' \<and> outstanding_keys outstanding q' = outstanding_keys outstanding q \<union> S"
  using assms by (simp add: enqueues_def)

named_theorems enqueue_rules

lemma enqueues_skip [enqueue_rules]: "enqueues running outstanding skip {}"
  by (simp add: enqueues_def skip_def)

lemma enqueues_andThen [enqueue_rules]:
  assumes "enqueues running outstanding h S" and "enqueues running outstanding h' S'"
  shows "enqueues running outstanding (andThen h h') (S \<union> S')"
  unfolding enqueues_def
proof (intro allI impI)
  fix q assume "all_running running q"
  from enqueuesD [OF assms(1) this] obtain q1 where q1: "h q = (None, q1)" "all_running running q1"
    "outstanding_keys outstanding q1 = outstanding_keys outstanding q \<union> S" by blast
  from enqueuesD [OF assms(2) q1(2)] q1
  show "\<exists>q'. andThen h h' q = (None, q') \<and> all_running running q'
      \<and> outstanding_keys outstanding q' = outstanding_keys outstanding q \<union> (S \<union> S')"
    by (auto simp: andThen_def Un_assoc)
qed

lemma for_all_simps: "for_all f [] = skip" "for_all f (x # xs) = andThen (f x) (for_all f xs)"
  by (auto simp: for_all_def skip_def andThen_def fun_eq_iff split: option.splits prod.splits)

lemma enqueues_for_all [enqueue_rules]:
  assumes "\<And>x. x \<in> set xs \<Longrightarrow> enqueues running outstanding (f x) (S x)"
  shows "enqueues running outstanding (for_all f xs) (\<Union> (S ` set xs))"
  using assms
proof (induction xs)
  case Nil
  then show ?case by (simp add: for_all_simps enqueues_skip)
next
  case (Cons x xs)
  then show ?case using enqueues_andThen [of running outstanding "f x" "S x" "for_all f xs"] by (simp add: for_all_simps)
qed

lemma enqueues_add [enqueue_rules]:
  assumes "queue_adds Q running outstanding"
  shows "enqueues running outstanding (on_gatewayClassQueue (wq_Add Q k)) {(GatewayClassQ, k)}"
    and "enqueues running outstanding (on_gatewayQueue (wq_Add Q k)) {(GatewayQ, k)}"
    and "enqueues running outstanding (on_routeQueue (wq_Add Q k)) {(RouteQ, k)}"
    and "enqueues running outstanding (on_endpointSelectorQueue (wq_Add Q k)) {(EndpointSelectorQ, k)}"
proof -
  have run: "all_running running q'" if "all_running running q" "\<And>m. queue_of m q' = queue_of m q \<or> (\<exists>k. queue_of m q' = wq_Add Q k (queue_of m q))"
    for q q' using that assms unfolding all_running_def queue_adds_def by metis
  have keys: "outstanding_keys outstanding q' = outstanding_keys outstanding q \<union> {(n, k)}"
    if "all_running running q" "\<And>m. queue_of m q' = (if m = n then wq_Add Q k (queue_of m q) else queue_of m q)" for q q' n
    using that assms unfolding all_running_def queue_adds_def outstanding_keys_def by (auto split: if_splits)
  have step: "enqueues running outstanding h {(n, k)}"
    if effect: "\<And>q. \<exists>q'. h q = (None, q') \<and> (\<forall>m. queue_of m q' = (if m = n then wq_Add Q k (queue_of m q) else queue_of m q))" for h n
    unfolding enqueues_def
  proof (intro allI impI)
    fix q assume r: "all_running running q"
    obtain q' where q': "h q = (None, q')" "\<And>m. queue_of m q' = (if m = n then wq_Add Q k (queue_of m q) else queue_of m q)"
      using effect [of q] by blast
    have "all_running running q'" using r by (rule run) (use q'(2) in auto)
    then show "\<exists>q'. h q = (None, q') \<and> all_running running q' \<and> outstanding_keys outstanding q' = outstanding_keys outstanding q \<union> {(n, k)}"
      using q' keys [OF r q'(2)] by blast
  qed
  have all: "(\<forall>m. P m) \<longleftrightarrow> P GatewayClassQ \<and> P GatewayQ \<and> P RouteQ \<and> P EndpointSelectorQ" for P
    by (metis queue_name.exhaust)
  show "enqueues running outstanding (on_gatewayClassQueue (wq_Add Q k)) {(GatewayClassQ, k)}"
    by (rule step) (simp add: on_gatewayClassQueue_def all)
  show "enqueues running outstanding (on_gatewayQueue (wq_Add Q k)) {(GatewayQ, k)}"
    by (rule step) (simp add: on_gatewayQueue_def all)
  show "enqueues running outstanding (on_routeQueue (wq_Add Q k)) {(RouteQ, k)}"
    by (rule step) (simp add: on_routeQueue_def all)
  show "enqueues running outstanding (on_endpointSelectorQueue (wq_Add Q k)) {(EndpointSelectorQ, k)}"
    by (rule step) (simp add: on_endpointSelectorQueue_def all)
qed

text \<open>The specification: the keys each object stands for.\<close>

definition nn_keys :: "queue_name \<Rightarrow> NamespacedName \<Rightarrow> (queue_name \<times> string) set" where
  "nn_keys n key = (if nn_Namespace key = [] \<or> nn_Name key = [] then {} else {(n, namespacedKey key)})"

definition parent_keys :: "TCPRoute \<Rightarrow> (queue_name \<times> string) set" where
  "parent_keys route = Pair GatewayQ ` set (routeGatewayParentKeys route)"

definition selector_keys :: "TCPRoute \<Rightarrow> (queue_name \<times> string) set" where
  "selector_keys route = Pair EndpointSelectorQ ` set (routeBackendEndpointSelectorKeys route)"

definition cached :: "('a \<Rightarrow> obj) \<Rightarrow> goerror + obj list \<Rightarrow> 'a set" where
  "cached mk items = (case items of Inl err \<Rightarrow> {} | Inr xs \<Rightarrow> {x. mk x \<in> set xs})"

definition gateway_keys :: "'w cluster \<Rightarrow> NamespacedName \<Rightarrow> (queue_name \<times> string) set" where
  "gateway_keys c key = nn_keys GatewayQ key \<union>
     (\<Union>route \<in> cached OTCPRoute (routes_ByIndex c routeByGatewayIndex (namespacedKey key)).
        nn_keys RouteQ (route_nn route) \<union> selector_keys route)"

definition class_keys :: "'w cluster \<Rightarrow> string \<Rightarrow> (queue_name \<times> string) set" where
  "class_keys c className =
     (\<Union>gateway \<in> cached OGateway (gateways_ByIndex c gatewayByClassIndex className). gateway_keys c (gateway_key gateway))"

definition route_event_keys :: "TCPRoute \<Rightarrow> (queue_name \<times> string) set" where
  "route_event_keys route = nn_keys RouteQ (route_nn route) \<union> parent_keys route \<union> selector_keys route"

definition related_keys :: "'w cluster \<Rightarrow> NamespacedName \<Rightarrow> (queue_name \<times> string) set" where
  "related_keys c key = nn_keys EndpointSelectorQ key \<union>
     (\<Union>route \<in> cached OTCPRoute (routes_ByIndex c routeByBackendEndpointSelectorIndex (namespacedKey key)).
        nn_keys RouteQ (route_nn route) \<union> parent_keys route)"

text \<open>The caches hold objects of their kind only.\<close>

definition typed_caches :: "'w cluster \<Rightarrow> bool" where
  "typed_caches c \<longleftrightarrow>
     (\<forall>i k xs. routes_ByIndex c i k = Inr xs \<longrightarrow> set xs \<subseteq> range OTCPRoute)
     \<and> (\<forall>i k xs. gateways_ByIndex c i k = Inr xs \<longrightarrow> set xs \<subseteq> range OGateway)
     \<and> (\<forall>i k xs. endpointSelectors_ByIndex c i k = Inr xs \<longrightarrow> set xs \<subseteq> range OUnstructured)"

text \<open>The keys of an event, given the converted objects; \<open>None\<close> when an object is not of the kind of the
  informer, which makes the handler panic.\<close>

definition converted :: "goerror + 'a \<Rightarrow> ('a \<Rightarrow> 'b) \<Rightarrow> 'b option" where
  "converted x f = (case x of Inl _ \<Rightarrow> None | Inr a \<Rightarrow> Some (f a))"

definition nonempty_key :: "queue_name \<Rightarrow> string \<Rightarrow> (queue_name \<times> string) set" where
  "nonempty_key n key = (if key = [] then {} else {(n, key)})"

fun event_keys :: "'w cluster \<Rightarrow> informer \<Rightarrow> event \<Rightarrow> (queue_name \<times> string) set option" where
  "event_keys c GatewayClassInformer ev = converted (gatewayClassFromObject (event_object ev))
     (\<lambda>gc. insert (GatewayClassQ, om_Name (gc_Meta gc)) (class_keys c (om_Name (gc_Meta gc))))"
| "event_keys c GatewayInformer ev = converted (gatewayFromObject (event_object ev)) (\<lambda>g. gateway_keys c (gateway_key g))"
| "event_keys c RouteInformer (Updated old new) =
     (case (routeFromObject old, routeFromObject new) of
        (Inr r, Inr r') \<Rightarrow> Some (parent_keys r \<union> selector_keys r \<union> route_event_keys r')
      | _ \<Rightarrow> None)"
| "event_keys c RouteInformer ev = converted (routeFromObject (event_object ev)) route_event_keys"
| "event_keys c EndpointSelectorInformer ev =
     converted (endpointSelectorFromObject (event_object ev)) (\<lambda>u. related_keys c (unstructured_nn u))"
| "event_keys c PodInformer ev = converted (podFromObject (event_object ev)) (\<lambda>pod.
     if om_Namespace (pod_Meta pod) = [] then {}
     else \<Union>u \<in> cached OUnstructured (endpointSelectors_ByIndex c NamespaceIndex (om_Namespace (pod_Meta pod))).
            nn_keys EndpointSelectorQ (unstructured_nn u))"
| "event_keys c EndpointSliceInformer ev =
     converted (endpointSliceFromObject (event_object ev)) (\<lambda>s. nonempty_key EndpointSelectorQ (endpointSelectorKeyForEndpointSlice s))"
| "event_keys c IPAddressInformer ev =
     converted (ipAddressFromObject (event_object ev)) (\<lambda>ip. nonempty_key GatewayQ (gatewayKeyForIPAddress ip))"
| "event_keys c ServiceCIDRInformer ev = Some (class_keys c GatewayClassName)"

text \<open>The building blocks meet their specification.\<close>

lemma enqueues_names [enqueue_rules]:
  assumes "queue_adds Q running outstanding"
  shows "enqueues running outstanding (enqueueGatewayNamespacedName Q key) (nn_keys GatewayQ key)"
    and "enqueues running outstanding (enqueueRouteNamespacedName Q key) (nn_keys RouteQ key)"
    and "enqueues running outstanding (enqueueEndpointSelectorNamespacedName Q key) (nn_keys EndpointSelectorQ key)"
  using enqueues_add [OF assms]
  by (auto simp: enqueueGatewayNamespacedName_def enqueueRouteNamespacedName_def enqueueEndpointSelectorNamespacedName_def
      nn_keys_def enqueues_skip)

lemma Union_singletons: "(\<Union>x\<in>A. {(n, x)}) = Pair n ` A"
  by auto

lemma enqueues_route_refs [enqueue_rules]:
  assumes "queue_adds Q running outstanding"
  shows "enqueues running outstanding (enqueueGatewayParentsForRoute Q route) (parent_keys route)"
    and "enqueues running outstanding (enqueueEndpointSelectorsForRoute Q route) (selector_keys route)"
proof -
  show "enqueues running outstanding (enqueueGatewayParentsForRoute Q route) (parent_keys route)"
    using enqueues_for_all [of "routeGatewayParentKeys route" running outstanding "\<lambda>key. on_gatewayQueue (wq_Add Q key)" "\<lambda>k. {(GatewayQ, k)}"]
      enqueues_add(2) [OF assms]
    by (simp add: enqueueGatewayParentsForRoute_def parent_keys_def Union_singletons)
  show "enqueues running outstanding (enqueueEndpointSelectorsForRoute Q route) (selector_keys route)"
    using enqueues_for_all [of "routeBackendEndpointSelectorKeys route" running outstanding
        "\<lambda>key. on_endpointSelectorQueue (wq_Add Q key)" "\<lambda>k. {(EndpointSelectorQ, k)}"]
      enqueues_add(4) [OF assms]
    by (simp add: enqueueEndpointSelectorsForRoute_def selector_keys_def Union_singletons)
qed

context object_kind
begin

text \<open>Walking cached objects of the kind, and handling the object of an event.\<close>

lemma enqueues_cached:
  assumes typed: "\<And>xs. items = Inr xs \<Longrightarrow> set xs \<subseteq> range embed"
    and each: "\<And>x. enqueues running outstanding (h x) (S x)"
  shows "enqueues running outstanding
    (case items of Inl err \<Rightarrow> skip | Inr xs \<Rightarrow> for_all (\<lambda>item. with_object (convert item) h) xs)
    (\<Union>x \<in> cached embed items. S x)"
proof (cases items)
  case (Inl err)
  then show ?thesis by (simp add: cached_def enqueues_skip)
next
  case (Inr xs)
  then obtain ys where ys: "xs = map embed ys" using typed [OF Inr] by (metis ex_map_conv subsetD rangeE)
  have "enqueues running outstanding (for_all (\<lambda>item. with_object (convert item) h) xs)
      (\<Union> ((\<lambda>item. \<Union> (S ` {x. embed x = item})) ` set xs))"
  proof (rule enqueues_for_all)
    fix item assume "item \<in> set xs"
    then obtain y where y: "item = embed y" using ys by auto
    then have "{x. embed x = item} = {y}" using embed_inj by blast
    then show "enqueues running outstanding (with_object (convert item) h) (\<Union> (S ` {x. embed x = item}))"
      using each [of y] by (simp add: with_object_def y convert_embed)
  qed
  moreover have "(\<Union> ((\<lambda>item. \<Union> (S ` {x. embed x = item})) ` set xs)) = (\<Union>x \<in> cached embed items. S x)"
    by (auto simp: Inr cached_def)
  ultimately show ?thesis by (simp add: Inr)
qed

lemma enqueues_object:
  assumes "converted (convert obj) S = Some K" and "\<And>x. enqueues running outstanding (h x) (S x)"
  shows "enqueues running outstanding (with_object (convert obj) h) K"
  using assms by (auto simp: converted_def with_object_def split: sum.splits)

end

lemma typed_routes: "typed_caches c \<Longrightarrow> routes_ByIndex c i k = Inr xs \<Longrightarrow> set xs \<subseteq> range OTCPRoute"
  and typed_gateways: "typed_caches c \<Longrightarrow> gateways_ByIndex c i k = Inr xs \<Longrightarrow> set xs \<subseteq> range OGateway"
  and typed_selectors: "typed_caches c \<Longrightarrow> endpointSelectors_ByIndex c i k = Inr xs \<Longrightarrow> set xs \<subseteq> range OUnstructured"
  unfolding typed_caches_def by blast+

lemma enqueues_gateway [enqueue_rules]:
  assumes "queue_adds Q running outstanding" and "typed_caches c"
  shows "enqueues running outstanding
    (andThen (enqueueGatewayNamespacedName Q key) (enqueueRoutesForGateway Q c key)) (gateway_keys c key)"
  unfolding gateway_keys_def enqueueRoutesForGateway_def
  by (intro enqueue_rules route_obj.enqueues_cached assms typed_routes [OF assms(2)])

lemma enqueues_class [enqueue_rules]:
  assumes "queue_adds Q running outstanding" and "typed_caches c"
  shows "enqueues running outstanding (enqueueGatewaysForClass Q c className) (class_keys c className)"
  unfolding class_keys_def enqueueGatewaysForClass_def
  by (intro enqueue_rules gateway_obj.enqueues_cached assms typed_gateways [OF assms(2)])

lemma enqueues_related [enqueue_rules]:
  assumes "queue_adds Q running outstanding" and "typed_caches c"
  shows "enqueues running outstanding
    (andThen (enqueueEndpointSelectorNamespacedName Q key)
       (case routes_ByIndex c routeByBackendEndpointSelectorIndex (namespacedKey key) of
          Inl err \<Rightarrow> skip
        | Inr items \<Rightarrow> for_all (\<lambda>item. with_object (routeFromObject item) (\<lambda>route.
            andThen (enqueueRouteNamespacedName Q (route_nn route)) (enqueueGatewayParentsForRoute Q route))) items))
    (related_keys c key)"
  unfolding related_keys_def
  by (intro enqueue_rules route_obj.enqueues_cached assms typed_routes [OF assms(2)])

lemma enqueues_route_event [enqueue_rules]:
  assumes "queue_adds Q running outstanding"
  shows "enqueues running outstanding (andThen (enqueueRouteNamespacedName Q (route_nn route))
    (andThen (enqueueGatewayParentsForRoute Q route) (enqueueEndpointSelectorsForRoute Q route))) (route_event_keys route)"
  unfolding route_event_keys_def Un_assoc by (intro enqueue_rules assms)

lemma enqueues_nonempty [enqueue_rules]:
  assumes "queue_adds Q running outstanding"
  shows "enqueues running outstanding (let key = k in if key \<noteq> [] then on_gatewayQueue (wq_Add Q key) else skip) (nonempty_key GatewayQ k)"
    and "enqueues running outstanding (let key = k in if key \<noteq> [] then on_endpointSelectorQueue (wq_Add Q key) else skip)
      (nonempty_key EndpointSelectorQ k)"
  using enqueues_add [OF assms] by (simp_all add: nonempty_key_def Let_def enqueues_skip)

lemma handlers_enqueue:
  assumes Q: "queue_adds Q running outstanding" and c: "typed_caches c" and K: "event_keys c informer ev = Some K"
  shows "enqueues running outstanding (registerHandlers Q c informer ev) K"
proof (cases informer)
  case GatewayClassInformer
  have "enqueues running outstanding (andThen (on_gatewayClassQueue (wq_Add Q n)) (enqueueGatewaysForClass Q c n))
      (insert (GatewayClassQ, n) (class_keys c n))" for n
    using enqueues_andThen [OF enqueues_add(1) [OF Q, of n] enqueues_class [OF Q c, of n]] by simp
  then show ?thesis
    using K by (auto simp: GatewayClassInformer registerHandlers_def handleGatewayClass_def intro: gatewayClass_obj.enqueues_object)
next
  case GatewayInformer
  then show ?thesis
    using K enqueues_gateway [OF Q c] by (auto simp: registerHandlers_def handleGateway_def intro: gateway_obj.enqueues_object)
next
  case RouteInformer
  show ?thesis
  proof (cases "\<exists>old new. ev = Updated old new")
    case True
    then obtain old new r r' where ev: "ev = Updated old new" "routeFromObject old = Inr r" "routeFromObject new = Inr r'"
      "K = (parent_keys r \<union> selector_keys r) \<union> route_event_keys r'"
      using K by (auto simp: RouteInformer split: sum.splits)
    show ?thesis
      unfolding RouteInformer registerHandlers_def ev(4) using ev(1-3)
      by (auto simp: handleRouteUpdate_def handleRoute_def with_object_def intro!: enqueue_rules Q)
  next
    case False
    then have "converted (routeFromObject (event_object ev)) route_event_keys = Some K"
      using K by (cases ev) (auto simp: RouteInformer)
    then show ?thesis
      using False enqueues_route_event [OF Q]
      by (cases ev) (auto simp: RouteInformer registerHandlers_def handleRoute_def intro: route_obj.enqueues_object)
  qed
next
  case EndpointSelectorInformer
  then show ?thesis
    using K enqueues_related [OF Q c]
    by (auto simp: registerHandlers_def enqueueSelectorAndRelatedRoutes_def intro: selector_obj.enqueues_object)
next
  case PodInformer
  have "enqueues running outstanding (if ns = [] then skip
     else case endpointSelectors_ByIndex c NamespaceIndex ns of
            Inl err \<Rightarrow> skip
          | Inr items \<Rightarrow> for_all (\<lambda>item. with_object (endpointSelectorFromObject item) (\<lambda>selector.
              enqueueEndpointSelectorNamespacedName Q (unstructured_nn selector))) items)
     (if ns = [] then {} else \<Union>u \<in> cached OUnstructured (endpointSelectors_ByIndex c NamespaceIndex ns).
            nn_keys EndpointSelectorQ (unstructured_nn u))" for ns
    by (cases "ns = []") (simp_all add: enqueues_skip,
        intro selector_obj.enqueues_cached typed_selectors [OF c] enqueues_names(3) [OF Q])
  then show ?thesis
    using K by (auto simp: PodInformer registerHandlers_def enqueueEndpointSelectorsForPodObject_def intro!: pod_obj.enqueues_object)
next
  case EndpointSliceInformer
  then show ?thesis
    using K enqueues_nonempty(2) [OF Q]
    by (auto simp: registerHandlers_def enqueueEndpointSelectorForEndpointSliceObject_def Let_def intro: slice_obj.enqueues_object)
next
  case IPAddressInformer
  then show ?thesis
    using K enqueues_nonempty(1) [OF Q]
    by (auto simp: registerHandlers_def enqueueGatewayForIPAddressObject_def Let_def intro: ipAddress_obj.enqueues_object)
next
  case ServiceCIDRInformer
  then show ?thesis using K enqueues_class [OF Q c] by (auto simp: registerHandlers_def)
qed

context object_kind
begin

lemma object_panics:
  assumes "converted (convert obj) S = None"
  shows "\<exists>message q'. with_object (convert obj) h q = (Some (Panic message), q')"
  using assms convert_Inl by (fastforce simp: converted_def with_object_def panicking_def split: sum.splits)

end

lemma handlers_panic:
  assumes Q: "queue_adds Q running outstanding" and q: "all_running running q" and K: "event_keys c informer ev = None"
  shows "\<exists>message q'. registerHandlers Q c informer ev q = (Some (Panic message), q')"
proof (cases "\<exists>old new. informer = RouteInformer \<and> ev = Updated old new")
  case True
  then obtain old new where ev: "informer = RouteInformer" "ev = Updated old new" by blast
  show ?thesis
  proof (cases "routeFromObject old")
    case (Inl p)
    then show ?thesis using route_obj.convert_Inl [of old p]
      by (auto simp: ev registerHandlers_def handleRouteUpdate_def with_object_def panicking_def andThen_def)
  next
    case (Inr r)
    have "enqueues running outstanding
        (andThen (enqueueGatewayParentsForRoute Q r) (enqueueEndpointSelectorsForRoute Q r)) (parent_keys r \<union> selector_keys r)"
      by (intro enqueue_rules Q)
    from enqueuesD [OF this q] obtain q1 where
      q1: "andThen (enqueueGatewayParentsForRoute Q r) (enqueueEndpointSelectorsForRoute Q r) q = (None, q1)" by blast
    have "converted (routeFromObject new) route_event_keys = None"
      using K Inr by (auto simp: ev converted_def split: sum.splits)
    from route_obj.object_panics [OF this] q1 Inr show ?thesis
      by (fastforce simp: ev registerHandlers_def handleRouteUpdate_def handleRoute_def with_object_def andThen_def)
  qed
next
  case False
  show ?thesis
  proof (cases informer)
    case GatewayClassInformer
    then show ?thesis using K gatewayClass_obj.object_panics by (auto simp: registerHandlers_def handleGatewayClass_def)
  next
    case GatewayInformer
    then show ?thesis using K gateway_obj.object_panics by (auto simp: registerHandlers_def handleGateway_def)
  next
    case RouteInformer
    then have "converted (routeFromObject (event_object ev)) route_event_keys = None"
      using K False by (cases ev) auto
    from route_obj.object_panics [OF this] show ?thesis
      using False RouteInformer by (cases ev) (auto simp: registerHandlers_def handleRoute_def)
  next
    case EndpointSelectorInformer
    then show ?thesis using K selector_obj.object_panics by (auto simp: registerHandlers_def enqueueSelectorAndRelatedRoutes_def)
  next
    case PodInformer
    then show ?thesis using K pod_obj.object_panics by (auto simp: registerHandlers_def enqueueEndpointSelectorsForPodObject_def)
  next
    case EndpointSliceInformer
    then show ?thesis using K slice_obj.object_panics by (auto simp: registerHandlers_def enqueueEndpointSelectorForEndpointSliceObject_def)
  next
    case IPAddressInformer
    then show ?thesis using K ipAddress_obj.object_panics by (auto simp: registerHandlers_def enqueueGatewayForIPAddressObject_def)
  next
    case ServiceCIDRInformer
    then show ?thesis using K by simp
  qed
qed

text \<open>C11: Handlers and their specification. On running queues and well-typed caches, an informer event
  makes the handlers add exactly the keys of the specification, to the right queues, without losing a
  key and without a panic; the handlers panic exactly on objects that are not of the informer's kind.\<close>

theorem events_enqueue_exactly:
  assumes "queue_adds Q running outstanding" and "typed_caches c" and "all_running running q"
  shows "case event_keys c informer ev of
      Some K \<Rightarrow> \<exists>q'. registerHandlers Q c informer ev q = (None, q') \<and> all_running running q'
        \<and> outstanding_keys outstanding q' = outstanding_keys outstanding q \<union> K
    | None \<Rightarrow> \<exists>message q'. registerHandlers Q c informer ev q = (Some (Panic message), q')"
  using enqueuesD [OF handlers_enqueue [OF assms(1,2)] assms(3)] handlers_panic [OF assms(1,3)]
  by (auto split: option.splits)

text \<open>An update looks at the new object only: an address that lost the label of this controller wakes no Gateway,
  although the old object was indexed under one.\<close>

lemma relabelled_address_ignored:
  assumes "label (ip_Meta a) managedByLabelKey \<noteq> managedByLabelValue"
  shows "registerHandlers Q c IPAddressInformer (Updated old (OIPAddress a)) q = (None, q)"
  using assms by (simp add: registerHandlers_def enqueueGatewayForIPAddressObject_def ipAddressFromObject_def with_object_def
      gatewayKeyForIPAddress_def skip_def)

section \<open>No dependent Gateway is forgotten\<close>

text \<open>\<open>recache c d\<close> is the cluster \<open>c\<close> with the object caches of \<open>d\<close>: what the Gateway reconciler reads
  of GatewayClasses, Gateways, routes, selectors, ServiceCIDRs and the addresses a Gateway owns, and the
  caches of pods and slices it does not read. One read stays that of \<open>c\<close>: the list of all addresses, from
  which an allocation learns the taken ones. Nothing wakes a Gateway when an address of another one is
  taken or freed. Everything else the reconciler uses does not look at these caches.\<close>

definition recache :: "'w cluster \<Rightarrow> 'w cluster \<Rightarrow> 'w cluster" where
  "recache c d = c\<lparr>gatewayClasses_Get := gatewayClasses_Get d, gateways_Get := gateways_Get d,
     gateways_ByIndex := gateways_ByIndex d, routes_Get := routes_Get d, routes_ByIndex := routes_ByIndex d,
     endpointSelectors_GetByKey := endpointSelectors_GetByKey d, endpointSelectors_ByIndex := endpointSelectors_ByIndex d,
     serviceCIDRs_List := serviceCIDRs_List d, ipAddresses_ByIndex := ipAddresses_ByIndex d,
     pods_List := pods_List d, endpointSlices_ByIndex := endpointSlices_ByIndex d\<rparr>"

named_theorems recache_simps

lemma recache_reads [recache_simps]:
  "gatewayClasses_Get (recache c d) = gatewayClasses_Get d" "gateways_Get (recache c d) = gateways_Get d"
  "gateways_ByIndex (recache c d) = gateways_ByIndex d" "routes_Get (recache c d) = routes_Get d"
  "routes_ByIndex (recache c d) = routes_ByIndex d"
  "endpointSelectors_GetByKey (recache c d) = endpointSelectors_GetByKey d"
  "serviceCIDRs_List (recache c d) = serviceCIDRs_List d"
  "getGateway (recache c d) key = getGateway d key" "getGatewayClass (recache c d) = getGatewayClass d"
  "listRoutesForGateway (recache c d) nn = listRoutesForGateway d nn"
  "listIPv4ServiceCIDRs (recache c d) = listIPv4ServiceCIDRs d"
  "listOwnedGatewayIPAddresses (recache c d) nn = listOwnedGatewayIPAddresses d nn"
  unfolding recache_def getGateway_def getGatewayClass_def listRoutesForGateway_def listIPv4ServiceCIDRs_def
    listOwnedGatewayIPAddresses_def
  by (simp_all split: sum.splits)

lemma recache_status [recache_simps]:
  "condition (recache c d) = condition c" "mergeConditions (recache c d) = mergeConditions c"
  "gatewayWithStatus (recache c d) = gatewayWithStatus c" "updateGatewayStatus (recache c d) = updateGatewayStatus c"
  by (simp_all add: fun_eq_iff recache_def condition_def mergeConditions_def gatewayWithStatus_def updateGatewayStatus_def Let_def)

lemma recache_listeners [recache_simps]:
  "listenerRefused (recache c d) = listenerRefused c" "listenerAccepted (recache c d) = listenerAccepted c"
  "listenerStatusesForGatewayMessage (recache c d) = listenerStatusesForGatewayMessage c"
  "validateGatewayListeners (recache c d) = validateGatewayListeners c"
  "setListenerProgrammedCondition (recache c d) = setListenerProgrammedCondition c"
proof -
  show r: "listenerRefused (recache c d) = listenerRefused c" and a: "listenerAccepted (recache c d) = listenerAccepted c"
    by (simp_all add: fun_eq_iff listenerRefused_def listenerAccepted_def listenerStatusForOutcome_def recache_status)
  show "listenerStatusesForGatewayMessage (recache c d) = listenerStatusesForGatewayMessage c"
    by (simp add: fun_eq_iff listenerStatusesForGatewayMessage_def r)
  have v: "validate_listener (recache c d) = validate_listener c"
    unfolding validate_listener_def fun_eq_iff r a by simp
  show "validateGatewayListeners (recache c d) = validateGatewayListeners c"
    unfolding validateGatewayListeners_def v fun_eq_iff by simp
  have f: "FindStatusCondition (recache c d) = FindStatusCondition c" by (simp add: recache_def)
  show "setListenerProgrammedCondition (recache c d) = setListenerProgrammedCondition c"
    unfolding setListenerProgrammedCondition_def f recache_status fun_eq_iff by simp
qed

lemma recache_calls [recache_simps]:
  "listTakenIPs (recache c d) = listTakenIPs c" "IPAddresses_Delete (recache c d) = IPAddresses_Delete c"
  "ensureGatewayFinalizer (recache c d) = ensureGatewayFinalizer c"
  "removeGatewayFinalizer (recache c d) = removeGatewayFinalizer c"
  "clearManagedGatewayStatus (recache c d) = clearManagedGatewayStatus c"
proof -
  have calls: "Gateways_Get (recache c d) = Gateways_Get c"
    "Gateways_Update (recache c d) = Gateways_Update c" "Gateways_UpdateStatus (recache c d) = Gateways_UpdateStatus c"
    by (simp_all add: recache_def)
  show "listTakenIPs (recache c d) = listTakenIPs c" "IPAddresses_Delete (recache c d) = IPAddresses_Delete c"
    by (simp_all add: listTakenIPs_def recache_def)
  show "ensureGatewayFinalizer (recache c d) = ensureGatewayFinalizer c"
    unfolding ensureGatewayFinalizer_def fun_eq_iff calls by simp
  show "removeGatewayFinalizer (recache c d) = removeGatewayFinalizer c"
    unfolding removeGatewayFinalizer_def fun_eq_iff calls by simp
  show "clearManagedGatewayStatus (recache c d) = clearManagedGatewayStatus c"
    unfolding clearManagedGatewayStatus_def fun_eq_iff calls by simp
qed

lemma recache_owned:
  assumes "listOwnedGatewayIPAddresses d (gateway_key g) = listOwnedGatewayIPAddresses c (gateway_key g)"
  shows "releaseGatewayIPAddresses (recache c d) g w = releaseGatewayIPAddresses c g w"
    and "cleanupGatewayResources (recache c d) g w = cleanupGatewayResources c g w"
    and "gatewayPreviouslyManaged (recache c d) g = gatewayPreviouslyManaged c g"
proof -
  show r: "releaseGatewayIPAddresses (recache c d) g w = releaseGatewayIPAddresses c g w" for w
    unfolding releaseGatewayIPAddresses_def recache_reads recache_calls assms by simp
  show "cleanupGatewayResources (recache c d) g w = cleanupGatewayResources c g w"
    unfolding cleanupGatewayResources_def r recache_calls by simp
  show "gatewayPreviouslyManaged (recache c d) g = gatewayPreviouslyManaged c g"
    unfolding gatewayPreviouslyManaged_def recache_reads assms by simp
qed

lemma recache_alloc:
  "alloc_loop (recache c d) g p a taken w = alloc_loop c g p a taken w"
proof (induction c g p a taken w rule: alloc_loop.induct)
  case (1 c g p a taken w)
  have "IPAddresses_Create (recache c d) = IPAddresses_Create c" by (simp add: recache_def)
  with 1 show ?case
    by (subst (1 2) alloc_loop.simps) (auto split: sum.splits prod.splits option.splits)
qed

lemma recache_vip:
  assumes "serviceCIDRs_List d = serviceCIDRs_List c"
    and "listOwnedGatewayIPAddresses d (gateway_key g) = listOwnedGatewayIPAddresses c (gateway_key g)"
  shows "ensureGatewayVIP (recache c d) g w = ensureGatewayVIP c g w"
proof -
  have a: "alloc_prefixes (recache c d) g ps taken w = alloc_prefixes c g ps taken w" for g ps taken w
    by (induction c g ps taken w rule: alloc_prefixes.induct)
      (auto simp: recache_alloc split: sum.splits prod.splits option.splits)
  have l: "listIPv4ServiceCIDRs d = listIPv4ServiceCIDRs c" using assms(1) by (simp add: listIPv4ServiceCIDRs_def)
  show ?thesis unfolding ensureGatewayVIP_def recache_reads recache_calls a l assms(2) by simp
qed

text \<open>The evaluation looks at the selectors the attached routes refer to, and at no other.\<close>

definition selector_ref :: "BackendRef \<Rightarrow> bool" where
  "selector_ref b \<longleftrightarrow> br_Group b = Some endpointSelectorAPIGroup \<and> string_or endpointSelectorKind (br_Kind b) = endpointSelectorKind"

definition same_backend :: "'w cluster \<Rightarrow> 'w cluster \<Rightarrow> TCPRoute \<Rightarrow> bool" where
  "same_backend c d route \<longleftrightarrow>
     (\<forall>b \<in> set (concat (tr_Rules route)). selector_ref b \<longrightarrow>
        endpointSelectors_GetByKey d (backend_key route b) = endpointSelectors_GetByKey c (backend_key route b))"

lemma recache_backend:
  assumes "same_backend c d route"
  shows "evaluateRouteBackend (recache c d) route ev = evaluateRouteBackend c route ev"
proof (cases "length (tr_Rules route) = 1 \<and> length (tr_Rules route ! 0) = 1")
  case True
  let ?b = "tr_Rules route ! 0 ! 0"
  have "?b \<in> set (concat (tr_Rules route))" using True by (auto simp: in_set_conv_nth intro!: bexI [of _ "tr_Rules route ! 0"])
  then have same: "endpointSelectors_GetByKey d (backend_key route ?b) = endpointSelectors_GetByKey c (backend_key route ?b)"
    if "selector_ref ?b" using assms that unfolding same_backend_def by blast
  have u: "endpointSelectorFromUnstructured (recache c d) = endpointSelectorFromUnstructured c"
    "evaluateEndpointSelector (recache c d) = evaluateEndpointSelector c"
    by (simp_all add: fun_eq_iff endpointSelectorFromUnstructured_def evaluateEndpointSelector_def recache_def)
  have g: "getEndpointSelector (recache c d) (NamespacedName (string_or (tr_Namespace route) (br_Namespace ?b)) (br_Name ?b))
      = getEndpointSelector c (NamespacedName (string_or (tr_Namespace route) (br_Namespace ?b)) (br_Name ?b))"
    if "selector_ref ?b"
    using same [OF that] unfolding getEndpointSelector_def u by (simp add: recache_reads backend_key_def)
  show ?thesis
  proof (cases "selector_ref ?b")
    case True
    show ?thesis unfolding evaluateRouteBackend_def Let_def u g [OF True] by simp
  next
    case False
    then show ?thesis by (auto simp: evaluateRouteBackend_def selector_ref_def Let_def endpointSelectorAPIGroup_def split: option.splits)
  qed
next
  case False
  then show ?thesis by (auto simp: evaluateRouteBackend_def)
qed

lemma recache_evaluateRoute:
  assumes "same_backend c d route"
  shows "evaluateRoute (recache c d) route p g cls routes = evaluateRoute c route p g cls routes"
proof -
  have "resolveGatewayListener (recache c d) = resolveGatewayListener c"
    by (simp add: fun_eq_iff resolveGatewayListener_def recache_listeners)
  then have "evaluateRouteParent (recache c d) = evaluateRouteParent c" by (simp add: fun_eq_iff evaluateRouteParent_def)
  then show ?thesis by (simp add: evaluateRoute_def recache_backend [OF assms] Let_def)
qed

lemma attached_subset: "set (attachedRoutesForListener g l routes) \<subseteq> set routes"
  by (auto simp: attachedRoutesForListener_eq)

lemma recache_evaluateGateway:
  assumes "\<And>r. r \<in> set routes \<Longrightarrow> same_backend c d r"
  shows "evaluateGateway (recache c d) g cls routes = evaluateGateway c g cls routes"
proof -
  have "evaluateGatewayListener (recache c d) g k routes l st = evaluateGatewayListener c g k routes l st" for k l st
  proof (cases "\<exists>r. attachedRoutesForListener g l routes = [r]")
    case True
    then obtain r where r: "attachedRoutesForListener g l routes = [r]" by blast
    then have "same_backend c d r" using attached_subset [of g l routes] assms by simp
    then show ?thesis
      by (simp add: evaluateGatewayListener_def r recache_evaluateRoute recache_listeners Let_def split: prod.splits)
  next
    case False
    then show ?thesis
      by (auto simp: evaluateGatewayListener_def recache_listeners Let_def split: list.splits prod.splits)
  qed
  then have l: "evaluateGatewayListener (recache c d) g k routes = evaluateGatewayListener c g k routes" for k
    by (simp add: fun_eq_iff)
  show ?thesis unfolding evaluateGateway_def l recache_listeners by simp
qed

lemma recache_withVIP: "withVIP (recache c d) = withVIP c"
  unfolding withVIP_def fun_eq_iff recache_listeners by simp

text \<open>When the reads of a Gateway are the same, so is its whole reconcile.\<close>

lemma recache_reconcileGateway:
  assumes "getGateway d key = getGateway c key"
    and "\<And>g. getGateway c key = Inr g \<Longrightarrow> listOwnedGatewayIPAddresses d (gateway_key g) = listOwnedGatewayIPAddresses c (gateway_key g)"
    and "\<And>g. getGateway c key = Inr g \<Longrightarrow> gw_GatewayClassName g = GatewayClassName \<Longrightarrow>
      getGatewayClass d = getGatewayClass c \<and> serviceCIDRs_List d = serviceCIDRs_List c
      \<and> listRoutesForGateway d (gateway_key g) = listRoutesForGateway c (gateway_key g)
      \<and> (\<forall>routes. listRoutesForGateway c (gateway_key g) = Inr routes \<longrightarrow> (\<forall>r \<in> set routes. same_backend c d r))"
  shows "reconcileGateway (recache c d) key w = reconcileGateway c key w"
proof (cases "getGateway c key")
  case (Inl err)
  then show ?thesis unfolding reconcileGateway_def recache_reads assms(1) by simp
next
  case g: (Inr g)
  note owned = recache_owned [OF assms(2) [OF g]]
  show ?thesis
  proof (cases "gw_GatewayClassName g = GatewayClassName")
    case False
    then show ?thesis
      unfolding reconcileGateway_def recache_reads recache_calls assms(1) g sum.case owned by simp
  next
    case True
    note same = assms(3) [OF g True]
    have v: "ensureGatewayVIP (recache c d) g w = ensureGatewayVIP c g w" for w
      by (rule recache_vip [OF _ assms(2) [OF g]]) (use same in simp)
    show ?thesis
    proof (cases "listRoutesForGateway c (gateway_key g)")
      case (Inl err)
      then have r: "listRoutesForGateway d (gateway_key g) = Inl err" "getGatewayClass d = getGatewayClass c"
        using same by auto
      show ?thesis
        unfolding reconcileGateway_def recache_reads recache_calls assms(1) g sum.case owned unfolding r Inl sum.case by simp
    next
      case (Inr routes)
      then have e: "evaluateGateway (recache c d) g cls routes = evaluateGateway c g cls routes" for cls
        using same by (intro recache_evaluateGateway) blast
      have r: "listRoutesForGateway d (gateway_key g) = Inr routes" "getGatewayClass d = getGatewayClass c"
        using same Inr by auto
      show ?thesis
        unfolding reconcileGateway_def recache_reads recache_calls recache_status recache_withVIP v assms(1) g sum.case owned
        unfolding r Inr sum.case e by simp
    qed
  qed
qed

text \<open>What an informer promises of an event that changes its cache from \<open>c\<close> to \<open>c'\<close>: only lookups under the
  name, or under an index key, of the object of the event can give something else. Of the events of
  IPAddresses this includes that an update keeps the index key of an address: the parent reference of an
  IPAddress is immutable, and nobody is supposed to take away the label the controller gave it.\<close>

definition event_routes :: "event \<Rightarrow> TCPRoute set" where
  "event_routes ev = {r. routeFromObject (event_object ev) = Inr r} \<union>
     (case ev of Updated old new \<Rightarrow> {r. routeFromObject old = Inr r} | _ \<Rightarrow> {})"

definition named_key :: "NamespacedName \<Rightarrow> bool" where
  "named_key n \<longleftrightarrow> splitNamespacedKey (namespacedKey n) = Inr n"

definition cache_change :: "'w cluster \<Rightarrow> 'w cluster \<Rightarrow> informer \<Rightarrow> event \<Rightarrow> bool" where
  "cache_change c c' informer ev \<longleftrightarrow>
     c' = recache c c'
     \<and> (\<forall>n. gatewayClasses_Get c' n \<noteq> gatewayClasses_Get c n \<longrightarrow> informer = GatewayClassInformer
          \<and> (\<exists>gc. gatewayClassFromObject (event_object ev) = Inr gc \<and> om_Name (gc_Meta gc) = n))
     \<and> (\<forall>ns n. gateways_Get c' ns n \<noteq> gateways_Get c ns n \<longrightarrow> informer = GatewayInformer
          \<and> (\<exists>g. gatewayFromObject (event_object ev) = Inr g \<and> gateway_key g = NamespacedName ns n))
     \<and> (\<forall>k. routes_ByIndex c' routeByGatewayIndex k \<noteq> routes_ByIndex c routeByGatewayIndex k \<longrightarrow> informer = RouteInformer
          \<and> (\<exists>r \<in> event_routes ev. k \<in> set (routeGatewayParentKeys r)))
     \<and> (\<forall>k. endpointSelectors_GetByKey c' k \<noteq> endpointSelectors_GetByKey c k \<longrightarrow> informer = EndpointSelectorInformer
          \<and> (\<exists>u. endpointSelectorFromObject (event_object ev) = Inr u \<and> named_key (unstructured_nn u)
               \<and> k = namespacedKey (unstructured_nn u)))
     \<and> (\<forall>k r. r \<in> cached OTCPRoute (routes_ByIndex c routeByBackendEndpointSelectorIndex k) \<longrightarrow>
          r \<notin> cached OTCPRoute (routes_ByIndex c' routeByBackendEndpointSelectorIndex k) \<longrightarrow> informer = RouteInformer
          \<and> (\<exists>r' \<in> event_routes ev. set (routeGatewayParentKeys r) \<subseteq> set (routeGatewayParentKeys r')))
     \<and> (\<forall>k. ipAddresses_ByIndex c' ipAddressByGatewayIndex k \<noteq> ipAddresses_ByIndex c ipAddressByGatewayIndex k \<longrightarrow>
          informer = IPAddressInformer
          \<and> (\<exists>a. ipAddressFromObject (event_object ev) = Inr a \<and> gatewayKeyForIPAddress a = k))
     \<and> (serviceCIDRs_List c' \<noteq> serviceCIDRs_List c \<longrightarrow> informer = ServiceCIDRInformer)"

definition indexed_caches :: "'w cluster \<Rightarrow> obj list \<Rightarrow> obj list \<Rightarrow> bool" where
  "indexed_caches c gatewayObjs routeObjs \<longleftrightarrow>
     index_api (gateways_ByIndex c gatewayByClassIndex) gatewayObjs indexGatewayByClass
     \<and> index_api (routes_ByIndex c routeByGatewayIndex) routeObjs indexRouteByGateway
     \<and> index_api (routes_ByIndex c routeByBackendEndpointSelectorIndex) routeObjs indexRouteByBackendEndpointSelector
     \<and> (\<forall>ns n g. gateways_Get c ns n = Inr g \<longrightarrow> OGateway g \<in> set gatewayObjs \<and> gateway_key g = NamespacedName ns n)
     \<and> (\<forall>g. OGateway g \<in> set gatewayObjs \<longrightarrow> gateways_Get c (gw_Namespace g) (gw_Name g) = Inr g)"

lemma getGateway_key:
  assumes "indexed_caches c gs rs" and "getGateway c key = Inr g"
  shows "OGateway g \<in> set gs \<and> key = namespacedKey (gateway_key g) \<and> named_key (gateway_key g)"
proof -
  obtain n where n: "splitNamespacedKey key = Inr n" "gateways_Get c (nn_Namespace n) (nn_Name n) = Inr g"
    using assms(2) by (auto simp: getGateway_def split: sum.splits)
  then have "gateway_key g = n" "OGateway g \<in> set gs" using assms(1) by (cases n; auto simp: indexed_caches_def)+
  then show ?thesis using n(1) splitNamespacedKey_Inr [of key n] by (simp add: named_key_def)
qed

lemma named_key_nn_keys: "named_key n \<Longrightarrow> nn_keys q n = {(q, namespacedKey n)}"
  using splitNamespacedKey_Inr [of "namespacedKey n" n] by (auto simp: named_key_def nn_keys_def)

lemma cached_class:
  assumes "indexed_caches c gs rs" and "OGateway g \<in> set gs"
  shows "g \<in> cached OGateway (gateways_ByIndex c gatewayByClassIndex (gw_GatewayClassName g))"
  using assms by (simp add: indexed_caches_def index_api_def cached_def indexGatewayByClass_def)

lemma class_wakes:
  assumes "indexed_caches c gs rs" and "getGateway c key = Inr g" and "gw_GatewayClassName g = GatewayClassName"
  shows "(GatewayQ, key) \<in> class_keys c GatewayClassName"
  using getGateway_key [OF assms(1,2)] cached_class [OF assms(1), of g] assms(3) named_key_nn_keys [of "gateway_key g" GatewayQ]
  by (auto simp: class_keys_def gateway_keys_def)

lemma listRoutes_cached:
  assumes "indexed_caches c gs rs" and "listRoutesForGateway c nn = Inr routes" and "r \<in> set routes"
  shows "OTCPRoute r \<in> set rs \<and> namespacedKey nn \<in> set (routeGatewayParentKeys r)"
proof -
  obtain items where items: "routes_ByIndex c routeByGatewayIndex (namespacedKey nn) = Inr items" "OTCPRoute r \<in> set items"
    using listRoutesForGateway_Inr [OF assms(2)] assms(3) by auto
  then show ?thesis using assms(1) by (auto simp: indexed_caches_def index_api_def indexRouteByGateway_def)
qed

lemma selector_wakes:
  assumes idx: "indexed_caches c gs rs" and routes: "listRoutesForGateway c nn = Inr routes" and r: "r \<in> set routes"
    and b: "b \<in> set (concat (tr_Rules r))" "selector_ref b" and u: "backend_key r b = namespacedKey (unstructured_nn u)"
      "named_key (unstructured_nn u)"
  shows "(GatewayQ, namespacedKey nn) \<in> related_keys c (unstructured_nn u)"
proof -
  note cache = listRoutes_cached [OF idx routes r]
  have key: "us_Namespace u \<noteq> [] \<and> us_Name u \<noteq> [] \<and> CHR ''/'' \<notin> set (us_Namespace u) \<and> CHR ''/'' \<notin> set (us_Name u)"
    using u(2) splitNamespacedKey_Inr [of "namespacedKey (unstructured_nn u)" "unstructured_nn u"] by (simp add: named_key_def)
  have eq: "string_or (tr_Namespace r) (br_Namespace b) @ ''/'' @ br_Name b = us_Namespace u @ ''/'' @ us_Name u"
    using u(1) by (simp add: backend_key_def namespacedKey_def)
  have "last (us_Name u) \<noteq> CHR ''/''" using key last_in_set by metis
  then have "br_Name b \<noteq> []" using eq key by (auto dest: arg_cong [where f = last])
  moreover have "string_or (tr_Namespace r) (br_Namespace b) \<noteq> []" using eq key by (cases "us_Namespace u") auto
  ultimately have "isEndpointSelectorBackendRef (tr_Namespace r) b"
    using b(2) by (simp add: isEndpointSelectorBackendRef_def selector_ref_def endpointSelectorAPIGroup_def)
  then have "backend_key r b \<in> set (routeBackendEndpointSelectorKeys r)"
    using b(1) by (auto simp: set_routeBackendEndpointSelectorKeys)
  then have "r \<in> cached OTCPRoute (routes_ByIndex c routeByBackendEndpointSelectorIndex (namespacedKey (unstructured_nn u)))"
    using idx cache u(1) by (simp add: indexed_caches_def index_api_def cached_def indexRouteByBackendEndpointSelector_def)
  then show ?thesis using cache by (auto simp: related_keys_def parent_keys_def)
qed

lemma gateway_change_wakes:
  assumes ch: "cache_change c c' informer ev" and K: "event_keys c' informer ev = Some K"
    and "getGateway c' key \<noteq> getGateway c key"
  shows "(GatewayQ, key) \<in> K"
proof -
  obtain n where n: "splitNamespacedKey key = Inr n" "gateways_Get c' (nn_Namespace n) (nn_Name n) \<noteq> gateways_Get c (nn_Namespace n) (nn_Name n)"
    using assms(3) by (auto simp: getGateway_def split: sum.splits)
  then obtain g where g: "informer = GatewayInformer" "gatewayFromObject (event_object ev) = Inr g" "gateway_key g = n"
    using ch unfolding cache_change_def by (metis NamespacedName.collapse)
  have "key = namespacedKey n" "named_key n" using n(1) splitNamespacedKey_Inr [of key n] by (auto simp: named_key_def)
  then show ?thesis using K g named_key_nn_keys [of n GatewayQ] by (auto simp: converted_def gateway_keys_def)
qed

lemma change_wakes:
  assumes ch: "cache_change c c' informer ev" and idx: "indexed_caches c' gs rs"
    and K: "event_keys c' informer ev = Some K" and diff: "reconcileGateway c' key w \<noteq> reconcileGateway c key w"
  shows "(GatewayQ, key) \<in> K"
proof -
  have c': "c' = recache c c'" using ch by (simp add: cache_change_def)
  have "reconcileGateway (recache c c') key w \<noteq> reconcileGateway c key w" using diff c' by simp
  then consider (gateway) "getGateway c' key \<noteq> getGateway c key"
    | (owned) g where "getGateway c' key = Inr g"
        "listOwnedGatewayIPAddresses c' (gateway_key g) \<noteq> listOwnedGatewayIPAddresses c (gateway_key g)"
    | (live) g where "getGateway c' key = getGateway c key" "getGateway c key = Inr g" "gw_GatewayClassName g = GatewayClassName"
        "\<not> (getGatewayClass c' = getGatewayClass c \<and> serviceCIDRs_List c' = serviceCIDRs_List c
          \<and> listRoutesForGateway c' (gateway_key g) = listRoutesForGateway c (gateway_key g)
          \<and> (\<forall>routes. listRoutesForGateway c (gateway_key g) = Inr routes \<longrightarrow> (\<forall>r \<in> set routes. same_backend c c' r)))"
    using recache_reconcileGateway [of c' key c w] by metis
  then show ?thesis
  proof cases
    case gateway
    then show ?thesis by (rule gateway_change_wakes [OF ch K])
  next
    case owned
    have nn: "key = namespacedKey (gateway_key g)" using getGateway_key [OF idx owned(1)] by blast
    have "ipAddresses_ByIndex c' ipAddressByGatewayIndex key \<noteq> ipAddresses_ByIndex c ipAddressByGatewayIndex key"
      using owned(2) by (auto simp: listOwnedGatewayIPAddresses_def nn)
    then obtain a where "informer = IPAddressInformer" "ipAddressFromObject (event_object ev) = Inr a" "gatewayKeyForIPAddress a = key"
      using ch unfolding cache_change_def by blast
    moreover have "key \<noteq> []" by (simp add: nn namespacedKey_def)
    ultimately show ?thesis using K by (auto simp: converted_def nonempty_key_def)
  next
    case live
    note g = live(1) [unfolded live(2)] 
    have nn: "key = namespacedKey (gateway_key g)" using getGateway_key [OF idx g] by blast
    note wake = class_wakes [OF idx g live(3)]
    consider (cls) "getGatewayClass c' \<noteq> getGatewayClass c" | (cidr) "serviceCIDRs_List c' \<noteq> serviceCIDRs_List c"
      | (routes) "listRoutesForGateway c' (gateway_key g) \<noteq> listRoutesForGateway c (gateway_key g)"
      | (selector) routes r where "listRoutesForGateway c' (gateway_key g) = Inr routes" "r \<in> set routes" "\<not> same_backend c c' r"
      using live(4) by metis
    then show ?thesis
    proof cases
      case cls
      then have "gatewayClasses_Get c' GatewayClassName \<noteq> gatewayClasses_Get c GatewayClassName" by (auto simp: getGatewayClass_def)
      then obtain gc where "informer = GatewayClassInformer" "gatewayClassFromObject (event_object ev) = Inr gc"
        "om_Name (gc_Meta gc) = GatewayClassName" using ch unfolding cache_change_def by blast
      then show ?thesis using K wake by (auto simp: converted_def)
    next
      case cidr
      then have "informer = ServiceCIDRInformer" using ch by (simp add: cache_change_def)
      then show ?thesis using K wake by auto
    next
      case routes
      then have "routes_ByIndex c' routeByGatewayIndex key \<noteq> routes_ByIndex c routeByGatewayIndex key"
        by (auto simp: listRoutesForGateway_def nn)
      then obtain r where "informer = RouteInformer" "r \<in> event_routes ev" "key \<in> set (routeGatewayParentKeys r)"
        using ch unfolding cache_change_def by blast
      then show ?thesis using K
        by (cases ev) (auto simp: event_routes_def converted_def route_event_keys_def parent_keys_def split: sum.splits)
    next
      case selector
      then obtain b where b: "b \<in> set (concat (tr_Rules r))" "selector_ref b"
        "endpointSelectors_GetByKey c' (backend_key r b) \<noteq> endpointSelectors_GetByKey c (backend_key r b)"
        unfolding same_backend_def by blast
      then obtain u where "informer = EndpointSelectorInformer" "endpointSelectorFromObject (event_object ev) = Inr u"
        "named_key (unstructured_nn u)" "backend_key r b = namespacedKey (unstructured_nn u)"
        using ch unfolding cache_change_def by blast
      then show ?thesis using K selector_wakes [OF idx selector(1,2) b(1,2), of u] nn by (auto simp: converted_def)
    qed
  qed
qed

text \<open>Handlers run some time after the event, on the caches of that time. A key that the event would have
  added to the Gateway queue before another change of the caches is still added after it, or by the
  event of that change.\<close>

lemma GatewayQ_keys:
  "(GatewayQ, k) \<in> gateway_keys c n \<longleftrightarrow> (GatewayQ, k) \<in> nn_keys GatewayQ n"
  "(GatewayQ, k) \<in> class_keys c cls \<longleftrightarrow>
     (\<exists>g \<in> cached OGateway (gateways_ByIndex c gatewayByClassIndex cls). (GatewayQ, k) \<in> nn_keys GatewayQ (gateway_key g))"
  "(GatewayQ, k) \<in> related_keys c n \<longleftrightarrow>
     (\<exists>r \<in> cached OTCPRoute (routes_ByIndex c routeByBackendEndpointSelectorIndex (namespacedKey n)). k \<in> set (routeGatewayParentKeys r))"
proof -
  show g: "(GatewayQ, k) \<in> gateway_keys c n \<longleftrightarrow> (GatewayQ, k) \<in> nn_keys GatewayQ n" for n
    by (auto simp: gateway_keys_def nn_keys_def selector_keys_def)
  show "(GatewayQ, k) \<in> class_keys c cls \<longleftrightarrow>
     (\<exists>g \<in> cached OGateway (gateways_ByIndex c gatewayByClassIndex cls). (GatewayQ, k) \<in> nn_keys GatewayQ (gateway_key g))"
    by (simp add: class_keys_def g)
  show "(GatewayQ, k) \<in> related_keys c n \<longleftrightarrow>
     (\<exists>r \<in> cached OTCPRoute (routes_ByIndex c routeByBackendEndpointSelectorIndex (namespacedKey n)). k \<in> set (routeGatewayParentKeys r))"
    by (auto simp: related_keys_def nn_keys_def parent_keys_def)
qed

lemma class_wakes_stable:
  assumes ch: "cache_change c c' informer ev" and idx: "indexed_caches c gs rs" "indexed_caches c' gs' rs'"
    and K: "event_keys c' informer ev = Some K" and k: "(GatewayQ, key) \<in> class_keys c cls"
  shows "(GatewayQ, key) \<in> class_keys c' cls \<or> (GatewayQ, key) \<in> K"
proof -
  obtain g where g: "OGateway g \<in> set gs" "gw_GatewayClassName g = cls" "(GatewayQ, key) \<in> nn_keys GatewayQ (gateway_key g)"
    using k idx(1) unfolding GatewayQ_keys by (auto simp: cached_def indexed_caches_def index_api_def indexGatewayByClass_def)
  then have get: "gateways_Get c (gw_Namespace g) (gw_Name g) = Inr g" using idx(1) by (simp add: indexed_caches_def)
  show ?thesis
  proof (cases "gateways_Get c' (gw_Namespace g) (gw_Name g) = Inr g")
    case True
    then have "OGateway g \<in> set gs'" using idx(2) by (auto simp: indexed_caches_def)
    from cached_class [OF idx(2) this] show ?thesis unfolding GatewayQ_keys using g by blast
  next
    case False
    then obtain g' where "informer = GatewayInformer" "gatewayFromObject (event_object ev) = Inr g'" "gateway_key g' = gateway_key g"
      using ch get unfolding cache_change_def by metis
    then show ?thesis using K g(3) by (auto simp: converted_def GatewayQ_keys)
  qed
qed

lemma related_wakes_stable:
  assumes ch: "cache_change c c' informer ev" and K: "event_keys c' informer ev = Some K" and k: "(GatewayQ, key) \<in> related_keys c n"
  shows "(GatewayQ, key) \<in> related_keys c' n \<or> (GatewayQ, key) \<in> K"
proof -
  obtain r where r: "r \<in> cached OTCPRoute (routes_ByIndex c routeByBackendEndpointSelectorIndex (namespacedKey n))"
    "key \<in> set (routeGatewayParentKeys r)" using k unfolding GatewayQ_keys by blast
  show ?thesis
  proof (cases "r \<in> cached OTCPRoute (routes_ByIndex c' routeByBackendEndpointSelectorIndex (namespacedKey n))")
    case True
    then show ?thesis unfolding GatewayQ_keys using r(2) by blast
  next
    case False
    then obtain r' where "informer = RouteInformer" "r' \<in> event_routes ev" "set (routeGatewayParentKeys r) \<subseteq> set (routeGatewayParentKeys r')"
      using ch r(1) unfolding cache_change_def by metis
    then show ?thesis using K r(2)
      by (cases ev) (auto simp: event_routes_def converted_def route_event_keys_def parent_keys_def split: sum.splits)
  qed
qed

lemma wakes_stable:
  assumes ch: "cache_change c c' informer' ev'" and idx: "indexed_caches c gs rs" "indexed_caches c' gs' rs'"
    and K': "event_keys c' informer' ev' = Some K'" and K: "event_keys c informer ev = Some K" and k: "(GatewayQ, key) \<in> K"
  shows "\<exists>K''. event_keys c' informer ev = Some K'' \<and> ((GatewayQ, key) \<in> K'' \<or> (GatewayQ, key) \<in> K')"
proof (cases informer)
  case GatewayClassInformer
  then show ?thesis using K k class_wakes_stable [OF ch idx K'] by (auto simp: converted_def split: sum.splits)
next
  case EndpointSelectorInformer
  then show ?thesis using K k related_wakes_stable [OF ch K'] by (auto simp: converted_def split: sum.splits)
next
  case ServiceCIDRInformer
  then show ?thesis using K k class_wakes_stable [OF ch idx K'] by auto
next
  case RouteInformer
  then show ?thesis using K k by (cases ev) auto
qed (use K k in \<open>auto simp: converted_def GatewayQ_keys nn_keys_def split: sum.splits if_splits\<close>)

section \<open>A sample queue and sample events\<close>

text \<open>A work queue as the list of its dirty keys, without duplicates, the set of keys handed out, and the
  shutdown flag, and the failures of each key the rate limiter has counted; rate limited keys wait no
  time.\<close>

record sample_queue =
  sq_keys :: "string list"
  sq_processing :: "string set"
  sq_shut :: bool
  sq_failures :: "string \<Rightarrow> nat"

abbreviation sq_outstanding :: "sample_queue \<Rightarrow> string set" where "sq_outstanding q \<equiv> set (sq_keys q)"
abbreviation sq_running :: "sample_queue \<Rightarrow> bool" where "sq_running q \<equiv> \<not> sq_shut q"

definition sq_add :: "string \<Rightarrow> sample_queue \<Rightarrow> sample_queue" where
  "sq_add k q = (if sq_shut q \<or> k \<in> set (sq_keys q) then q else q\<lparr>sq_keys := sq_keys q @ [k]\<rparr>)"

definition sq_get :: "sample_queue \<Rightarrow> ((string \<times> bool) \<times> sample_queue) option" where
  "sq_get q = (case find (\<lambda>k. k \<notin> sq_processing q) (sq_keys q) of
     Some k \<Rightarrow> Some ((k, False), q\<lparr>sq_keys := remove1 k (sq_keys q), sq_processing := insert k (sq_processing q)\<rparr>)
   | None \<Rightarrow> if sq_shut q then Some (([], True), q) else None)"

definition sample_workqueue :: "sample_queue workqueue" where
  "sample_workqueue = \<lparr>wq_Add = sq_add, wq_Get = sq_get, wq_Done = (\<lambda>k q. q\<lparr>sq_processing := sq_processing q - {k}\<rparr>),
     wq_AddRateLimited = (\<lambda>k q. (sq_add k q)\<lparr>sq_failures := (sq_failures q)(k := Suc (sq_failures q k))\<rparr>),
     wq_Forget = (\<lambda>k q. q\<lparr>sq_failures := (sq_failures q)(k := 0)\<rparr>)\<rparr>"

abbreviation empty_queue :: sample_queue where "empty_queue \<equiv>
  \<lparr>sq_keys = [], sq_processing = {}, sq_shut = False, sq_failures = (\<lambda>_. 0)\<rparr>"

definition empty_queues :: "sample_queue queues" where
  "empty_queues = \<lparr>gatewayClassQueue = empty_queue, gatewayQueue = empty_queue, routeQueue = empty_queue,
     endpointSelectorQueue = empty_queue\<rparr>"

lemma sample_queue_adds: "queue_adds sample_workqueue sq_running sq_outstanding"
  by (auto simp: queue_adds_def sample_workqueue_def sq_add_def)

lemma empty_queues_keys: "outstanding_keys sq_outstanding empty_queues = {}" "all_running sq_running empty_queues"
proof -
  have "queue_of n empty_queues = empty_queue" for n by (cases n) (simp_all add: empty_queues_def)
  then show "outstanding_keys sq_outstanding empty_queues = {}" "all_running sq_running empty_queues"
    by (simp_all add: outstanding_keys_def all_running_def)
qed

definition served_cluster :: "obj list \<Rightarrow> string set cluster" where
  "served_cluster routeObjs = demo_cluster\<lparr>
     gateways_Get := (\<lambda>ns n. if ns = ''default'' \<and> n = ''demo'' then Inr demo_gateway else Inl (StatusError NotFound n)),
     gateways_ByIndex := (\<lambda>i key. Inr (serve_index [OGateway demo_gateway] indexGatewayByClass key)),
     routes_ByIndex := (\<lambda>i key. Inr (serve_index routeObjs
       (if i = routeByGatewayIndex then indexRouteByGateway else indexRouteByBackendEndpointSelector) key)),
     endpointSelectors_ByIndex := (\<lambda>_ _. Inr [])\<rparr>"

abbreviation added_route :: event where "added_route \<equiv> Added (OTCPRoute sample_route)"

lemma served_typed: "set routeObjs \<subseteq> range OTCPRoute \<Longrightarrow> typed_caches (served_cluster routeObjs)"
  by (auto simp: typed_caches_def served_cluster_def serve_index_def)

lemma served_indexed: "indexed_caches (served_cluster routeObjs) [OGateway demo_gateway] routeObjs"
proof -
  have "gateway_key demo_gateway = NamespacedName ''default'' ''demo''" by (simp add: demo_fields)
  then show ?thesis
    by (auto simp: indexed_caches_def index_api_def served_cluster_def serve_index_def routeByGatewayIndex_def
        routeByBackendEndpointSelectorIndex_def split: if_splits)
qed

lemma served_keys: "event_keys (served_cluster routeObjs) RouteInformer added_route =
    Some {(RouteQ, ''default/demo-route''), (GatewayQ, ''default/demo''), (EndpointSelectorQ, ''default/app'')}"
proof -
  have "namespacedKey (route_nn sample_route) = ''default/demo-route''" "tr_Namespace sample_route \<noteq> []" "tr_Name sample_route \<noteq> []"
    by (simp_all add: sample_route_def sample_defs namespacedKey_def)
  then have "nn_keys RouteQ (route_nn sample_route) = {(RouteQ, ''default/demo-route'')}" by (simp add: nn_keys_def)
  then show ?thesis
    by (auto simp: converted_def routeFromObject_def route_event_keys_def parent_keys_def selector_keys_def sample_route_keys)
qed

theorem events_enqueue_exactly_witness:
  "\<exists>q'. registerHandlers sample_workqueue (served_cluster []) RouteInformer added_route empty_queues = (None, q')
    \<and> outstanding_keys sq_outstanding q' = {(RouteQ, ''default/demo-route''), (GatewayQ, ''default/demo''), (EndpointSelectorQ, ''default/app'')}"
proof -
  have "typed_caches (served_cluster [])" by (rule served_typed) simp
  from events_enqueue_exactly [OF sample_queue_adds this empty_queues_keys(2), of RouteInformer added_route]
  show ?thesis unfolding served_keys empty_queues_keys(1) by auto
qed

lemma served_reads:
  "getGateway (served_cluster routeObjs) ''default/demo'' = Inr demo_gateway"
  "getGatewayClass (served_cluster routeObjs) = Inr (Some sample_class)"
  "listRoutesForGateway (served_cluster []) sample_nn = Inr []"
  "listRoutesForGateway (served_cluster [OTCPRoute sample_route]) sample_nn = Inr [sample_route]"
  "listOwnedGatewayIPAddresses (served_cluster routeObjs) key = Inr []"
proof -
  have "splitNamespacedKey ''default/demo'' = Inr (NamespacedName ''default'' ''demo'')" by code_simp
  then show "getGateway (served_cluster routeObjs) ''default/demo'' = Inr demo_gateway"
    by (simp add: getGateway_def served_cluster_def)
qed (use demo_reads(2,4) in \<open>simp_all add: served_cluster_def getGatewayClass_def listRoutesForGateway_def serve_index_def
    indexRouteByGateway_def sample_route_keys namespacedKey_def listOwnedGatewayIPAddresses_def\<close>)

lemma served_route_reconcile:
  "reconcileGateway (served_cluster [OTCPRoute sample_route]) ''default/demo'' {} = reconcileGateway demo_cluster ''default/demo'' {}"
proof -
  let ?c = "served_cluster [OTCPRoute sample_route]"
  have "?c = recache demo_cluster ?c" by (simp add: recache_def served_cluster_def)
  moreover have "reconcileGateway (recache demo_cluster ?c) ''default/demo'' {} = reconcileGateway demo_cluster ''default/demo'' {}"
    by (rule recache_reconcileGateway)
      (use demo_reads served_reads in \<open>auto simp: demo_fields same_backend_def\<close>, simp_all add: served_cluster_def)
  ultimately show ?thesis by simp
qed

end
