(* ===== verification/Workers.thy ===== *)
theory Workers
  imports Handlers
begin

text \<open>
  \<open>internal/controller/workers.go\<close> and the run loop of \<open>internal/controller/controller.go\<close>: a worker takes
  a key from its queue, reconciles it, and gives it back, rate limited after an error. A round of a worker
  is a sequence of four phases, and \<open>processNext\<close> runs them to the end. The second part lets the workers that
  \<open>Run\<close> starts, the informers with their handlers, and the API server interleave in a step relation whose
  worker steps are the same phases.
\<close>

section \<open>One round of a worker\<close>

text \<open>The statements of \<open>processNext\<close>: \<open>Get\<close>, the reconcile, \<open>AddRateLimited\<close> or \<open>Forget\<close>, and the deferred
  \<open>Done\<close>, which runs after a panic of the reconciler too. The result is whether to go on, or the panic.\<close>

datatype phase = Getting | Reconciling string | Requeueing string "goerror option" | Finishing string "goerror option"
  | Returned "goerror + bool"

definition panics :: "goerror option \<Rightarrow> bool" where
  "panics err = (case err of Some e \<Rightarrow> is_panic e | None \<Rightarrow> False)"

definition requeueKey :: "'q workqueue \<Rightarrow> string \<Rightarrow> goerror option \<Rightarrow> 'q \<Rightarrow> 'q" where
  "requeueKey Q key err = (case err of Some e \<Rightarrow> wq_AddRateLimited Q key | None \<Rightarrow> wq_Forget Q key)"

definition round_result :: "goerror option \<Rightarrow> goerror + bool" where
  "round_result err = (case err of Some e \<Rightarrow> if is_panic e then Inl e else Inr True | None \<Rightarrow> Inr True)"

fun round_step :: "'q workqueue \<Rightarrow> (string \<Rightarrow> 'w call) \<Rightarrow> phase \<Rightarrow> 'q \<Rightarrow> 'w \<Rightarrow> (phase \<times> 'q \<times> 'w) option" where
  "round_step Q reconcile Getting q w =
     (case wq_Get Q q of
        None \<Rightarrow> None
      | Some ((key, shutdown), q1) \<Rightarrow> Some (if shutdown then Returned (Inr False) else Reconciling key, q1, w))"
| "round_step Q reconcile (Reconciling key) q w =
     (let (err, w1) = reconcile key w in Some (if panics err then Finishing key err else Requeueing key err, q, w1))"
| "round_step Q reconcile (Requeueing key err) q w = Some (Finishing key err, requeueKey Q key err q, w)"
| "round_step Q reconcile (Finishing key err) q w = Some (Returned (round_result err), wq_Done Q key q, w)"
| "round_step Q reconcile (Returned r) q w = None"

fun run_round :: "nat \<Rightarrow> 'q workqueue \<Rightarrow> (string \<Rightarrow> 'w call) \<Rightarrow> phase \<Rightarrow> 'q \<Rightarrow> 'w \<Rightarrow> ((goerror + bool) \<times> 'q \<times> 'w) option" where
  "run_round n Q reconcile (Returned r) q w = Some (r, q, w)"
| "run_round 0 Q reconcile ph q w = None"
| "run_round (Suc n) Q reconcile ph q w =
     (case round_step Q reconcile ph q w of
        None \<Rightarrow> None
      | Some (ph', q', w') \<Rightarrow> run_round n Q reconcile ph' q' w')"

text \<open>The four \<open>processNext\<close> functions differ in their queue and their reconciler only. A round has at most
  four phases; \<open>None\<close> is a \<open>Get\<close> that waits.\<close>

type_synonym ('q, 'w) round = "'q \<Rightarrow> 'w \<Rightarrow> ((goerror + bool) \<times> 'q \<times> 'w) option"

definition processNext :: "'q workqueue \<Rightarrow> (string \<Rightarrow> 'w call) \<Rightarrow> ('q, 'w) round" where
  "processNext Q reconcile q w = run_round 4 Q reconcile Getting q w"

definition processNextGatewayClass :: "'q workqueue \<Rightarrow> 'w cluster \<Rightarrow> ('q, 'w) round" where
  "processNextGatewayClass Q c = processNext Q (reconcileGatewayClass c)"

definition processNextGateway :: "'q workqueue \<Rightarrow> 'w cluster \<Rightarrow> ('q, 'w) round" where
  "processNextGateway Q c = processNext Q (reconcileGateway c)"

definition processNextRoute :: "'q workqueue \<Rightarrow> 'w cluster \<Rightarrow> ('q, 'w) round" where
  "processNextRoute Q c = processNext Q (reconcileRoute c)"

definition processNextEndpointSelector ::
    "'q workqueue \<Rightarrow> 'w cluster \<Rightarrow> (desired_slices \<Rightarrow> string list) \<Rightarrow> ('q, 'w) round" where
  "processNextEndpointSelector Q c order = processNext Q (reconcileEndpointSelector c order)"

text \<open>\<open>for c.processNext(ctx) {}\<close>: not returning is \<open>None\<close>.\<close>

partial_function (option) runWorker ::
    "('q, 'w) round \<Rightarrow> 'q \<Rightarrow> 'w \<Rightarrow> (goerror option \<times> 'q \<times> 'w) option" where
  "runWorker next q w =
     (case next q w of
        None \<Rightarrow> None
      | Some (Inl panic, q', w') \<Rightarrow> Some (Some panic, q', w')
      | Some (Inr continue, q', w') \<Rightarrow> if continue then runWorker next q' w' else Some (None, q', w'))"

section \<open>Construction and start\<close>

definition gatewayClassQueueName :: string where "gatewayClassQueueName = ''clusterip-gw-controller-gatewayclass''"
definition gatewayQueueName :: string where "gatewayQueueName = ''clusterip-gw-controller-gateway''"
definition routeQueueName :: string where "routeQueueName = ''clusterip-gw-controller-tcproute''"
definition endpointSelectorQueueName :: string where "endpointSelectorQueueName = ''clusterip-gw-controller-endpointselector''"

text \<open>A second, in nanoseconds.\<close>

definition controllerQueueResyncPeriod :: int where "controllerQueueResyncPeriod = 1000000000"

record GroupVersionResource =
  gvr_Group :: string
  gvr_Version :: string
  gvr_Resource :: string

definition endpointSelectorVersion :: string where "endpointSelectorVersion = ''v1alpha1''"

definition endpointSelectorGVR :: GroupVersionResource where
  "endpointSelectorGVR = \<lparr>gvr_Group = endpointSelectorAPIGroup, gvr_Version = endpointSelectorVersion,
     gvr_Resource = ''xendpointselectors''\<rparr>"

text \<open>The factory each informer is taken from; the dynamic one is asked for a resource.\<close>

datatype factory = CoreFactory | DynamicFactory | GatewayFactory

fun informer_factory :: "informer \<Rightarrow> factory \<times> GroupVersionResource option" where
  "informer_factory GatewayClassInformer = (GatewayFactory, None)"
| "informer_factory GatewayInformer = (GatewayFactory, None)"
| "informer_factory RouteInformer = (GatewayFactory, None)"
| "informer_factory EndpointSelectorInformer = (DynamicFactory, Some endpointSelectorGVR)"
| "informer_factory PodInformer = (CoreFactory, None)"
| "informer_factory EndpointSliceInformer = (CoreFactory, None)"
| "informer_factory IPAddressInformer = (CoreFactory, None)"
| "informer_factory ServiceCIDRInformer = (CoreFactory, None)"

text \<open>\<open>New\<close> registers these index functions, informer by informer; the first error is wrapped.\<close>

definition controller_indexers :: "(string \<times> informer \<times> (string \<times> (obj \<Rightarrow> goerror + string list)) list) list" where
  "controller_indexers =
     [(''add gateway indexers: '', GatewayInformer, [(gatewayByClassIndex, indexGatewayByClass)]),
      (''add route indexers: '', RouteInformer,
         [(routeByGatewayIndex, indexRouteByGateway),
          (routeByBackendEndpointSelectorIndex, indexRouteByBackendEndpointSelector)]),
      (''add endpointslice indexers: '', EndpointSliceInformer,
         [(endpointSliceByEndpointSelectorIndex, indexEndpointSliceByEndpointSelector)]),
      (''add ipaddress indexers: '', IPAddressInformer, [(ipAddressByGatewayIndex, indexIPAddressByGateway)])]"

fun add_indexers ::
    "(informer \<Rightarrow> (string \<times> (obj \<Rightarrow> goerror + string list)) list \<Rightarrow> goerror option) \<Rightarrow>
      (string \<times> informer \<times> (string \<times> (obj \<Rightarrow> goerror + string list)) list) list \<Rightarrow> goerror option" where
  "add_indexers AddIndexers [] = None"
| "add_indexers AddIndexers ((prefix, informer, indexers) # rest) =
     (case AddIndexers informer indexers of
        Some err \<Rightarrow> Some (WrapError prefix err)
      | None \<Rightarrow> add_indexers AddIndexers rest)"

text \<open>The queues a fresh controller works on, once its indexers are registered.\<close>

definition Controller_New :: "(informer \<Rightarrow> (string \<times> (obj \<Rightarrow> goerror + string list)) list \<Rightarrow> goerror option) \<Rightarrow> (string \<Rightarrow> 'q) \<Rightarrow>
    goerror + 'q queues" where
  "Controller_New AddIndexers newQueue =
     (case add_indexers AddIndexers controller_indexers of
        Some err \<Rightarrow> Inl err
      | None \<Rightarrow> Inr \<lparr>gatewayClassQueue = newQueue gatewayClassQueueName,
          gatewayQueue = newQueue gatewayQueueName,
          routeQueue = newQueue routeQueueName,
          endpointSelectorQueue = newQueue endpointSelectorQueueName\<rparr>)"

datatype run_action = StartFactory factory | WaitForCacheSync "informer list" | StoreReady | StartWorker queue_name int | WaitDone
  | ShutDown queue_name

definition synced_informers :: "informer list" where
  "synced_informers = [GatewayClassInformer, GatewayInformer, RouteInformer, EndpointSelectorInformer, PodInformer,
     EndpointSliceInformer, IPAddressInformer, ServiceCIDRInformer]"

text \<open>The workers \<open>Run\<close> starts, by the queue each serves: two of them serve the Gateway queue.\<close>

definition started_workers :: "queue_name list" where
  "started_workers = [GatewayClassQ, GatewayQ, GatewayQ, RouteQ, EndpointSelectorQ]"

text \<open>\<open>Run\<close> as the sequence of its actions: the result, and the deferred shutdowns last.\<close>

definition Controller_Run :: "bool \<Rightarrow> goerror option \<times> run_action list" where
  "Controller_Run synced =
     (let start = [StartFactory CoreFactory, StartFactory DynamicFactory, StartFactory GatewayFactory, WaitForCacheSync synced_informers];
          deferred = [ShutDown EndpointSelectorQ, ShutDown RouteQ, ShutDown GatewayQ, ShutDown GatewayClassQ] in
      if \<not> synced then
        (Some (ErrorString ''timed out waiting for informer cache sync''), start @ deferred)
      else (None, start @ [StoreReady] @ map (\<lambda>n. StartWorker n controllerQueueResyncPeriod) started_workers @ [WaitDone] @ deferred))"

definition Controller_Ready :: "run_action list \<Rightarrow> bool" where
  "Controller_Ready actions = (StoreReady \<in> set actions)"

section \<open>The controller as a transition system\<close>

text \<open>The caches, the events whose handlers have not run yet, the queues, the world of the API server, and
  the phase of each worker; for the proofs, the caches the last reconcile of a worker read, and those each
  Gateway key was last reconciled with successfully, if it ever was.\<close>

record ('q, 'w) controller =
  s_caches :: "'w cluster"
  s_pending :: "(informer \<times> event) list"
  s_queues :: "'q queues"
  s_world :: 'w
  s_workers :: "nat \<Rightarrow> phase"
  s_read :: "nat \<Rightarrow> 'w cluster"
  s_seen :: "string \<Rightarrow> 'w cluster option"

fun update_queue :: "queue_name \<Rightarrow> 'q \<Rightarrow> 'q queues \<Rightarrow> 'q queues" where
  "update_queue GatewayClassQ x q = q\<lparr>gatewayClassQueue := x\<rparr>"
| "update_queue GatewayQ x q = q\<lparr>gatewayQueue := x\<rparr>"
| "update_queue RouteQ x q = q\<lparr>routeQueue := x\<rparr>"
| "update_queue EndpointSelectorQ x q = q\<lparr>endpointSelectorQueue := x\<rparr>"

fun reconcile_of :: "queue_name \<Rightarrow> 'w cluster \<Rightarrow> (desired_slices \<Rightarrow> string list) \<Rightarrow> string \<Rightarrow> 'w call" where
  "reconcile_of GatewayClassQ c order = reconcileGatewayClass c"
| "reconcile_of GatewayQ c order = reconcileGateway c"
| "reconcile_of RouteQ c order = reconcileRoute c"
| "reconcile_of EndpointSelectorQ c order = reconcileEndpointSelector c order"

text \<open>An informer event: its objects are of the kind of the informer, and the caches change as the informer
  promises. The list of all addresses belongs to the informer of IPAddresses.\<close>

definition informer_event :: "'w cluster \<Rightarrow> 'w cluster \<Rightarrow> informer \<Rightarrow> event \<Rightarrow> bool" where
  "informer_event c c' informer ev \<longleftrightarrow> typed_caches c' \<and> (\<exists>gs rs. indexed_caches c' gs rs)
     \<and> event_keys c' informer ev \<noteq> None \<and> cache_change c (c'\<lparr>ipAddresses_List := ipAddresses_List c\<rparr>) informer ev
     \<and> (ipAddresses_List c' \<noteq> ipAddresses_List c \<longrightarrow> informer = IPAddressInformer)"

text \<open>A worker moves on to the next phase of its round.\<close>

definition moved :: "nat \<Rightarrow> phase \<Rightarrow> 'q \<Rightarrow> 'w \<Rightarrow> ('q, 'w) controller \<Rightarrow> ('q, 'w) controller" where
  "moved i ph x w' s = s\<lparr>s_queues := update_queue (started_workers ! i) x (s_queues s), s_world := w',
     s_workers := (s_workers s)(i := ph),
     s_read := (case s_workers s i of Reconciling key \<Rightarrow> (s_read s)(i := s_caches s) | _ \<Rightarrow> s_read s),
     s_seen := (case s_workers s i of
         Finishing key None \<Rightarrow> if started_workers ! i = GatewayQ then (s_seen s)(key \<mapsto> s_read s i) else s_seen s
       | _ \<Rightarrow> s_seen s)\<rparr>"

definition crashed :: "phase \<Rightarrow> bool" where
  "crashed ph = (case ph of Finishing key err \<Rightarrow> panics err | _ \<Rightarrow> False)"

text \<open>Who takes a step: an informer that updates its cache, one that runs the handlers of its oldest pending
  event, a worker, or the API server with everybody else who changes objects there. A panic in a handler or
  in a reconcile ends the process, and with it the run: it is no step. The workers loop: after a round that
  returned true the next one starts, and \<open>wait.UntilWithContext\<close> calls a worker that returned again.\<close>

datatype controller_actor = Watch informer | Handle informer | Worker nat | Server

inductive controller_step ::
    "'q workqueue \<Rightarrow> (desired_slices \<Rightarrow> string list) \<Rightarrow> controller_actor \<Rightarrow> ('q, 'w) controller \<Rightarrow> ('q, 'w) controller \<Rightarrow> bool"
  for Q :: "'q workqueue" and order :: "desired_slices \<Rightarrow> string list" where
  step_watch: "informer_event (s_caches s) c' informer ev \<Longrightarrow>
    controller_step Q order (Watch informer) s (s\<lparr>s_caches := c', s_pending := s_pending s @ [(informer, ev)]\<rparr>)"
| step_handle: "\<lbrakk>s_pending s = before @ (informer, ev) # later; informer \<notin> fst ` set before;
    registerHandlers Q (s_caches s) informer ev (s_queues s) = (None, q')\<rbrakk> \<Longrightarrow>
    controller_step Q order (Handle informer) s (s\<lparr>s_pending := before @ later, s_queues := q'\<rparr>)"
| step_worker: "\<lbrakk>i < length started_workers;
    round_step Q (reconcile_of (started_workers ! i) (s_caches s) order) (s_workers s i)
      (queue_of (started_workers ! i) (s_queues s)) (s_world s) = Some (ph, x, w'); \<not> crashed ph\<rbrakk> \<Longrightarrow>
    controller_step Q order (Worker i) s (moved i ph x w' s)"
| step_again: "\<lbrakk>i < length started_workers; s_workers s i = Returned (Inr b)\<rbrakk> \<Longrightarrow>
    controller_step Q order (Worker i) s (s\<lparr>s_workers := (s_workers s)(i := Getting)\<rparr>)"
| step_server: "controller_step Q order Server s (s\<lparr>s_world := w'\<rparr>)"

text \<open>The states the actors of a set can lead to.\<close>

inductive controller_reachable_by ::
    "controller_actor set \<Rightarrow> 'q workqueue \<Rightarrow> (desired_slices \<Rightarrow> string list) \<Rightarrow> ('q, 'w) controller \<Rightarrow> ('q, 'w) controller \<Rightarrow> bool"
  for A :: "controller_actor set" and Q :: "'q workqueue" and order :: "desired_slices \<Rightarrow> string list" and s0 :: "('q, 'w) controller" where
  reach_start: "controller_reachable_by A Q order s0 s0"
| reach_step: "controller_reachable_by A Q order s0 s \<Longrightarrow> a \<in> A \<Longrightarrow> controller_step Q order a s s' \<Longrightarrow>
    controller_reachable_by A Q order s0 s'"

abbreviation controller_reachable ::
    "'q workqueue \<Rightarrow> (desired_slices \<Rightarrow> string list) \<Rightarrow> ('q, 'w) controller \<Rightarrow> ('q, 'w) controller \<Rightarrow> bool" where
  "controller_reachable \<equiv> controller_reachable_by UNIV"

text \<open>A controller that just started: no event is pending, no worker has begun a round, no Gateway was reconciled.
  \<open>Run\<close> starts the workers only when the first objects are cached; here they may begin at once, which allows
  more runs. Before the informers start, no Gateway is cached.\<close>

definition controller_start :: "'w cluster \<Rightarrow> 'q queues \<Rightarrow> 'w \<Rightarrow> ('q, 'w) controller" where
  "controller_start c q w = \<lparr>s_caches = c, s_pending = [], s_queues = q, s_world = w, s_workers = (\<lambda>_. Getting),
     s_read = (\<lambda>_. c), s_seen = (\<lambda>_. None)\<rparr>"

definition no_gateways :: "'w cluster \<Rightarrow> bool" where
  "no_gateways c \<longleftrightarrow> typed_caches c \<and> (\<exists>rs. indexed_caches c [] rs)"

section \<open>What the work queue promises\<close>

text \<open>The documented behaviour of a running rate limiting work queue: \<open>outstanding\<close> are the keys that will
  still be handed out, at once or after a delay, \<open>processing\<close> those handed out and not yet done. \<open>Get\<close> never
  hands out a key that is being processed and loses no other key; a key added while it is processed
  stays outstanding.\<close>

definition workqueue_api :: "'q workqueue \<Rightarrow> ('q \<Rightarrow> bool) \<Rightarrow> ('q \<Rightarrow> string set) \<Rightarrow> ('q \<Rightarrow> string set) \<Rightarrow> bool" where
  "workqueue_api Q running outstanding processing \<longleftrightarrow>
     queue_adds Q running outstanding
     \<and> (\<forall>k q. running q \<longrightarrow> processing (wq_Add Q k q) = processing q)
     \<and> (\<forall>k q. running q \<longrightarrow> running (wq_AddRateLimited Q k q)
          \<and> outstanding (wq_AddRateLimited Q k q) = insert k (outstanding q)
          \<and> processing (wq_AddRateLimited Q k q) = processing q)
     \<and> (\<forall>k q. running q \<longrightarrow> running (wq_Forget Q k q) \<and> outstanding (wq_Forget Q k q) = outstanding q
          \<and> processing (wq_Forget Q k q) = processing q)
     \<and> (\<forall>k q. running q \<longrightarrow> running (wq_Done Q k q) \<and> outstanding (wq_Done Q k q) = outstanding q
          \<and> processing (wq_Done Q k q) = processing q - {k})
     \<and> (\<forall>q k x. running q \<longrightarrow> wq_Get Q q = Some ((k, False), x) \<longrightarrow> running x \<and> k \<in> outstanding q
          \<and> k \<notin> processing q \<and> processing x = insert k (processing q) \<and> outstanding q \<subseteq> insert k (outstanding x))
     \<and> (\<forall>q k x. running q \<longrightarrow> wq_Get Q q \<noteq> Some ((k, True), x))"

lemma workqueue_adds: "workqueue_api Q running outstanding processing \<Longrightarrow> queue_adds Q running outstanding"
  by (simp add: workqueue_api_def)

lemma workqueue_get:
  assumes "workqueue_api Q running outstanding processing" and "running q" and "wq_Get Q q = Some ((k, b), x)"
  shows "\<not> b \<and> running x \<and> k \<in> outstanding q \<and> k \<notin> processing q \<and> processing x = insert k (processing q) \<and> outstanding q \<subseteq> insert k (outstanding x)"
proof -
  have "wq_Get Q q \<noteq> Some ((k, True), x)" using assms(1,2) by (simp add: workqueue_api_def)
  then have b: "\<not> b" using assms(3) by auto
  have "wq_Get Q q = Some ((k, False), x) \<longrightarrow> running x \<and> k \<in> outstanding q \<and> k \<notin> processing q
      \<and> processing x = insert k (processing q) \<and> outstanding q \<subseteq> insert k (outstanding x)"
    using assms(1,2) by (simp add: workqueue_api_def)
  then show ?thesis using assms(3) b by auto
qed

text \<open>\<open>AddRateLimited\<close> counts a failure of the key, which the delay grows with, and \<open>Forget\<close> clears its count:
  \<open>failures\<close> is what \<open>NumRequeues\<close> returns. No other operation counts.\<close>

definition workqueue_counts :: "'q workqueue \<Rightarrow> ('q \<Rightarrow> bool) \<Rightarrow> ('q \<Rightarrow> string \<Rightarrow> nat) \<Rightarrow> bool" where
  "workqueue_counts Q running failures \<longleftrightarrow>
     (\<forall>k q. running q \<longrightarrow> failures (wq_Add Q k q) = failures q)
     \<and> (\<forall>k q. running q \<longrightarrow> failures (wq_AddRateLimited Q k q) = (failures q)(k := Suc (failures q k)))
     \<and> (\<forall>k q. running q \<longrightarrow> failures (wq_Forget Q k q) = (failures q)(k := 0))
     \<and> (\<forall>k q. running q \<longrightarrow> failures (wq_Done Q k q) = failures q)
     \<and> (\<forall>q r x. running q \<longrightarrow> wq_Get Q q = Some (r, x) \<longrightarrow> failures x = failures q)"

lemma workqueue_requeue:
  assumes "workqueue_api Q running outstanding processing" and "running q"
  shows "running (requeueKey Q k err q) \<and> processing (requeueKey Q k err q) = processing q
    \<and> outstanding (requeueKey Q k err q) = (if err = None then outstanding q else insert k (outstanding q))"
  using assms by (auto simp: workqueue_api_def requeueKey_def split: option.splits)

lemma workqueue_done:
  assumes "workqueue_api Q running outstanding processing" and "running q"
  shows "running (wq_Done Q k q) \<and> processing (wq_Done Q k q) = processing q - {k} \<and> outstanding (wq_Done Q k q) = outstanding q"
  using assms by (simp add: workqueue_api_def)

lemma queue_of_update: "queue_of m (update_queue n x q) = (if m = n then x else queue_of m q)"
  by (cases n; cases m) simp_all

section \<open>One round\<close>

text \<open>The round as a whole.\<close>

lemma processNext_eq:
  "processNext Q reconcile q w =
     (case wq_Get Q q of
        None \<Rightarrow> None
      | Some ((key, shutdown), q1) \<Rightarrow>
          if shutdown then Some (Inr False, q1, w)
          else let (err, w1) = reconcile key w in
            Some (round_result err, wq_Done Q key (if panics err then q1 else requeueKey Q key err q1), w1))"
  by (simp add: processNext_def numeral_eq_Suc Let_def split: option.splits prod.splits)

text \<open>C19: A failed reconcile is retried, a successful one forgotten. A round on a running queue hands out
  one key that no other worker holds and gives it back; no other outstanding key is lost. After an error
  the key is outstanding again and the rate limiter has counted one more failure of it; after a success it
  has forgotten the failures of the key; it keeps those of all other keys. Unless the reconciler panics the
  worker goes on.\<close>

theorem failed_reconcile_retried:
  assumes "workqueue_api Q running outstanding processing" and "workqueue_counts Q running failures" and "running q"
    and "processNext Q reconcile q w = Some (r, q', w')"
  shows "\<exists>key err. reconcile key w = (err, w') \<and> key \<in> outstanding q \<and> key \<notin> processing q \<and> outstanding q \<subseteq> insert key (outstanding q')
    \<and> running q' \<and> processing q' = processing q
    \<and> (case err of
         None \<Rightarrow> r = Inr True \<and> failures q' = (failures q)(key := 0)
       | Some e \<Rightarrow> if is_panic e then r = Inl e \<and> failures q' = failures q
                   else r = Inr True \<and> key \<in> outstanding q' \<and> failures q' = (failures q)(key := Suc (failures q key)))"
proof -
  obtain key b x where get: "wq_Get Q q = Some ((key, b), x)"
    using assms(4) by (auto simp: processNext_eq split: option.splits)
  note g = workqueue_get [OF assms(1,3) get]
  obtain err w1 where rec: "reconcile key w = (err, w1)" by (metis surj_pair)
  define y where "y = (if panics err then x else requeueKey Q key err x)"
  have res: "r = round_result err" "q' = wq_Done Q key y" "w' = w1"
    using assms(4) g by (simp_all add: processNext_eq get rec y_def)
  have y: "running y \<and> processing y = processing x
      \<and> outstanding y = (if err = None \<or> panics err then outstanding x else insert key (outstanding x))"
    using workqueue_requeue [OF assms(1), of x key err] g by (auto simp: y_def panics_def)
  note d = workqueue_done [OF assms(1) conjunct1 [OF y], of key]
  have fx: "failures x = failures q" using assms(2,3) get unfolding workqueue_counts_def by blast
  have fy: "failures y = (case err of None \<Rightarrow> (failures q)(key := 0)
      | Some e \<Rightarrow> if is_panic e then failures q else (failures q)(key := Suc (failures q key)))"
    using assms(2) g fx by (simp add: y_def panics_def requeueKey_def workqueue_counts_def split: option.splits)
  moreover have "failures q' = failures y" using assms(2) y unfolding res(2) workqueue_counts_def by blast
  ultimately show ?thesis using rec res(1,3) g y d unfolding res(2)
    by (intro exI [of _ key] exI [of _ err]) (auto simp: round_result_def panics_def split: option.splits)
qed

section \<open>Stopping\<close>

text \<open>After \<open>ShutDown\<close> the queue drains: keys already queued are still handed out, each shrinking the
  backlog, additions are ignored, and an empty queue reports the shutdown.\<close>

definition workqueue_drains :: "'q workqueue \<Rightarrow> ('q \<Rightarrow> bool) \<Rightarrow> ('q \<Rightarrow> nat) \<Rightarrow> bool" where
  "workqueue_drains Q shut backlog \<longleftrightarrow>
     (\<forall>q. shut q \<longrightarrow> wq_Get Q q \<noteq> None)
     \<and> (\<forall>q k b x. shut q \<longrightarrow> wq_Get Q q = Some ((k, b), x) \<longrightarrow> shut x \<and> (b \<or> backlog x < backlog q))
     \<and> (\<forall>k q. shut q \<longrightarrow> shut (wq_AddRateLimited Q k q) \<and> backlog (wq_AddRateLimited Q k q) \<le> backlog q)
     \<and> (\<forall>k q. shut q \<longrightarrow> shut (wq_Forget Q k q) \<and> backlog (wq_Forget Q k q) \<le> backlog q)
     \<and> (\<forall>k q. shut q \<longrightarrow> shut (wq_Done Q k q) \<and> backlog (wq_Done Q k q) \<le> backlog q)"

lemma drains_finish:
  assumes "workqueue_drains Q shut backlog" and "shut q"
  shows "shut (wq_Done Q k q) \<and> backlog (wq_Done Q k q) \<le> backlog q"
    and "shut (requeueKey Q k err q) \<and> backlog (requeueKey Q k err q) \<le> backlog q"
  using assms by (auto simp: workqueue_drains_def requeueKey_def split: option.splits)

text \<open>C21: Workers stop. Once its queue is shut down, the loop of a worker returns, whatever its reconciles
  answer and however many keys the queue still has.\<close>

theorem worker_stops_after_shutdown:
  assumes "workqueue_drains Q shut backlog" and "shut q"
  shows "\<exists>r. runWorker (processNext Q reconcile) q w = Some r"
  using assms(2)
proof (induction "backlog q" arbitrary: q w rule: less_induct)
  case less
  obtain key b x where get: "wq_Get Q q = Some ((key, b), x)"
    using assms(1) less.prems unfolding workqueue_drains_def by (metis option.exhaust surj_pair)
  obtain err w1 where rec: "reconcile key w = (err, w1)" by (metis surj_pair)
  have x: "shut x" "b \<or> backlog x < backlog q" using assms(1) less.prems get unfolding workqueue_drains_def by blast+
  show ?case
  proof (cases b)
    case True
    then show ?thesis by (subst runWorker.simps) (simp add: processNext_eq get)
  next
    case False
    let ?y = "if panics err then x else requeueKey Q key err x"
    have y: "shut ?y" "backlog ?y \<le> backlog x" using drains_finish(2) [OF assms(1) x(1), of key err] x(1) by simp_all
    note d = drains_finish(1) [OF assms(1) y(1), of key]
    have "backlog (wq_Done Q key ?y) < backlog q" using d y x(2) False by linarith
    from less.hyps [OF this, of w1] d
    have "\<exists>r. runWorker (processNext Q reconcile) (wq_Done Q key ?y) w1 = Some r" by blast
    then show ?thesis
      by (subst runWorker.simps) (auto simp: processNext_eq get rec False round_result_def split: option.splits)
  qed
qed

text \<open>The worker loops start only on synced caches, and every queue is shut down in the end.\<close>

lemma Controller_Run_ready: "Controller_Ready (snd (Controller_Run synced)) \<longleftrightarrow> synced"
  by (auto simp: Controller_Run_def Controller_Ready_def Let_def started_workers_def)

lemma Controller_Run_shutdown: "ShutDown n \<in> set (snd (Controller_Run synced))"
  by (cases n) (auto simp: Controller_Run_def Let_def)

text \<open>\<open>Run\<close> waits for every informer, and starts the factory of every informer first.\<close>

lemma Controller_Run_waits:
  "informer \<in> set synced_informers"
  "\<exists>pre post. snd (Controller_Run synced) = pre @ WaitForCacheSync synced_informers # post
     \<and> StartFactory (fst (informer_factory informer)) \<in> set pre \<and> (\<forall>n p. StartWorker n p \<notin> set pre)"
proof -
  show "informer \<in> set synced_informers" by (cases informer) (simp_all add: synced_informers_def)
  show "\<exists>pre post. snd (Controller_Run synced) = pre @ WaitForCacheSync synced_informers # post
     \<and> StartFactory (fst (informer_factory informer)) \<in> set pre \<and> (\<forall>n p. StartWorker n p \<notin> set pre)"
    by (rule exI [of _ "[StartFactory CoreFactory, StartFactory DynamicFactory, StartFactory GatewayFactory]"], cases informer)
      (simp_all add: Controller_Run_def Let_def)
qed

section \<open>Handlers only add keys\<close>

text \<open>A property of the queues that adding a key keeps is kept by every handler.\<close>

definition keeps :: "('q queues \<Rightarrow> bool) \<Rightarrow> 'q handler \<Rightarrow> bool" where
  "keeps P h \<longleftrightarrow> (\<forall>q. P q \<longrightarrow> P (snd (h q)))"

definition add_closed :: "'q workqueue \<Rightarrow> ('q queues \<Rightarrow> bool) \<Rightarrow> bool" where
  "add_closed Q P \<longleftrightarrow> (\<forall>n k q. P q \<longrightarrow> P (update_queue n (wq_Add Q k (queue_of n q)) q))"

lemma keeps_basic: "keeps P skip" "keeps P (panicking p)"
  by (simp_all add: keeps_def skip_def panicking_def)

lemma keeps_andThen: "keeps P h \<Longrightarrow> keeps P h' \<Longrightarrow> keeps P (andThen h h')"
  unfolding keeps_def andThen_def by (fastforce split: prod.splits option.splits)

lemma keeps_for_all: "(\<And>x. keeps P (f x)) \<Longrightarrow> keeps P (for_all f xs)"
  by (induction xs) (simp_all add: for_all_simps keeps_basic keeps_andThen)

lemma keeps_cases:
  "keeps P h \<Longrightarrow> keeps P h' \<Longrightarrow> keeps P (if b then h else h')"
  "keeps P h \<Longrightarrow> (\<And>x. keeps P (g x)) \<Longrightarrow> keeps P (case r of Inl e \<Rightarrow> h | Inr x \<Rightarrow> g x)"
  "(\<And>x. keeps P (g x)) \<Longrightarrow> keeps P (with_object r g)"
  by (simp_all add: with_object_def keeps_basic split: sum.splits)

lemma keeps_add:
  assumes "add_closed Q P"
  shows "keeps P (on_gatewayClassQueue (wq_Add Q k))" "keeps P (on_gatewayQueue (wq_Add Q k))"
    "keeps P (on_routeQueue (wq_Add Q k))" "keeps P (on_endpointSelectorQueue (wq_Add Q k))"
proof -
  have "P (update_queue n (wq_Add Q k (queue_of n q)) q)" if "P q" for n q using assms that by (simp add: add_closed_def)
  from this [where n = GatewayClassQ] this [where n = GatewayQ] this [where n = RouteQ] this [where n = EndpointSelectorQ]
  show "keeps P (on_gatewayClassQueue (wq_Add Q k))" "keeps P (on_gatewayQueue (wq_Add Q k))"
    "keeps P (on_routeQueue (wq_Add Q k))" "keeps P (on_endpointSelectorQueue (wq_Add Q k))"
    by (simp_all add: keeps_def on_gatewayClassQueue_def on_gatewayQueue_def on_routeQueue_def on_endpointSelectorQueue_def)
qed

lemmas keeps_rules = keeps_basic keeps_andThen keeps_for_all keeps_cases keeps_add

lemmas enqueue_defs = enqueueGatewayNamespacedName_def enqueueRouteNamespacedName_def enqueueEndpointSelectorNamespacedName_def
  enqueueGatewayParentsForRoute_def enqueueEndpointSelectorsForRoute_def enqueueRoutesForGateway_def enqueueGatewaysForClass_def
  enqueueGatewayForIPAddressObject_def enqueueEndpointSelectorForEndpointSliceObject_def
  enqueueEndpointSelectorsForPodObject_def enqueueSelectorAndRelatedRoutes_def handleGatewayClass_def handleGateway_def
  handleRoute_def handleRouteUpdate_def

lemma handlers_keep:
  assumes "add_closed Q P"
  shows "keeps P (registerHandlers Q c informer ev)"
proof -
  have route: "keeps P (handleRoute Q obj)" "keeps P (handleRouteUpdate Q obj obj')" for obj obj'
    unfolding enqueue_defs by (intro keeps_rules assms)+
  have rest: "keeps P (handleGatewayClass Q c obj)" "keeps P (handleGateway Q c obj)"
    "keeps P (enqueueSelectorAndRelatedRoutes Q c obj)" "keeps P (enqueueEndpointSelectorsForPodObject Q c obj)"
    "keeps P (enqueueEndpointSelectorForEndpointSliceObject Q obj)" "keeps P (enqueueGatewayForIPAddressObject Q obj)"
    "keeps P (enqueueGatewaysForClass Q c n)" for obj n
    unfolding enqueue_defs Let_def by (intro keeps_rules assms)+
  show ?thesis by (cases informer; cases ev) (simp_all add: registerHandlers_def route rest)
qed

section \<open>Invariants of the running controller\<close>

fun held_key :: "phase \<Rightarrow> string option" where
  "held_key (Reconciling key) = Some key"
| "held_key (Requeueing key err) = Some key"
| "held_key (Finishing key err) = Some key"
| "held_key _ = None"

definition holds :: "('q, 'w) controller \<Rightarrow> queue_name \<Rightarrow> nat \<Rightarrow> string \<Rightarrow> bool" where
  "holds s n i key \<longleftrightarrow> i < length started_workers \<and> started_workers ! i = n \<and> held_key (s_workers s i) = Some key"

definition exclusive :: "('q \<Rightarrow> string set) \<Rightarrow> ('q, 'w) controller \<Rightarrow> bool" where
  "exclusive processing s \<longleftrightarrow>
     (\<forall>n i key. holds s n i key \<longrightarrow> key \<in> processing (queue_of n (s_queues s)))
     \<and> (\<forall>n i j key. holds s n i key \<longrightarrow> holds s n j key \<longrightarrow> i = j)"

text \<open>No worker holds the result of a panic, which would have ended the process, and the queues run.\<close>

definition worker_inv :: "('q \<Rightarrow> bool) \<Rightarrow> ('q \<Rightarrow> string set) \<Rightarrow> ('q, 'w) controller \<Rightarrow> bool" where
  "worker_inv running processing s \<longleftrightarrow> all_running running (s_queues s) \<and> exclusive processing s
     \<and> (\<forall>i key err. s_workers s i \<in> {Requeueing key err, Finishing key err} \<longrightarrow> \<not> panics err)"

text \<open>The phases a worker can move through.\<close>

lemma round_step_cases:
  assumes "round_step Q reconcile ph q w = Some (ph', x, w')"
  obtains (get) key where "ph = Getting" "wq_Get Q q = Some ((key, False), x)" "ph' = Reconciling key" "w' = w"
  | (stop) key where "ph = Getting" "wq_Get Q q = Some ((key, True), x)" "ph' = Returned (Inr False)" "w' = w"
  | (work) key err where "ph = Reconciling key" "reconcile key w = (err, w')" "x = q"
      "ph' = (if panics err then Finishing key err else Requeueing key err)"
  | (requeue) key err where "ph = Requeueing key err" "x = requeueKey Q key err q" "ph' = Finishing key err" "w' = w"
  | (finish) key err where "ph = Finishing key err" "x = wq_Done Q key q" "ph' = Returned (round_result err)" "w' = w"
  using assms by (cases ph) (auto split: option.splits prod.splits if_splits)

text \<open>What the steps do to the keys in the hands of the workers.\<close>

lemma moved_simps [simp]:
  "s_caches (moved i ph x w' s) = s_caches s" "s_pending (moved i ph x w' s) = s_pending s"
  "s_queues (moved i ph x w' s) = update_queue (started_workers ! i) x (s_queues s)" "s_world (moved i ph x w' s) = w'"
  "s_workers (moved i ph x w' s) = (s_workers s)(i := ph)"
  by (simp_all add: moved_def)

lemma holds_moved:
  assumes "i < length started_workers"
  shows "holds (moved i ph x w' s) n j k \<longleftrightarrow>
    (if j = i then n = started_workers ! i \<and> held_key ph = Some k else holds s n j k)"
  using assms by (auto simp: holds_def)

lemma holds_phase: "i < length started_workers \<Longrightarrow> holds s n i k \<longleftrightarrow> n = started_workers ! i \<and> held_key (s_workers s i) = Some k"
  by (auto simp: holds_def)

lemma handlers_keep_processing:
  assumes api: "workqueue_api Q running outstanding processing" and q: "all_running running q"
    and h: "registerHandlers Q c informer ev q = (r, q')"
  shows "all_running running q' \<and> processing (queue_of n q') = processing (queue_of n q)"
proof -
  let ?P = "\<lambda>x. all_running running x \<and> processing (queue_of n x) = processing (queue_of n q)"
  have "add_closed Q ?P"
    using api by (auto simp: add_closed_def all_running_def queue_of_update workqueue_api_def queue_adds_def)
  from handlers_keep [OF this, of c informer ev] show ?thesis using q h unfolding keeps_def by fastforce
qed

lemma moved_inv:
  assumes api: "workqueue_api Q running outstanding processing" and inv: "worker_inv running processing s"
    and i: "i < length started_workers"
    and step: "round_step Q (reconcile_of (started_workers ! i) (s_caches s) order) (s_workers s i)
      (queue_of (started_workers ! i) (s_queues s)) (s_world s) = Some (ph, x, w')" and "\<not> crashed ph"
  shows "worker_inv running processing (moved i ph x w' s)"
proof -
  let ?n = "started_workers ! i" and ?q = "queue_of (started_workers ! i) (s_queues s)" and ?s = "moved i ph x w' s"
  note h = holds_moved [OF i, of ph x w' s]
  have run: "all_running running (s_queues s)" "running ?q" and ex: "exclusive processing s"
    using inv by (simp_all add: worker_inv_def all_running_def)
  note mine = holds_phase [OF i, of s]
  have "running x \<and> exclusive processing ?s"
    using step
  proof (cases rule: round_step_cases)
    case (get key)
    note g = workqueue_get [OF api run(2) get(2)]
    have "\<not> holds s ?n j key" for j using ex g unfolding exclusive_def by blast
    then show ?thesis using ex g get(3) unfolding exclusive_def h
      by (auto simp: queue_of_update split: if_splits)
  next
    case stop
    then show ?thesis using workqueue_get [OF api run(2)] by blast
  next
    case (work key err)
    then have same: "holds ?s n j k \<longleftrightarrow> holds s n j k" for n j k using mine unfolding h by auto
    have "queue_of n (s_queues ?s) = queue_of n (s_queues s)" for n using work(3) by (simp add: queue_of_update)
    then show ?thesis using ex run(2) work(3) unfolding exclusive_def same by simp
  next
    case (requeue key err)
    then have same: "holds ?s n j k \<longleftrightarrow> holds s n j k" for n j k using mine unfolding h by auto
    have r: "running x" "processing x = processing ?q" using workqueue_requeue [OF api run(2), of key err] requeue(2) by auto
    then have "processing (queue_of n (s_queues ?s)) = processing (queue_of n (s_queues s))" for n by (simp add: queue_of_update)
    then show ?thesis using ex r(1) unfolding exclusive_def same by simp
  next
    case (finish key err)
    have r: "running x" "processing x = processing ?q - {key}" using workqueue_done [OF api run(2), of key] finish(2) by auto
    have "holds s ?n i key" using mine finish(1) by simp
    then have other: "k \<noteq> key" if "holds s ?n j k" "j \<noteq> i" for j k using ex that unfolding exclusive_def by blast
    have "k \<in> processing (queue_of n (s_queues ?s))" if "holds s n j k" "j \<noteq> i" for n j k
      using ex that other [of j k] r(2) by (auto simp: exclusive_def queue_of_update)
    moreover have "j = j'" if "holds s n j k" "holds s n j' k" for n j j' k using ex that unfolding exclusive_def by blast
    ultimately show ?thesis using r(1) finish(3) unfolding exclusive_def h by (simp split: if_splits)
  qed
  moreover have "\<not> panics err" if "s_workers ?s j \<in> {Requeueing key err, Finishing key err}" for j key err
    using that inv assms(5) step unfolding worker_inv_def
    by (cases "j = i") (auto simp: crashed_def elim!: round_step_cases split: if_splits)
  moreover have "all_running running (s_queues ?s)" if "running x"
    using run(1) that by (simp add: all_running_def queue_of_update)
  ultimately show ?thesis by (auto simp: worker_inv_def)
qed

text \<open>Reconciling the Gateway with the object caches of today does what it did with those of \<open>c0\<close>.\<close>

definition agrees :: "'w cluster \<Rightarrow> 'w cluster \<Rightarrow> string \<Rightarrow> bool" where
  "agrees c0 c key \<longleftrightarrow> (\<forall>w. reconcileGateway (recache c0 c) key w = reconcileGateway c0 key w)"

definition succeeded :: "'w cluster \<Rightarrow> string \<Rightarrow> bool" where
  "succeeded c key \<longleftrightarrow> (\<exists>w w'. reconcileGateway c key w = (None, w'))"

text \<open>The handlers of a pending event are going to add the key of the Gateway.\<close>

definition woken :: "('q, 'w) controller \<Rightarrow> string \<Rightarrow> bool" where
  "woken s key \<longleftrightarrow> (\<exists>(informer, ev) \<in> set (s_pending s). \<exists>K. event_keys (s_caches s) informer ev = Some K \<and> (GatewayQ, key) \<in> K)"

definition attended :: "('q \<Rightarrow> string set) \<Rightarrow> ('q, 'w) controller \<Rightarrow> string \<Rightarrow> bool" where
  "attended outstanding s key \<longleftrightarrow> key \<in> outstanding (gatewayQueue (s_queues s)) \<or> woken s key"

definition settled :: "('q, 'w) controller \<Rightarrow> string \<Rightarrow> bool" where
  "settled s key \<longleftrightarrow> (case s_seen s key of
     None \<Rightarrow> \<exists>err. getGateway (s_caches s) key = Inl err
   | Some c0 \<Rightarrow> succeeded c0 key \<and> agrees c0 (s_caches s) key)"

definition result_ok :: "('q \<Rightarrow> string set) \<Rightarrow> ('q, 'w) controller \<Rightarrow> nat \<Rightarrow> bool" where
  "result_ok outstanding s i \<longleftrightarrow> (case s_workers s i of
     Requeueing key None \<Rightarrow> succeeded (s_read s i) key \<and> (attended outstanding s key \<or> agrees (s_read s i) (s_caches s) key)
   | Finishing key None \<Rightarrow> succeeded (s_read s i) key \<and> (attended outstanding s key \<or> agrees (s_read s i) (s_caches s) key)
   | Finishing key (Some e) \<Rightarrow> attended outstanding s key
   | _ \<Rightarrow> True)"

definition gateway_worker :: "nat \<Rightarrow> bool" where
  "gateway_worker i \<longleftrightarrow> i < length started_workers \<and> started_workers ! i = GatewayQ"

definition covered :: "('q \<Rightarrow> string set) \<Rightarrow> ('q, 'w) controller \<Rightarrow> bool" where
  "covered outstanding s \<longleftrightarrow>
     typed_caches (s_caches s) \<and> (\<exists>gs rs. indexed_caches (s_caches s) gs rs)
     \<and> (\<forall>key. attended outstanding s key \<or> (\<exists>i. holds s GatewayQ i key) \<or> settled s key)
     \<and> (\<forall>i. gateway_worker i \<longrightarrow> result_ok outstanding s i)"

lemma coveredD:
  assumes "covered outstanding s"
  shows "typed_caches (s_caches s)" "\<exists>gs rs. indexed_caches (s_caches s) gs rs"
    "attended outstanding s key \<or> (\<exists>i. holds s GatewayQ i key) \<or> settled s key" "gateway_worker i \<Longrightarrow> result_ok outstanding s i"
  using assms by (simp_all add: covered_def)

lemma settled_cong: "s_seen t k = s_seen s k \<Longrightarrow> s_caches t = s_caches s \<Longrightarrow> settled t k \<longleftrightarrow> settled s k"
  by (simp add: settled_def split: option.splits)

lemma recache_self: "recache c c = c"
  by (simp add: recache_def)

lemma start_covered:
  assumes "no_gateways c"
  shows "covered outstanding (controller_start c q w)"
proof -
  obtain rs where idx: "typed_caches c" "indexed_caches c [] rs" using assms by (auto simp: no_gateways_def)
  then have "gateways_Get c ns n \<noteq> Inr g" for ns n g by (auto simp: indexed_caches_def)
  then have "\<exists>err. gateways_Get c ns n = Inl err" for ns n by (metis sumE)
  then have "\<exists>err. getGateway c key = Inl err" for key by (auto simp: getGateway_def split: sum.splits)
  then show ?thesis using idx by (auto simp: covered_def controller_start_def settled_def result_ok_def)
qed

lemma start_inv: "all_running running q \<Longrightarrow> worker_inv running processing (controller_start c q w)"
  by (simp add: worker_inv_def controller_start_def exclusive_def holds_def)

text \<open>A step that keeps what is attended, and what agrees or else is attended, keeps the results of the workers good.\<close>

lemma result_ok_keeps:
  assumes "result_ok outstanding s i" and "s_workers t i = s_workers s i" "s_read t i = s_read s i"
    and "\<And>key. attended outstanding s key \<Longrightarrow> held_key (s_workers s i) = Some key \<Longrightarrow> attended outstanding t key"
    and "\<And>key. agrees (s_read s i) (s_caches s) key \<Longrightarrow> attended outstanding t key \<or> agrees (s_read s i) (s_caches t) key"
  shows "result_ok outstanding t i"
  using assms unfolding result_ok_def by (fastforce split: phase.splits option.splits)

lemma recache_event_keys: "event_keys (recache c d) informer ev = event_keys d informer ev"
proof -
  have r: "endpointSelectors_ByIndex (recache c d) = endpointSelectors_ByIndex d"
    "gateways_ByIndex (recache c d) = gateways_ByIndex d" "routes_ByIndex (recache c d) = routes_ByIndex d"
    by (simp_all add: recache_def)
  then have k: "gateway_keys (recache c d) = gateway_keys d" "related_keys (recache c d) = related_keys d"
    by (simp_all add: fun_eq_iff gateway_keys_def related_keys_def)
  then have "class_keys (recache c d) = class_keys d" by (simp add: fun_eq_iff class_keys_def r)
  with k r show ?thesis by (cases informer; cases ev) (simp_all cong: if_cong)
qed

text \<open>An event that changes what a reconcile of a Gateway would do is going to wake it.\<close>

lemma event_change:
  assumes "informer_event c c' informer ev"
  shows "cache_change (recache c0 c) (recache c0 c') informer ev"
    and "\<exists>gs rs. indexed_caches (recache c0 c') gs rs" and "typed_caches c'" and "\<exists>K. event_keys c' informer ev = Some K"
  using assms by (auto simp: informer_event_def cache_change_def recache_def indexed_caches_def)

lemma event_agrees:
  assumes ev: "informer_event c c' informer ev" and K: "event_keys c' informer ev = Some K" and "agrees c0 c key"
  shows "agrees c0 c' key \<or> (GatewayQ, key) \<in> K"
proof -
  obtain gs rs where idx: "indexed_caches (recache c0 c') gs rs" using event_change(2) [OF ev] by blast
  have "event_keys (recache c0 c') informer ev = Some K" using K by (simp add: recache_event_keys)
  from change_wakes [OF event_change(1) [OF ev] idx this, of key] assms(3) show ?thesis by (auto simp: agrees_def)
qed

lemma event_uncached:
  assumes ev: "informer_event c c' informer ev" and K: "event_keys c' informer ev = Some K"
    and "getGateway c key = Inl err"
  shows "(\<exists>err. getGateway c' key = Inl err) \<or> (GatewayQ, key) \<in> K"
proof (cases "getGateway c' key = getGateway c key")
  case False
  have "event_keys (recache c c') informer ev = Some K" using K by (simp add: recache_event_keys)
  from gateway_change_wakes [OF event_change(1) [OF ev] this, of key] False
  show ?thesis by (simp add: recache_reads)
qed (use assms(3) in simp)

lemma event_woken:
  assumes ev: "informer_event c c' informer ev" and idx: "indexed_caches c gs rs"
    and K: "event_keys c informer' ev' = Some K" "(GatewayQ, key) \<in> K" and K': "event_keys c' informer ev = Some K'"
  shows "\<exists>K''. event_keys c' informer' ev' = Some K'' \<and> ((GatewayQ, key) \<in> K'' \<or> (GatewayQ, key) \<in> K')"
proof -
  obtain gs' rs' where idx': "indexed_caches (recache c c') gs' rs'" using event_change(2) [OF ev] by blast
  have "cache_change c (recache c c') informer ev" using event_change(1) [OF ev, of c] by (simp add: recache_self)
  from wakes_stable [OF this idx idx' _ K] show ?thesis using K' by (simp add: recache_event_keys)
qed

lemma watch_covered:
  assumes cov: "covered outstanding s" and ev: "informer_event (s_caches s) c' informer ev"
  shows "covered outstanding (s\<lparr>s_caches := c', s_pending := s_pending s @ [(informer, ev)]\<rparr>)" (is "covered _ ?s")
proof -
  obtain K where K: "event_keys c' informer ev = Some K" using event_change(4) [OF ev] by blast
  obtain gs rs where idx: "indexed_caches (s_caches s) gs rs" using coveredD(2) [OF cov] by blast
  have new: "woken ?s key" if "(GatewayQ, key) \<in> K" for key using K that by (auto simp: woken_def)
  have woken: "woken ?s key" if "woken s key" for key
  proof -
    obtain informer' ev' K0 where p: "(informer', ev') \<in> set (s_pending s)" "event_keys (s_caches s) informer' ev' = Some K0"
      "(GatewayQ, key) \<in> K0" using \<open>woken s key\<close> by (auto simp: woken_def)
    from event_woken [OF ev idx p(2,3) K] obtain K'' where "event_keys c' informer' ev' = Some K''"
      "(GatewayQ, key) \<in> K'' \<or> (GatewayQ, key) \<in> K" by blast
    then show ?thesis using p(1) new [of key] by (cases "(GatewayQ, key) \<in> K") (auto simp: woken_def)
  qed
  have att: "attended outstanding ?s key" if "attended outstanding s key" for key using that woken by (auto simp: attended_def)
  have ag: "attended outstanding ?s key \<or> agrees c0 c' key" if "agrees c0 (s_caches s) key" for c0 key
    using event_agrees [OF ev K that] new by (auto simp: attended_def)
  have "attended outstanding ?s key \<or> settled ?s key" if "settled s key" for key
  proof (cases "s_seen s key")
    case None
    then show ?thesis using that event_uncached [OF ev K] new by (auto simp: settled_def attended_def)
  next
    case (Some c0)
    then show ?thesis using that ag by (auto simp: settled_def)
  qed
  moreover have "holds ?s n i key = holds s n i key" for n i key by (simp add: holds_def)
  ultimately have "attended outstanding ?s key \<or> (\<exists>i. holds ?s GatewayQ i key) \<or> settled ?s key" for key
    using coveredD(3) [OF cov, of key] att by blast
  moreover have "result_ok outstanding ?s i" if "gateway_worker i" for i
    by (rule result_ok_keeps [OF coveredD(4) [OF cov that]]) (use att ag in simp_all)
  moreover have "\<exists>gs rs. indexed_caches c' gs rs" using ev by (simp add: informer_event_def)
  ultimately show ?thesis using event_change(3) [OF ev] by (simp add: covered_def)
qed

lemma handle_covered:
  assumes api: "workqueue_api Q running outstanding processing" and run: "all_running running (s_queues s)"
    and cov: "covered outstanding s" and pend: "s_pending s = before @ (informer, ev) # later"
    and h: "registerHandlers Q (s_caches s) informer ev (s_queues s) = (None, q')"
  shows "covered outstanding (s\<lparr>s_pending := before @ later, s_queues := q'\<rparr>)" (is "covered _ ?s")
proof -
  obtain K where K: "event_keys (s_caches s) informer ev = Some K"
    using handlers_panic [OF workqueue_adds [OF api] run, of "s_caches s" informer ev] h by fastforce
  have "outstanding_keys outstanding q' = outstanding_keys outstanding (s_queues s) \<union> K"
    using enqueuesD [OF handlers_enqueue [OF workqueue_adds [OF api] coveredD(1) [OF cov] K] run] h by auto
  then have out: "key \<in> outstanding (gatewayQueue q') \<longleftrightarrow> key \<in> outstanding (gatewayQueue (s_queues s)) \<or> (GatewayQ, key) \<in> K" for key
    unfolding outstanding_keys_def set_eq_iff by (metis (mono_tags, lifting) Un_iff case_prodI2 mem_Collect_eq prod.case queue_of.simps(2))
  have "woken s key \<Longrightarrow> woken ?s key \<or> (GatewayQ, key) \<in> K" for key using K by (auto simp: woken_def pend)
  then have att: "attended outstanding ?s key" if "attended outstanding s key" for key using that out by (auto simp: attended_def)
  have "holds ?s n i key = holds s n i key" "settled ?s key = settled s key" for n i key
    by (simp add: holds_def, rule settled_cong) simp_all
  then have "attended outstanding ?s key \<or> (\<exists>i. holds ?s GatewayQ i key) \<or> settled ?s key" for key
    using coveredD(3) [OF cov, of key] att by blast
  moreover have "result_ok outstanding ?s i" if "gateway_worker i" for i
    by (rule result_ok_keeps [OF coveredD(4) [OF cov that]]) (use att in simp_all)
  ultimately show ?thesis using coveredD(1,2) [OF cov] by (simp add: covered_def)
qed

text \<open>The moves of the workers.\<close>

lemma gatewayQueue_update: "gatewayQueue (update_queue n x q) = (if n = GatewayQ then x else gatewayQueue q)"
  using queue_of_update [of GatewayQ n x q] by (auto split: if_splits)

lemma attended_moved:
  "attended outstanding (moved i ph x w' s) k \<longleftrightarrow>
     k \<in> outstanding (if started_workers ! i = GatewayQ then x else gatewayQueue (s_queues s)) \<or> woken s k"
  by (simp add: attended_def woken_def gatewayQueue_update)

lemma read_moved: "j \<noteq> i \<Longrightarrow> s_read (moved i ph x w' s) j = s_read s j"
  by (simp add: moved_def split: phase.splits)

lemma settled_moved:
  assumes "settled s k"
    and "\<And>key. s_workers s i = Finishing key None \<Longrightarrow> started_workers ! i = GatewayQ \<Longrightarrow> k \<noteq> key"
  shows "settled (moved i ph x w' s) k"
  using assms by (auto simp: settled_def moved_def split: phase.splits option.splits)

lemma moved_covers:
  assumes cov: "covered outstanding s"
    and att: "\<And>k. attended outstanding s k \<Longrightarrow>
      attended outstanding (moved i ph x w' s) k \<or> holds (moved i ph x w' s) GatewayQ i k \<and> (\<forall>j. \<not> holds s GatewayQ j k)"
    and own: "\<And>k. holds s GatewayQ i k \<Longrightarrow>
      holds (moved i ph x w' s) GatewayQ i k \<or> attended outstanding (moved i ph x w' s) k \<or> settled (moved i ph x w' s) k"
    and i: "i < length started_workers" and ok: "gateway_worker i \<Longrightarrow> result_ok outstanding (moved i ph x w' s) i"
    and set: "\<And>k. settled s k \<Longrightarrow> settled (moved i ph x w' s) k \<or> attended outstanding (moved i ph x w' s) k"
  shows "covered outstanding (moved i ph x w' s)" (is "covered _ ?s")
proof -
  have "attended outstanding ?s k \<or> (\<exists>j. holds ?s GatewayQ j k) \<or> settled ?s k" for k
  proof -
    consider "attended outstanding s k" | j where "holds s GatewayQ j k" | "settled s k" using coveredD(3) [OF cov] by blast
    then show ?thesis
    proof cases
      case (2 j)
      then show ?thesis using own [of k] holds_moved [OF i, of ph x w' s GatewayQ j k] by (cases "j = i") auto
    qed (use att set in blast)+
  qed
  moreover have "result_ok outstanding ?s j" if j: "gateway_worker j" for j
  proof (cases "j = i")
    case False
    have "attended outstanding ?s k" if "attended outstanding s k" "held_key (s_workers s j) = Some k" for k
      using att [OF that(1)] that(2) j by (auto simp: holds_def gateway_worker_def)
    then show ?thesis using False by (intro result_ok_keeps [OF coveredD(4) [OF cov j]]) (simp_all add: read_moved)
  qed (use ok j in simp)
  ultimately show ?thesis using coveredD(1,2) [OF cov] by (simp add: covered_def)
qed

lemma moved_covered:
  assumes api: "workqueue_api Q running outstanding processing" and inv: "worker_inv running processing s" and cov: "covered outstanding s"
    and i: "i < length started_workers"
    and step: "round_step Q (reconcile_of (started_workers ! i) (s_caches s) order) (s_workers s i)
      (queue_of (started_workers ! i) (s_queues s)) (s_world s) = Some (ph, x, w')" and crash: "\<not> crashed ph"
  shows "covered outstanding (moved i ph x w' s)" (is "covered _ ?s")
proof (cases "started_workers ! i = GatewayQ")
  case False
  then have "holds s GatewayQ i k \<longleftrightarrow> False" for k by (simp add: holds_def)
  moreover have "attended outstanding ?s k \<longleftrightarrow> attended outstanding s k" for k
    unfolding attended_moved using False by (simp add: attended_def)
  moreover have "settled s k \<Longrightarrow> settled ?s k" for k using False by (intro settled_moved) simp_all
  ultimately show ?thesis using False by (intro moved_covers [OF cov _ _ i]) (simp_all add: gateway_worker_def)
next
  case n: True
  let ?q = "gatewayQueue (s_queues s)"
  have gw: "gateway_worker i" using i n by (simp add: gateway_worker_def)
  have hold: "holds ?s GatewayQ i k \<longleftrightarrow> held_key ph = Some k" "holds s GatewayQ i k \<longleftrightarrow> held_key (s_workers s i) = Some k" for k
    using i n by (simp_all add: holds_def)
  have att: "attended outstanding ?s k \<longleftrightarrow> k \<in> outstanding x \<or> woken s k"
    "attended outstanding s k \<longleftrightarrow> k \<in> outstanding ?q \<or> woken s k" for k
    unfolding attended_moved by (simp_all add: n attended_def)
  have set: "settled ?s k" if "settled s k" "\<And>key. s_workers s i \<noteq> Finishing key None" for k
    by (rule settled_moved [OF that(1)]) (use that(2) in blast)
  have run: "running ?q" and ex: "exclusive processing s"
    using inv unfolding worker_inv_def all_running_def by (metis queue_of.simps(2))+
  note old = coveredD(4) [OF cov gw, unfolded result_ok_def]
  show ?thesis using step unfolding n
  proof (cases rule: round_step_cases)
    case (get key)
    note g = workqueue_get [OF api run get(2) [unfolded queue_of.simps]]
    have "\<not> holds s GatewayQ j key" for j using ex g unfolding exclusive_def by (metis queue_of.simps(2))
    moreover have "held_key ph = Some key" "held_key (s_workers s i) = None" "result_ok outstanding ?s i"
      using get by (simp_all add: result_ok_def)
    moreover have "settled s k \<Longrightarrow> settled ?s k" for k by (erule set) (simp add: get(1))
    ultimately show ?thesis using g by (intro moved_covers [OF cov _ _ i]) (auto simp: att hold)
  next
    case stop
    then show ?thesis using workqueue_get [OF api run] by (metis queue_of.simps(2))
  next
    case (work key err)
    then have ph: "ph = Requeueing key err" using crash by (auto simp: crashed_def)
    have "agrees (s_caches s) (s_caches s) key" by (simp add: agrees_def recache_self)
    moreover have "succeeded (s_caches s) key" if "err = None" using work(2) that by (auto simp: succeeded_def)
    moreover have "s_read ?s i = s_caches s" using work(1) by (simp add: moved_def)
    ultimately have "result_ok outstanding ?s i" by (auto simp: result_ok_def ph split: option.splits)
    moreover have "held_key ph = Some key" "held_key (s_workers s i) = Some key" by (simp_all add: ph work(1))
    moreover have "settled s k \<Longrightarrow> settled ?s k" for k by (erule set) (simp add: work(1))
    moreover have "outstanding x = outstanding ?q" using work(3) by simp
    ultimately show ?thesis by (intro moved_covers [OF cov _ _ i]) (auto simp: att hold)
  next
    case (requeue key err)
    note r = workqueue_requeue [OF api run, of key err]
    have "s_read ?s i = s_read s i" using requeue(1) by (simp add: moved_def)
    then have "result_ok outstanding ?s i" using old r requeue(1-3)
      by (cases err) (auto simp: result_ok_def attended_moved attended_def [of outstanding s] n)
    moreover have "held_key ph = Some key" "held_key (s_workers s i) = Some key" by (simp_all add: requeue)
    moreover have "settled s k \<Longrightarrow> settled ?s k" for k by (erule set) (simp add: requeue(1))
    moreover have "outstanding ?q \<subseteq> outstanding x" using requeue(2) r by auto
    ultimately show ?thesis by (intro moved_covers [OF cov _ _ i]) (auto simp: att hold)
  next
    case (finish key err)
    have out: "outstanding x = outstanding ?q" using workqueue_done [OF api run, of key] finish(2) by simp
    have "s_seen ?s key = Some (s_read s i)" if "err = None" using finish(1) that by (simp add: moved_def n)
    then have "settled ?s key" if "err = None" "succeeded (s_read s i) key" "agrees (s_read s i) (s_caches s) key"
      using that by (simp add: settled_def)
    then have "attended outstanding ?s key \<or> settled ?s key" using old finish(1) out by (cases err) (auto simp: att)
    moreover have "settled ?s k" if "settled s k" "k \<noteq> key" for k by (rule settled_moved [OF that(1)]) (use that finish(1) in auto)
    moreover have "held_key (s_workers s i) = Some key" "result_ok outstanding ?s i" using finish(1,3) by (simp_all add: result_ok_def)
    ultimately show ?thesis by (intro moved_covers [OF cov _ _ i]) (auto simp: att hold out)
  qed
qed

section \<open>Reachable states\<close>

definition controller_inv :: "('q \<Rightarrow> bool) \<Rightarrow> ('q \<Rightarrow> string set) \<Rightarrow> ('q \<Rightarrow> string set) \<Rightarrow> ('q, 'w) controller \<Rightarrow> bool" where
  "controller_inv running outstanding processing s \<longleftrightarrow> worker_inv running processing s \<and> covered outstanding s"

lemma worker_inv_step:
  assumes "workqueue_api Q running outstanding processing" and "controller_step Q order a s s'" and inv: "worker_inv running processing s"
  shows "worker_inv running processing s'"
  using assms(2)
proof cases
  case (step_handle before informer ev later q')
  have "all_running running (s_queues s)" using inv by (simp add: worker_inv_def)
  from handlers_keep_processing [OF assms(1) this step_handle(5)] show ?thesis
    using inv step_handle(2) by (simp add: worker_inv_def exclusive_def holds_def)
next
  case step_worker
  then show ?thesis using moved_inv [OF assms(1) inv] by simp
next
  case (step_again i b)
  have "holds s' n j k \<longleftrightarrow> holds s n j k" for n j k using step_again by (auto simp: holds_def)
  moreover have "\<not> panics err" if "s_workers s' j \<in> {Requeueing key err, Finishing key err}" for j key err
    using that inv step_again(2) unfolding worker_inv_def by (auto split: if_splits)
  moreover have "s_queues s' = s_queues s" using step_again(2) by simp
  ultimately show ?thesis using inv unfolding worker_inv_def exclusive_def by simp
qed (use inv in \<open>simp_all add: worker_inv_def exclusive_def holds_def\<close>)

lemma covered_step:
  assumes api: "workqueue_api Q running outstanding processing" and "controller_step Q order a s s'"
    and inv: "worker_inv running processing s" and cov: "covered outstanding s"
  shows "covered outstanding s'"
  using assms(2)
proof cases
  case step_watch
  then show ?thesis using watch_covered [OF cov] by simp
next
  case step_handle
  then show ?thesis using handle_covered [OF api _ cov] inv by (simp add: worker_inv_def)
next
  case step_worker
  then show ?thesis using moved_covered [OF api inv cov] by simp
next
  case (step_again i b)
  have "holds s' n j k \<longleftrightarrow> holds s n j k" for n j k using step_again by (auto simp: holds_def)
  moreover have "attended outstanding s' k = attended outstanding s k" "settled s' k = settled s k" for k
    using step_again(2) by (simp add: attended_def woken_def, intro settled_cong) simp_all
  moreover have "result_ok outstanding s' j" if "gateway_worker j" for j
  proof (cases "j = i")
    case False
    then show ?thesis using step_again(2)
      by (intro result_ok_keeps [OF coveredD(4) [OF cov that]]) (simp_all add: attended_def woken_def)
  qed (use step_again(2) in \<open>simp add: result_ok_def\<close>)
  ultimately show ?thesis using coveredD(1-3) [OF cov] step_again(2) by (simp add: covered_def)
next
  case (step_server w')
  have same: "attended outstanding s' k = attended outstanding s k" "settled s' k = settled s k" "holds s' n j k = holds s n j k" for n j k
    unfolding step_server(2) by (simp add: attended_def woken_def, rule settled_cong, simp_all add: holds_def)
  have "result_ok outstanding s' j" if "gateway_worker j" for j
    using same(1) by (intro result_ok_keeps [OF coveredD(4) [OF cov that]]) (simp_all add: step_server(2))
  then show ?thesis using coveredD(1-3) [OF cov] same by (simp add: covered_def step_server(2))
qed

abbreviation controller_runs_step ::
    "controller_actor set \<Rightarrow> 'q workqueue \<Rightarrow> (desired_slices \<Rightarrow> string list) \<Rightarrow> ('q, 'w) controller \<Rightarrow> ('q, 'w) controller \<Rightarrow> bool" where
  "controller_runs_step A Q order s s' \<equiv> \<exists>a \<in> A. controller_step Q order a s s'"

lemma controller_reachable_runs: "controller_reachable_by A Q order s0 s \<longleftrightarrow> (controller_runs_step A Q order)\<^sup>*\<^sup>* s0 s"
proof
  show "controller_reachable_by A Q order s0 s \<Longrightarrow> (controller_runs_step A Q order)\<^sup>*\<^sup>* s0 s"
    by (induction rule: controller_reachable_by.induct) (auto intro: rtranclp.rtrancl_into_rtrancl)
  show "(controller_runs_step A Q order)\<^sup>*\<^sup>* s0 s \<Longrightarrow> controller_reachable_by A Q order s0 s"
    by (induction rule: rtranclp_induct) (auto intro: controller_reachable_by.intros)
qed

interpretation worker_runs: preserved "controller_runs_step A Q order"
    "\<lambda>s. workqueue_api Q running outstanding processing \<longrightarrow> worker_inv running processing s"
  for A Q order running outstanding processing
  by unfold_locales (metis worker_inv_step)

interpretation controller_runs: preserved "controller_runs_step A Q order"
    "\<lambda>s. workqueue_api Q running outstanding processing \<longrightarrow> controller_inv running outstanding processing s"
  for A Q order running outstanding processing
  by unfold_locales (metis controller_inv_def worker_inv_step covered_step)

text \<open>C5: No Gateway is lost. However the informers, their handlers, the workers and the API server interleave, a Gateway that
  is neither outstanding in its queue nor held by a worker nor about to be added by the handlers of a pending event is settled. If it was
  reconciled, the last reconcile was successful, and reconciling it with the objects cached now, the list of taken
  addresses apart, does exactly what that reconcile did with the objects cached then. If it never was, no such Gateway is cached, and
  reconciling it makes no call.\<close>

theorem no_lost_gateway:
  assumes "controller_reachable Q order (controller_start c q w) s" and "workqueue_api Q running outstanding processing"
    and "all_running running q" and "no_gateways c"
    and "key \<notin> outstanding (gatewayQueue (s_queues s))" and "\<forall>i. \<not> holds s GatewayQ i key" and "\<not> woken s key"
  shows "case s_seen s key of
      Some c0 \<Rightarrow> (\<exists>w1 w2. reconcileGateway c0 key w1 = (None, w2))
        \<and> reconcileGateway (recache c0 (s_caches s)) key w' = reconcileGateway c0 key w'
    | None \<Rightarrow> (\<exists>err. getGateway (s_caches s) key = Inl err) \<and> snd (reconcileGateway (s_caches s) key w') = w'"
proof -
  have "controller_inv running outstanding processing s"
    by (rule mp [OF controller_runs.runs_keep [OF assms(1) [unfolded controller_reachable_runs]] assms(2)])
      (simp add: controller_inv_def start_inv start_covered assms(3,4))
  then have "settled s key" using coveredD(3) [of outstanding s key] assms(5-7) by (auto simp: controller_inv_def attended_def)
  then show ?thesis by (auto simp: settled_def succeeded_def agrees_def reconcileGateway_def split: option.splits)
qed

text \<open>C20: One object, one worker. Although two workers serve the Gateway queue, no two workers are ever between the
  \<open>Get\<close> of a key and its \<open>Done\<close> with the same key of the same queue; in particular no two of them reconcile the same object at
  the same time.\<close>

theorem reconciles_exclusive:
  assumes "controller_reachable Q order (controller_start c q w) s" and "workqueue_api Q running outstanding processing"
    and "all_running running q" and "i < length started_workers" and "j < length started_workers"
    and "started_workers ! i = started_workers ! j"
    and "s_workers s i \<in> {Reconciling key, Requeueing key err, Finishing key err}"
    and "s_workers s j \<in> {Reconciling key, Requeueing key err', Finishing key err'}"
  shows "i = j"
proof -
  have "worker_inv running processing s"
    by (rule mp [OF worker_runs.runs_keep [OF assms(1) [unfolded controller_reachable_runs]] assms(2)])
      (simp add: start_inv assms(3))
  moreover have "holds s (started_workers ! j) i key" "holds s (started_workers ! j) j key" using assms(4-8) by (auto simp: holds_def)
  ultimately show ?thesis unfolding worker_inv_def exclusive_def by blast
qed

section \<open>A sample run\<close>

lemma sample_get:
  assumes "sq_get q = Some ((k, b), x)"
  shows "if b then sq_shut q \<and> x = q
    else k \<in> set (sq_keys q) \<and> k \<notin> sq_processing q
      \<and> x = q\<lparr>sq_keys := remove1 k (sq_keys q), sq_processing := insert k (sq_processing q)\<rparr>"
  using assms by (auto simp: sq_get_def find_Some_iff split: option.splits if_splits)

lemma remove1_keeps: "x \<in> set xs \<Longrightarrow> x = k \<or> x \<in> set (remove1 k xs)"
  by (induction xs) auto

lemma sample_workqueue_api: "workqueue_api sample_workqueue sq_running sq_outstanding sq_processing"
  unfolding workqueue_api_def
proof (intro conjI allI impI)
  show "queue_adds sample_workqueue sq_running sq_outstanding" by (rule sample_queue_adds)
next
  fix q x :: sample_queue and k
  assume "sq_running q"
  show "wq_Get sample_workqueue q \<noteq> Some ((k, True), x)"
    using sample_get [of q k True x] \<open>sq_running q\<close> by (auto simp: sample_workqueue_def)
  assume "wq_Get sample_workqueue q = Some ((k, False), x)"
  then have x: "k \<in> sq_outstanding q" "k \<notin> sq_processing q"
    "x = q\<lparr>sq_keys := remove1 k (sq_keys q), sq_processing := insert k (sq_processing q)\<rparr>"
    using sample_get [of q k False x] by (simp_all add: sample_workqueue_def)
  then show "sq_running x" "k \<in> sq_outstanding q" "k \<notin> sq_processing q" "sq_processing x = insert k (sq_processing q)"
    using \<open>sq_running q\<close> by simp_all
  show "sq_outstanding q \<subseteq> insert k (sq_outstanding x)" using remove1_keeps [of _ "sq_keys q" k] by (auto simp: x(3))
qed (auto simp: sample_workqueue_def sq_add_def)

lemma sample_workqueue_drains: "workqueue_drains sample_workqueue sq_shut (\<lambda>q. length (sq_keys q))"
  unfolding workqueue_drains_def
proof (intro conjI allI impI)
  fix q x :: sample_queue and k b
  assume q: "sq_shut q"
  show "wq_Get sample_workqueue q \<noteq> None" using q by (auto simp: sample_workqueue_def sq_get_def split: option.splits)
  assume "wq_Get sample_workqueue q = Some ((k, b), x)"
  note get = sample_get [of q k b x] this
  then show "sq_shut x" using q by (cases b) (simp_all add: sample_workqueue_def)
  show "b \<or> length (sq_keys x) < length (sq_keys q)"
    using get length_pos_if_in_set [of k "sq_keys q"] by (cases b) (simp_all add: sample_workqueue_def length_remove1)
qed (simp_all add: sample_workqueue_def sq_add_def)

abbreviation queue_with :: "string list \<Rightarrow> bool \<Rightarrow> sample_queue" where
  "queue_with keys shut \<equiv> \<lparr>sq_keys = keys, sq_processing = {}, sq_shut = shut, sq_failures = (\<lambda>_. 0)\<rparr>"

lemma sample_workqueue_counts: "workqueue_counts sample_workqueue sq_running sq_failures"
  by (auto simp: workqueue_counts_def sample_workqueue_def sq_add_def sq_get_def split: option.splits if_splits)

theorem failed_reconcile_retried_witness:
  "\<exists>q'. processNext sample_workqueue (\<lambda>key n. (Some (ErrorString ''conflict''), Suc n)) (queue_with [''default/demo''] False) 0
      = Some (Inr True, q', 1) \<and> ''default/demo'' \<in> sq_outstanding q' \<and> sq_failures q' ''default/demo'' = 1"
proof -
  obtain q' where q': "processNext sample_workqueue (\<lambda>key n. (Some (ErrorString ''conflict''), Suc n))
      (queue_with [''default/demo''] False) 0 = Some (Inr True, q', 1)"
    by (simp add: processNext_eq sample_workqueue_def sq_get_def is_panic_def round_result_def)
  from failed_reconcile_retried [OF sample_workqueue_api sample_workqueue_counts _ this] show ?thesis
    using q' by (auto simp: is_panic_def)
qed

theorem worker_stops_after_shutdown_witness:
  "\<exists>r. runWorker (processNext sample_workqueue (\<lambda>key n. (None, Suc n))) (queue_with [''a'', ''b''] True) 0 = Some r"
  by (rule worker_stops_after_shutdown [OF sample_workqueue_drains]) simp

text \<open>A Gateway arrives; the handlers queue its key; a worker takes it, reconciles it and gives it back.\<close>

abbreviation run_cluster :: "string set cluster" where "run_cluster \<equiv> served_cluster [OTCPRoute sample_route]"

definition bare_cluster :: "string set cluster" where
  "bare_cluster = run_cluster\<lparr>gateways_Get := (\<lambda>ns n. Inl (StatusError NotFound n)),
     gateways_ByIndex := (\<lambda>i key. Inr (serve_index [] indexGatewayByClass key))\<rparr>"

abbreviation added_gateway :: event where "added_gateway \<equiv> Added (OGateway demo_gateway)"

definition after_event :: "sample_queue queues" where
  "after_event = \<lparr>gatewayClassQueue = empty_queue, gatewayQueue = queue_with [''default/demo''] False,
     routeQueue = queue_with [''default/demo-route''] False, endpointSelectorQueue = queue_with [''default/app''] False\<rparr>"

lemma run_handlers: "registerHandlers sample_workqueue run_cluster GatewayInformer added_gateway empty_queues = (None, after_event)"
proof -
  have "tr_Namespace sample_route = ''default''" "tr_Name sample_route = ''demo-route''"
    by (simp_all add: sample_route_def sample_defs)
  moreover have "routes_ByIndex run_cluster routeByGatewayIndex ''default/demo'' = Inr [OTCPRoute sample_route]"
    by (simp add: served_cluster_def serve_index_def indexRouteByGateway_def sample_route_keys)
  ultimately show ?thesis
    by (simp add: registerHandlers_def handleGateway_def gatewayFromObject_def routeFromObject_def with_object_def andThen_def demo_fields
        enqueueGatewayNamespacedName_def enqueueRoutesForGateway_def
        enqueueRouteNamespacedName_def enqueueEndpointSelectorsForRoute_def sample_route_keys
        for_all_def on_routeQueue_def on_gatewayQueue_def on_endpointSelectorQueue_def namespacedKey_def
        sample_workqueue_def sq_add_def empty_queues_def after_event_def)
qed

lemma run_event: "informer_event bare_cluster run_cluster GatewayInformer added_gateway"
proof -
  have "typed_caches run_cluster" by (rule served_typed) auto
  moreover have "cache_change bare_cluster run_cluster GatewayInformer added_gateway"
    by (auto simp: cache_change_def recache_def bare_cluster_def served_cluster_def serve_index_def gatewayFromObject_def demo_fields
        split: if_splits)
  moreover have "ipAddresses_List run_cluster = ipAddresses_List bare_cluster" by (simp add: bare_cluster_def)
  then have "run_cluster\<lparr>ipAddresses_List := ipAddresses_List bare_cluster\<rparr> = run_cluster" by simp
  moreover have "event_keys run_cluster GatewayInformer added_gateway \<noteq> None" by (simp add: converted_def gatewayFromObject_def)
  ultimately show ?thesis unfolding informer_event_def using served_indexed \<open>ipAddresses_List _ = _\<close> by metis
qed

lemma bare_start: "no_gateways bare_cluster"
proof -
  have "indexed_caches bare_cluster [] [OTCPRoute sample_route]"
    using served_indexed [of "[OTCPRoute sample_route]"]
    by (simp add: indexed_caches_def bare_cluster_def index_api_def serve_index_def)
  moreover have "typed_caches bare_cluster"
    using served_typed [of "[OTCPRoute sample_route]"] by (auto simp: typed_caches_def bare_cluster_def serve_index_def)
  ultimately show ?thesis unfolding no_gateways_def by blast
qed

abbreviation run_start :: "(sample_queue, string set) controller" where
  "run_start \<equiv> controller_start bare_cluster empty_queues {}"

definition run_state :: "sample_queue \<Rightarrow> string set \<Rightarrow> phase \<Rightarrow> string set cluster \<Rightarrow> (string \<Rightarrow> string set cluster option) \<Rightarrow>
    (sample_queue, string set) controller" where
  "run_state x w ph read seen = \<lparr>s_caches = run_cluster, s_pending = [], s_queues = after_event\<lparr>gatewayQueue := x\<rparr>, s_world = w,
     s_workers = (\<lambda>_. Getting)(1 := ph), s_read = (\<lambda>_. bare_cluster)(1 := read), s_seen = seen\<rparr>"

abbreviation busy_queue :: sample_queue where
  "busy_queue \<equiv> \<lparr>sq_keys = [], sq_processing = {''default/demo''}, sq_shut = False, sq_failures = (\<lambda>_. 0)\<rparr>"

abbreviation run_taken :: "(sample_queue, string set) controller" where
  "run_taken \<equiv> run_state busy_queue {} (Reconciling ''default/demo'') bare_cluster (\<lambda>_. None)"

lemma run_worker: "1 < length started_workers" "started_workers ! 1 = GatewayQ" "started_workers ! Suc 0 = GatewayQ"
  by (simp_all add: started_workers_def)

lemma run_moves:
  assumes "round_step sample_workqueue (reconcileGateway run_cluster) ph x w = Some (ph', x', w')" and "\<not> crashed ph'"
    and "controller_reachable sample_workqueue order s (run_state x w ph read seen)"
  shows "controller_reachable sample_workqueue order s (moved 1 ph' x' w' (run_state x w ph read seen))"
  by (rule reach_step [OF assms(3) UNIV_I step_worker [OF run_worker(1) _ assms(2)]])
    (use assms(1) run_worker(2) in \<open>simp add: run_state_def\<close>)

lemma run_taken_reachable: "controller_reachable sample_workqueue order run_start run_taken"
proof -
  let ?s1 = "run_start\<lparr>s_caches := run_cluster, s_pending := [(GatewayInformer, added_gateway)]\<rparr>"
  let ?s2 = "run_state (queue_with [''default/demo''] False) {} Getting bare_cluster (\<lambda>_. None)"
  have "controller_step sample_workqueue order (Watch GatewayInformer) run_start ?s1"
    using step_watch [of run_start run_cluster GatewayInformer added_gateway] run_event by (simp add: controller_start_def)
  moreover have "controller_step sample_workqueue order (Handle GatewayInformer) ?s1 ?s2"
    using step_handle [of ?s1 "[]" GatewayInformer added_gateway "[]" sample_workqueue after_event order] run_handlers
    by (simp add: controller_start_def run_state_def after_event_def fun_upd_idem)
  ultimately have reach: "controller_reachable sample_workqueue order run_start ?s2"
    by (intro reach_step [OF reach_step [OF reach_start]] UNIV_I)
  have "round_step sample_workqueue (reconcileGateway run_cluster) Getting (queue_with [''default/demo''] False) {}
      = Some (Reconciling ''default/demo'', busy_queue, {})"
    by (simp add: sample_workqueue_def sq_get_def)
  from run_moves [OF this _ reach] show ?thesis
    by (simp add: crashed_def moved_def run_state_def run_worker)
qed

theorem reconciles_exclusive_witness: "s_workers run_taken 2 \<noteq> Reconciling ''default/demo''"
proof
  assume "s_workers run_taken 2 = Reconciling ''default/demo''"
  then have "(1::nat) = 2"
    by (intro reconciles_exclusive [OF run_taken_reachable sample_workqueue_api empty_queues_keys(2)])
      (simp_all add: started_workers_def run_state_def)
  then show False by simp
qed

lemma run_reconcile: "reconcileGateway run_cluster ''default/demo'' {} = (None, {''10.96.0.2''})"
proof -
  have "fst (Gateways_UpdateStatus demo_cluster g w) = None" for g w
    by (simp add: demo_cluster_def ip_cluster_def empty_cluster_def)
  then have "fst (updateGatewayStatus demo_cluster g ev w) = None" for g ev w by (simp add: updateGatewayStatus_def Let_def)
  then have "fst (reconcileGateway demo_cluster ''default/demo'' {}) = None"
    unfolding reconcileGateway_live [OF demo_reads(1) demo_fields(4,5) demo_finalizer demo_reads(2,3)]
    using demo_valid by (simp add: Let_def demo_alloc)
  then show ?thesis using demo_reconcile unfolding served_route_reconcile by (metis prod.collapse)
qed

lemma run_done_reachable:
  "controller_reachable sample_workqueue order run_start
     (run_state empty_queue {''10.96.0.2''} (Returned (Inr True)) run_cluster [''default/demo'' \<mapsto> run_cluster])"
proof -
  have work: "round_step sample_workqueue (reconcileGateway run_cluster) (Reconciling ''default/demo'') busy_queue {}
      = Some (Requeueing ''default/demo'' None, busy_queue, {''10.96.0.2''})" by (simp add: run_reconcile panics_def)
  from run_moves [OF work _ run_taken_reachable]
  have two: "controller_reachable sample_workqueue order run_start
      (run_state busy_queue {''10.96.0.2''} (Requeueing ''default/demo'' None) run_cluster (\<lambda>_. None))"
    by (simp add: crashed_def moved_def run_state_def run_worker)
  have requeue: "round_step sample_workqueue (reconcileGateway run_cluster) (Requeueing ''default/demo'' None) busy_queue {''10.96.0.2''}
      = Some (Finishing ''default/demo'' None, busy_queue, {''10.96.0.2''})"
    by (simp add: requeueKey_def sample_workqueue_def fun_upd_idem)
  from run_moves [OF requeue _ two]
  have three: "controller_reachable sample_workqueue order run_start
      (run_state busy_queue {''10.96.0.2''} (Finishing ''default/demo'' None) run_cluster (\<lambda>_. None))"
    by (simp add: crashed_def panics_def moved_def run_state_def run_worker)
  have finish: "round_step sample_workqueue (reconcileGateway run_cluster) (Finishing ''default/demo'' None) busy_queue {''10.96.0.2''}
      = Some (Returned (Inr True), empty_queue, {''10.96.0.2''})"
    by (simp add: sample_workqueue_def round_result_def)
  from run_moves [OF finish _ three] show ?thesis
    by (simp add: crashed_def moved_def run_state_def run_worker)
qed

theorem no_lost_gateway_witness:
  "\<exists>s order. controller_reachable sample_workqueue order run_start s \<and> s_world s = {''10.96.0.2''}
    \<and> s_seen s ''default/demo'' = Some run_cluster
    \<and> reconcileGateway (recache run_cluster (s_caches s)) ''default/demo'' {} = reconcileGateway run_cluster ''default/demo'' {}"
proof -
  fix order :: "desired_slices \<Rightarrow> string list"
  let ?s = "run_state empty_queue {''10.96.0.2''} (Returned (Inr True)) run_cluster [''default/demo'' \<mapsto> run_cluster]"
  have reach: "controller_reachable sample_workqueue order run_start ?s" by (rule run_done_reachable)
  have "\<forall>i. \<not> holds ?s GatewayQ i ''default/demo''" "\<not> woken ?s ''default/demo''"
    "''default/demo'' \<notin> sq_outstanding (gatewayQueue (s_queues ?s))" and seen: "s_seen ?s ''default/demo'' = Some run_cluster"
    by (simp_all add: holds_def run_state_def woken_def)
  from no_lost_gateway [OF reach sample_workqueue_api empty_queues_keys(2) bare_start this(3,1,2), of "{}"] seen
  have "reconcileGateway (recache run_cluster (s_caches ?s)) ''default/demo'' {} = reconcileGateway run_cluster ''default/demo'' {}"
    by simp
  moreover have "s_world ?s = {''10.96.0.2''}" by (simp add: run_state_def)
  ultimately show ?thesis using reach seen by blast
qed

end
