(* ===== verification/Progress.thy ===== *)
theory Progress
  imports Workers
begin

text \<open>
  Progress of the controller of \<open>Workers\<close>: the workers of \<open>internal/controller/workers.go\<close> can always work off what the
  event handlers queued. The theory adds what a work queue promises about handing out keys, the invariant that a
  key being processed is in the hands of a worker, and the run that empties the Gateway queue.
\<close>

section \<open>Queued keys are worked off\<close>

text \<open>The rest of what the queue promises: of the queued keys, which \<open>Get\<close> can hand out now, it hands one out unless all of
  them are being processed; it drops no other and adds none, and every hand-out shrinks the backlog.\<close>

definition workqueue_serves ::
    "'q workqueue \<Rightarrow> ('q \<Rightarrow> bool) \<Rightarrow> ('q \<Rightarrow> string set) \<Rightarrow> ('q \<Rightarrow> string set) \<Rightarrow> ('q \<Rightarrow> string set) \<Rightarrow> ('q \<Rightarrow> nat) \<Rightarrow> bool" where
  "workqueue_serves Q running outstanding processing queued backlog \<longleftrightarrow>
     (\<forall>q. running q \<longrightarrow> \<not> queued q \<subseteq> processing q \<longrightarrow> wq_Get Q q \<noteq> None)
     \<and> (\<forall>q k x. running q \<longrightarrow> wq_Get Q q = Some ((k, False), x) \<longrightarrow>
          queued q \<subseteq> insert k (queued x) \<and> outstanding x \<subseteq> outstanding q \<and> backlog x < backlog q)
     \<and> (\<forall>k q. running q \<longrightarrow> queued q \<subseteq> queued (wq_AddRateLimited Q k q))
     \<and> (\<forall>k q. running q \<longrightarrow> queued q \<subseteq> queued (wq_Forget Q k q) \<and> backlog (wq_Forget Q k q) \<le> backlog q)
     \<and> (\<forall>k q. running q \<longrightarrow> queued q \<subseteq> queued (wq_Done Q k q) \<and> backlog (wq_Done Q k q) \<le> backlog q)"

lemma serves_requeue:
  assumes serves: "workqueue_serves Q running outstanding processing queued backlog" and q: "running q"
  shows "queued q \<subseteq> queued (requeueKey Q k err q)" and "backlog (requeueKey Q k None q) \<le> backlog q"
  using assms by (auto simp: workqueue_serves_def requeueKey_def split: option.splits)

lemma serves_done:
  assumes serves: "workqueue_serves Q running outstanding processing queued backlog" and q: "running q"
  shows "queued q \<subseteq> queued (wq_Done Q k q)" and "backlog (wq_Done Q k q) \<le> backlog q"
  using assms by (auto simp: workqueue_serves_def)

text \<open>Conversely to \<open>exclusive\<close>: a key that is processed is in the hands of a worker; and no worker was ended by a panic.\<close>

definition busy_inv :: "('q \<Rightarrow> string set) \<Rightarrow> ('q, 'w) controller \<Rightarrow> bool" where
  "busy_inv processing s \<longleftrightarrow>
     (\<forall>n key. key \<in> processing (queue_of n (s_queues s)) \<longrightarrow> (\<exists>i. holds s n i key)) \<and> (\<forall>i e. s_workers s i \<noteq> Returned (Inl e))"

lemma moved_busy:
  assumes api: "workqueue_api Q running outstanding processing" and inv: "worker_inv running processing s" and busy: "busy_inv processing s"
    and i: "i < length started_workers"
    and step: "round_step Q (reconcile_of (started_workers ! i) (s_caches s) order) (s_workers s i)
      (queue_of (started_workers ! i) (s_queues s)) (s_world s) = Some (ph, x, w')"
  shows "busy_inv processing (moved i ph x w' s)" (is "busy_inv processing ?s")
proof -
  let ?n = "started_workers ! i" and ?q = "queue_of (started_workers ! i) (s_queues s)"
  have run: "running ?q" using inv by (simp add: worker_inv_def all_running_def)
  note h = holds_moved [OF i, of ph x w' s] and mine = holds_phase [OF i, of s]
  have moves: "processing x \<subseteq> processing ?q \<union> set_option (held_key ph)
      \<and> (held_key (s_workers s i) = held_key ph \<or> processing x \<inter> set_option (held_key (s_workers s i)) = {})"
    using step
  proof (cases rule: round_step_cases)
    case (get key)
    then show ?thesis using workqueue_get [OF api run get(2)] by auto
  next
    case stop
    then show ?thesis using workqueue_get [OF api run] by blast
  next
    case requeue
    then show ?thesis using workqueue_requeue [OF api run] by auto
  next
    case finish
    then show ?thesis using workqueue_done [OF api run] by auto
  qed auto
  have "\<exists>j. holds ?s n j k" if k: "k \<in> processing (queue_of n (s_queues ?s))" for n k
  proof (cases "n = ?n \<and> held_key ph = Some k")
    case True
    then show ?thesis unfolding h by auto
  next
    case False
    then have "k \<in> processing (queue_of n (s_queues s))" using k moves by (auto simp: queue_of_update split: if_splits)
    then obtain j where j: "holds s n j k" using busy unfolding busy_inv_def by blast
    then have "j \<noteq> i" using False k moves mine by (auto simp: queue_of_update)
    then show ?thesis unfolding h using j by auto
  qed
  moreover have "s_workers ?s j \<noteq> Returned (Inl e)" for j e
    using busy inv step unfolding busy_inv_def worker_inv_def
    by (cases "j = i") (auto simp: round_result_def panics_def elim!: round_step_cases split: if_splits option.splits)
  ultimately show ?thesis by (simp add: busy_inv_def)
qed

lemma busy_step:
  assumes api: "workqueue_api Q running outstanding processing" and "controller_step Q order a s s'"
    and inv: "worker_inv running processing s" and busy: "busy_inv processing s"
  shows "busy_inv processing s'"
  using assms(2)
proof cases
  case (step_handle before informer ev later q')
  have "all_running running (s_queues s)" using inv by (simp add: worker_inv_def)
  from handlers_keep_processing [OF api this step_handle(5)] show ?thesis
    using busy step_handle(2) by (simp add: busy_inv_def holds_def)
next
  case step_worker
  then show ?thesis using moved_busy [OF api inv busy] by simp
next
  case (step_again i b)
  then have "holds s' n j k \<longleftrightarrow> holds s n j k" for n j k by (auto simp: holds_def)
  then show ?thesis using busy step_again(2) unfolding busy_inv_def by simp
qed (use busy in \<open>simp_all add: busy_inv_def holds_def\<close>)

interpretation live_runs: preserved "controller_runs_step A Q order"
    "\<lambda>s. workqueue_api Q running outstanding processing \<longrightarrow> worker_inv running processing s \<and> busy_inv processing s"
  for A Q order running outstanding processing
  by unfold_locales (blast intro: worker_inv_step busy_step)

lemma inv_running: "worker_inv running processing s \<Longrightarrow> running (gatewayQueue (s_queues s))"
  unfolding worker_inv_def all_running_def by (metis queue_of.simps(2))

lemma gateway_workers: "gateway_worker i \<longleftrightarrow> i = 1 \<or> i = 2"
  by (auto simp: gateway_worker_def started_workers_def less_Suc_eq numeral_2_eq_2)

text \<open>Runs of the workers alone.\<close>

abbreviation works :: "'q workqueue \<Rightarrow> (desired_slices \<Rightarrow> string list) \<Rightarrow> ('q, 'w) controller \<Rightarrow> ('q, 'w) controller \<Rightarrow> bool" where
  "works Q order \<equiv> (controller_runs_step (range Worker) Q order)\<^sup>*\<^sup>*"

lemma worker_works:
  assumes "gateway_worker i"
    and "round_step Q (reconcileGateway (s_caches s)) (s_workers s i) (gatewayQueue (s_queues s)) (s_world s) = Some (ph, x, w')"
    and "\<not> crashed ph"
  shows "works Q order s (moved i ph x w' s)"
  using step_worker [of i Q s order ph x w'] assms by (auto simp: gateway_worker_def)

lemma worker_again:
  assumes "gateway_worker i" and "s_workers s i = Returned (Inr b)"
  shows "works Q order s (s\<lparr>s_workers := (s_workers s)(i := Getting)\<rparr>)"
  using step_again [of i s b Q order] assms by (auto simp: gateway_worker_def)

text \<open>What a worker that gives its key back leaves behind.\<close>

definition given_back :: "('q \<Rightarrow> string set) \<Rightarrow> ('q \<Rightarrow> string set) \<Rightarrow> string set \<Rightarrow> 'w set \<Rightarrow> nat \<Rightarrow>
    ('q, 'w) controller \<Rightarrow> ('q, 'w) controller \<Rightarrow> bool" where
  "given_back outstanding queued K W i s s' \<longleftrightarrow> s_caches s' = s_caches s \<and> s_workers s' = (s_workers s)(i := Getting)
     \<and> queued (gatewayQueue (s_queues s)) \<subseteq> queued (gatewayQueue (s_queues s'))
     \<and> outstanding (gatewayQueue (s_queues s')) \<subseteq> K \<and> s_world s' \<in> W"

lemma given_back_moved:
  assumes "gateway_worker i"
    and "round_step Q (reconcileGateway (s_caches s)) (s_workers s i) (gatewayQueue (s_queues s)) (s_world s) = Some (ph, x, w')"
    and "\<not> crashed ph" and "queued (gatewayQueue (s_queues s)) \<subseteq> queued x"
    and "\<exists>s'. works Q order (moved i ph x w' s) s' \<and> given_back outstanding queued K W i (moved i ph x w' s) s'"
  shows "\<exists>s'. works Q order s s' \<and> given_back outstanding queued K W i s s'"
proof -
  obtain s' where s': "works Q order (moved i ph x w' s) s'" "given_back outstanding queued K W i (moved i ph x w' s) s'"
    using assms(5) by blast
  have "works Q order s s'" using worker_works [OF assms(1-3)] s'(1) by (rule rtranclp_trans)
  moreover have "given_back outstanding queued K W i s s'"
    using s'(2) assms(1,4) by (auto simp: given_back_def gatewayQueue_update gateway_worker_def)
  ultimately show ?thesis by blast
qed

lemma gives_back_finishing:
  assumes api: "workqueue_api Q running outstanding processing" and serves: "workqueue_serves Q running outstanding processing queued backlog"
    and i: "gateway_worker i" and ph: "s_workers s i = Finishing key err" "\<not> panics err" and run: "running (gatewayQueue (s_queues s))"
    and "outstanding (gatewayQueue (s_queues s)) \<subseteq> K" and "s_world s \<in> W"
  shows "\<exists>s'. works Q order s s' \<and> given_back outstanding queued K W i s s'"
proof (rule given_back_moved [OF i])
  let ?x = "wq_Done Q key (gatewayQueue (s_queues s))" and ?r = "Returned (Inr True)"
  show "round_step Q (reconcileGateway (s_caches s)) (s_workers s i) (gatewayQueue (s_queues s)) (s_world s) = Some (?r, ?x, s_world s)"
    using ph by (cases err) (simp_all add: round_result_def panics_def)
  let ?t = "moved i ?r ?x (s_world s) s"
  have "given_back outstanding queued K W i ?t (?t\<lparr>s_workers := (s_workers ?t)(i := Getting)\<rparr>)"
    using workqueue_done [OF api run, of key] assms(7,8) i by (simp add: given_back_def gatewayQueue_update gateway_worker_def)
  moreover have "works Q order ?t (?t\<lparr>s_workers := (s_workers ?t)(i := Getting)\<rparr>)" by (rule worker_again [OF i]) simp
  ultimately show "\<exists>s'. works Q order ?t s' \<and> given_back outstanding queued K W i ?t s'" by blast
  show "queued (gatewayQueue (s_queues s)) \<subseteq> queued ?x" by (rule serves_done [OF serves run])
qed (simp add: crashed_def)

lemma gives_back_requeueing:
  assumes api: "workqueue_api Q running outstanding processing" and serves: "workqueue_serves Q running outstanding processing queued backlog"
    and i: "gateway_worker i" and ph: "s_workers s i = Requeueing key err" "\<not> panics err" and run: "running (gatewayQueue (s_queues s))"
    and "outstanding (gatewayQueue (s_queues s)) \<subseteq> K" and "s_world s \<in> W" and "key \<in> K"
  shows "\<exists>s'. works Q order s s' \<and> given_back outstanding queued K W i s s'"
proof (rule given_back_moved [OF i])
  let ?x = "requeueKey Q key err (gatewayQueue (s_queues s))"
  show "round_step Q (reconcileGateway (s_caches s)) (s_workers s i) (gatewayQueue (s_queues s)) (s_world s)
      = Some (Finishing key err, ?x, s_world s)" using ph by simp
  show "\<exists>s'. works Q order (moved i (Finishing key err) ?x (s_world s) s) s'
      \<and> given_back outstanding queued K W i (moved i (Finishing key err) ?x (s_world s) s) s'"
    using workqueue_requeue [OF api run, of key err] assms(7-9) i ph(2)
    by (intro gives_back_finishing [OF api serves i, where key = key and err = err])
      (auto simp: gatewayQueue_update gateway_worker_def split: if_splits)
  show "queued (gatewayQueue (s_queues s)) \<subseteq> queued ?x" by (rule serves_requeue [OF serves run])
qed (use ph(2) in \<open>simp add: crashed_def\<close>)

text \<open>A Gateway worker that holds a key gives it back after at most four steps, when the reconcile succeeds.\<close>

lemma worker_gives_back:
  assumes api: "workqueue_api Q running outstanding processing" and serves: "workqueue_serves Q running outstanding processing queued backlog"
    and inv: "worker_inv running processing s" "busy_inv processing s" and i: "gateway_worker i" and w: "s_world s \<in> W"
    and ok: "\<forall>key \<in> K. \<forall>w \<in> W. \<exists>w' \<in> W. reconcileGateway (s_caches s) key w = (None, w')"
    and out: "outstanding (gatewayQueue (s_queues s)) \<subseteq> K" and held: "\<forall>i key. holds s GatewayQ i key \<longrightarrow> key \<in> K"
  shows "\<exists>s'. works Q order s s' \<and> given_back outstanding queued K W i s s'"
proof -
  have run: "running (gatewayQueue (s_queues s))" using inv(1) by (rule inv_running)
  have K: "held_key (s_workers s i) = Some key \<Longrightarrow> key \<in> K" for key using held i unfolding holds_def gateway_worker_def by blast
  have np: "\<not> panics err" if "s_workers s i \<in> {Requeueing key err, Finishing key err}" for key err
    using inv(1) that unfolding worker_inv_def by blast
  show ?thesis
  proof (cases "s_workers s i")
    case Getting
    then show ?thesis using w out by (intro exI [of _ s]) (auto simp: given_back_def)
  next
    case (Reconciling key)
    then have k: "key \<in> K" using K by simp
    obtain w' where w': "w' \<in> W" "reconcileGateway (s_caches s) key (s_world s) = (None, w')" using ok w k by blast
    let ?t = "moved i (Requeueing key None) (gatewayQueue (s_queues s)) w' s"
    have "round_step Q (reconcileGateway (s_caches s)) (s_workers s i) (gatewayQueue (s_queues s)) (s_world s)
        = Some (Requeueing key None, gatewayQueue (s_queues s), w')" using Reconciling w'(2) by (simp add: panics_def)
    moreover have "gatewayQueue (s_queues ?t) = gatewayQueue (s_queues s)" by (simp add: gatewayQueue_update)
    then have "\<exists>s'. works Q order ?t s' \<and> given_back outstanding queued K W i ?t s'"
      using run out w'(1) k by (intro gives_back_requeueing [OF api serves i, where key = key and err = None]) (simp_all add: panics_def)
    ultimately show ?thesis by (intro given_back_moved [OF i]) (simp_all add: crashed_def)
  next
    case (Requeueing key err)
    then show ?thesis using gives_back_requeueing [OF api serves i Requeueing _ run out w] np K by auto
  next
    case (Finishing key err)
    then show ?thesis using gives_back_finishing [OF api serves i Finishing _ run out w] np by auto
  next
    case (Returned r)
    then obtain b where "s_workers s i = Returned (Inr b)" using inv(2) by (cases r) (auto simp: busy_inv_def)
    from worker_again [OF i this] show ?thesis using w out by (intro exI conjI) (assumption, simp add: given_back_def)
  qed
qed

text \<open>One round of a waiting Gateway worker that succeeds.\<close>

lemma gateway_round:
  assumes i: "gateway_worker i" "s_workers s i = Getting"
    and get: "wq_Get Q (gatewayQueue (s_queues s)) = Some ((key, False), x)"
    and rec: "reconcileGateway (s_caches s) key (s_world s) = (None, w')"
  shows "works Q order s (s\<lparr>s_world := w', s_queues := (s_queues s)\<lparr>gatewayQueue := wq_Done Q key (requeueKey Q key None x)\<rparr>,
    s_read := (s_read s)(i := s_caches s), s_seen := (s_seen s)(key \<mapsto> s_caches s)\<rparr>)"
proof -
  have n: "started_workers ! i = GatewayQ" using i(1) by (simp add: gateway_worker_def)
  let ?y = "requeueKey Q key None x"
  let ?s1 = "moved i (Reconciling key) x (s_world s) s"
  let ?s2 = "moved i (Requeueing key None) x w' ?s1"
  let ?s3 = "moved i (Finishing key None) ?y w' ?s2"
  let ?s4 = "moved i (Returned (Inr True)) (wq_Done Q key ?y) w' ?s3"
  have s1: "works Q order s ?s1" by (rule worker_works [OF i(1)]) (simp_all add: i(2) get crashed_def)
  have s2: "works Q order ?s1 ?s2" by (rule worker_works [OF i(1)]) (simp_all add: rec crashed_def panics_def gatewayQueue_update n)
  have s3: "works Q order ?s2 ?s3" by (rule worker_works [OF i(1)]) (simp_all add: crashed_def panics_def gatewayQueue_update n)
  have s4: "works Q order ?s3 ?s4" by (rule worker_works [OF i(1)]) (simp_all add: crashed_def round_result_def gatewayQueue_update n)
  have s5: "works Q order ?s4 (?s4\<lparr>s_workers := (s_workers ?s4)(i := Getting)\<rparr>)" by (rule worker_again [OF i(1)]) simp
  have same: "?s4\<lparr>s_workers := (s_workers ?s4)(i := Getting)\<rparr> = s\<lparr>s_world := w', s_queues := (s_queues s)\<lparr>gatewayQueue := wq_Done Q key ?y\<rparr>,
      s_read := (s_read s)(i := s_caches s), s_seen := (s_seen s)(key \<mapsto> s_caches s)\<rparr>"
    using i(2) by (simp add: moved_def n fun_upd_idem)
  show ?thesis
    using rtranclp_trans [OF rtranclp_trans [OF rtranclp_trans [OF rtranclp_trans [OF s1 s2] s3] s4] s5] unfolding same .
qed

text \<open>With its workers waiting, the Gateway queue is worked off key by key.\<close>

lemma gateway_queue_drained:
  assumes api: "workqueue_api Q running outstanding processing" and serves: "workqueue_serves Q running outstanding processing queued backlog"
    and "worker_inv running processing s" "busy_inv processing s"
    and "s_workers s 1 = Getting" "s_workers s 2 = Getting" and "s_world s \<in> W" and "s_caches s = c"
    and "outstanding (gatewayQueue (s_queues s)) \<subseteq> K" and ok: "\<forall>key \<in> K. \<forall>w \<in> W. \<exists>w' \<in> W. reconcileGateway c key w = (None, w')"
  shows "\<exists>s'. works Q order s s' \<and> s_caches s' = c \<and> queued (gatewayQueue (s_queues s')) = {}
    \<and> s_workers s' = s_workers s \<and> (\<forall>key. key \<in> queued (gatewayQueue (s_queues s)) \<or> s_seen s key = Some c \<longrightarrow> s_seen s' key = Some c)"
  using assms(3-9)
proof (induction "backlog (gatewayQueue (s_queues s))" arbitrary: s rule: less_induct)
  case less
  let ?q = "gatewayQueue (s_queues s)"
  have run: "running ?q" using less.prems(1) by (rule inv_running)
  have "\<not> holds s GatewayQ i key" for i key
    using less.prems(3,4) gateway_workers [of i] by (auto simp: holds_def gateway_worker_def)
  then have idle: "processing ?q = {}" using less.prems(2) unfolding busy_inv_def by (metis equals0I queue_of.simps(2))
  show ?case
  proof (cases "queued ?q = {}")
    case True
    then show ?thesis using less.prems(6) by (intro exI [of _ s]) auto
  next
    case False
    then have "wq_Get Q ?q \<noteq> None" using serves run idle unfolding workqueue_serves_def by blast
    then obtain key b x where got: "wq_Get Q ?q = Some ((key, b), x)" by (metis option.exhaust surj_pair)
    from workqueue_get [OF api run got] have "\<not> b" "running x" "key \<in> outstanding ?q" by simp_all
    with got have get: "wq_Get Q ?q = Some ((key, False), x)" by simp
    have x: "queued ?q \<subseteq> insert key (queued x)" "backlog x < backlog ?q" "outstanding x \<subseteq> outstanding ?q"
      using serves run get unfolding workqueue_serves_def by blast+
    obtain w' where w': "w' \<in> W" "reconcileGateway (s_caches s) key (s_world s) = (None, w')" using ok less.prems(5-7) \<open>key \<in> outstanding ?q\<close> by blast
    let ?y = "requeueKey Q key None x" and ?x = "wq_Done Q key (requeueKey Q key None x)"
    let ?s = "s\<lparr>s_world := w', s_queues := (s_queues s)\<lparr>gatewayQueue := ?x\<rparr>,
      s_read := (s_read s)(1 := s_caches s), s_seen := (s_seen s)(key \<mapsto> s_caches s)\<rparr>"
    have steps: "works Q order s ?s"
      by (rule gateway_round [OF _ less.prems(3) get w'(2)]) (simp add: gateway_workers)
    note y = workqueue_requeue [OF api \<open>running x\<close>, of key None]
    note z = workqueue_done [OF api conjunct1 [OF y], of key]
    have fin: "queued x \<subseteq> queued ?x" "backlog ?x \<le> backlog x"
      using serves_requeue [OF serves \<open>running x\<close>, of key] serves_done [OF serves conjunct1 [OF y], of key] by (meson subset_trans le_trans)+
    have inv: "worker_inv running processing ?s" "busy_inv processing ?s"
      using live_runs.runs_keep [OF steps] api less.prems(1,2) by blast+
    have K: "outstanding ?x \<subseteq> K" using y z x(3) less.prems(7) by auto
    have "backlog (gatewayQueue (s_queues ?s)) < backlog ?q" using fin(2) x(2) by simp
    from less.hyps [OF this inv] less.prems(3,4,6) w'(1) K
    obtain s' where s': "works Q order ?s s'" "s_caches s' = c" "queued (gatewayQueue (s_queues s')) = {}"
        "s_workers s' = s_workers s"
      and seen: "\<forall>k. k \<in> queued ?x \<or> s_seen ?s k = Some c \<longrightarrow> s_seen s' k = Some c"
      by auto
    have "s_seen s' k = Some c" if "k \<in> queued ?q \<or> s_seen s k = Some c" for k
      using that seen x(1) fin(1) less.prems(6) by (cases "k = key") auto
    then show ?thesis using steps s' by (intro exI [of _ s']) auto
  qed
qed


lemma sample_workqueue_serves: "workqueue_serves sample_workqueue sq_running sq_outstanding sq_processing sq_outstanding (\<lambda>q. length (sq_keys q))"
  unfolding workqueue_serves_def
proof (intro conjI allI impI)
  fix q :: sample_queue
  assume "\<not> sq_outstanding q \<subseteq> sq_processing q"
  then have "find (\<lambda>k. k \<notin> sq_processing q) (sq_keys q) \<noteq> None" by (auto simp: find_None_iff)
  then show "wq_Get sample_workqueue q \<noteq> None" by (auto simp: sample_workqueue_def sq_get_def)
next
  fix q x :: sample_queue and k
  assume "wq_Get sample_workqueue q = Some ((k, False), x)"
  then have x: "k \<in> set (sq_keys q)" "sq_keys x = remove1 k (sq_keys q)"
    using sample_get [of q k False x] by (simp_all add: sample_workqueue_def)
  then show "sq_outstanding q \<subseteq> insert k (sq_outstanding x)" using remove1_keeps [of _ "sq_keys q" k] by auto
  show "sq_outstanding x \<subseteq> sq_outstanding q" using x(2) by (simp add: set_remove1_subset)
  show "length (sq_keys x) < length (sq_keys q)" using x length_pos_if_in_set [of k "sq_keys q"] by (simp add: length_remove1)
qed (auto simp: sample_workqueue_def sq_add_def)

text \<open>Two Gateways that are gone from the cache are queued and worked off.\<close>

abbreviation gone_start :: "(sample_queue, unit) controller" where
  "gone_start \<equiv> controller_start empty_cluster (empty_queues\<lparr>gatewayQueue := queue_with [''default/a'', ''default/b''] False\<rparr>) ()"

lemma gone_reconcile: "key \<in> {''default/a'', ''default/b''} \<Longrightarrow> reconcileGateway (empty_cluster :: unit cluster) key w = (None, ())"
proof -
  assume "key \<in> {''default/a'', ''default/b''}"
  then have "\<exists>n. getGateway (empty_cluster :: unit cluster) key = Inl (StatusError NotFound n)"
    by (auto simp: getGateway_def splitNamespacedKey_def empty_cluster_def)
  then show ?thesis by (auto simp: reconcileGateway_def isNotFound_def)
qed


end
