(* ===== verification/DnsPlugin.thy ===== *)
theory DnsPlugin
  imports Indexers Samples
begin

text \<open>
  The CoreDNS plugin of \<open>plugin/k8s_clusterip_gw\<close>: \<open>plugin.go\<close> (handler and answers), \<open>store.go\<close> (the
  Gateway cache) and \<open>setup.go\<close> (the Corefile parser, the set-up and the hooks that start and stop the cache). The functions of \<open>miekg/dns\<close>, CoreDNS and caddy are
  parameters: \<open>'w dns_env\<close> has those the handler calls, with the response writer acting on a world \<open>'w\<close>.
  Domain names are ASCII in presentation format, so \<open>strings.ToLower\<close> works on characters.
\<close>

section \<open>Messages and the library\<close>

record RR_Header =
  rh_Name :: string
  rh_Rrtype :: nat
  rh_Class :: nat
  rh_Ttl :: "32 word"

datatype RR =
    RR_A RR_Header "byte list"
  | RR_SOA RR_Header (soa_Ns: string) (soa_Mbox: string) (soa_Serial: nat) (soa_Refresh: nat) (soa_Retry: nat)
      (soa_Expire: nat) (soa_Minttl: "32 word")

text \<open>A request as \<open>request.Request\<close> presents it: the question name as asked and in lower case, the type
  and whether DNSSEC records are wanted.\<close>

record dns_request =
  rq_Name :: string
  rq_QName :: string
  rq_QType :: nat
  rq_Do :: bool

record Msg =
  m_Rcode :: nat
  m_Authoritative :: bool
  m_Answer :: "RR list"
  m_Ns :: "RR list"

type_synonym dns_result = "goerror + nat \<times> goerror option"

record 'w dns_env =
  Fqdn :: "string \<Rightarrow> string"
  IsSubDomain :: "string \<Rightarrow> string \<Rightarrow> bool"
  SplitDomainName :: "string \<Rightarrow> string list"
  Zones_Matches :: "string list \<Rightarrow> string \<Rightarrow> string"
  SetReply :: "dns_request \<Rightarrow> Msg"
  SetRcode :: "dns_request \<Rightarrow> nat \<Rightarrow> Msg"
  SizeAndDo :: "dns_request \<Rightarrow> Msg \<Rightarrow> Msg"
  WriteMsg :: "Msg \<Rightarrow> 'w call"
  NextOrFailure :: "string \<Rightarrow> dns_request \<Rightarrow> 'w \<Rightarrow> dns_result \<times> 'w"

abbreviation TypeA :: nat where "TypeA \<equiv> 1"
abbreviation TypeSOA :: nat where "TypeSOA \<equiv> 6"
abbreviation ClassINET :: nat where "ClassINET \<equiv> 1"
abbreviation RcodeSuccess :: nat where "RcodeSuccess \<equiv> 0"
abbreviation RcodeServerFailure :: nat where "RcodeServerFailure \<equiv> 2"
abbreviation RcodeNameError :: nat where "RcodeNameError \<equiv> 3"

section \<open>The handler\<close>

definition pluginName :: string where "pluginName = ''k8s_clusterip_gw''"
definition K8sClusterIPGW_Name :: "'k \<Rightarrow> string" where "K8sClusterIPGW_Name k = pluginName"
definition defaultZone :: string where "defaultZone = ''gw.cluster.local.''"
definition defaultTTL :: "32 word" where "defaultTTL = 30"
definition gatewayClassName :: string where "gatewayClassName = ''clusterip-gw''"
definition errGatewayNotFound :: goerror where "errGatewayNotFound = ErrorString ''gateway record not found''"

text \<open>\<open>errors.Is\<close> looks through wrapped errors.\<close>

fun is_errGatewayNotFound :: "goerror \<Rightarrow> bool" where
  "is_errGatewayNotFound (WrapError prefix err) = is_errGatewayNotFound err"
| "is_errGatewayNotFound err = (err = errGatewayNotFound)"

record gatewayStore =
  gs_HasSynced :: bool
  gs_GetByKey :: "string \<Rightarrow> goerror + Gateway option"

record K8sClusterIPGW =
  kg_Zones :: "string list"
  kg_TTL :: "32 word"
  kg_store :: "gatewayStore option"

definition K8sClusterIPGW_New :: "'w dns_env \<Rightarrow> gatewayStore option \<Rightarrow> string list \<Rightarrow> 32 word \<Rightarrow> K8sClusterIPGW" where
  "K8sClusterIPGW_New env store zones ttl =
     \<lparr>kg_Zones = map (Fqdn env) (if length zones = 0 then [defaultZone] else zones),
      kg_TTL = (if ttl = 0 then defaultTTL else ttl), kg_store = store\<rparr>"

fun ipv4_loop :: "GatewayAddress list \<Rightarrow> byte list list \<Rightarrow> byte list list" where
  "ipv4_loop [] addresses = addresses"
| "ipv4_loop (address # rest) addresses =
     (if ga_Type address \<noteq> None \<and> ga_Type address \<noteq> Some ''IPAddress'' then ipv4_loop rest addresses
      else if ParseIP (ga_Value address) = [] then ipv4_loop rest addresses
      else if To4 (ParseIP (ga_Value address)) = [] then ipv4_loop rest addresses
      else ipv4_loop rest (addresses @ [To4 (ParseIP (ga_Value address))]))"

definition ipv4Addresses :: "Gateway option \<Rightarrow> byte list list" where
  "ipv4Addresses gateway = (case gateway of None \<Rightarrow> [] | Some g \<Rightarrow> ipv4_loop (gw_Addresses g) [])"

definition lookupGateway :: "gatewayStore \<Rightarrow> string \<Rightarrow> string \<Rightarrow> goerror + byte list list" where
  "lookupGateway store namespace name =
     (case gs_GetByKey store (namespace @ ''/'' @ name) of
        Inl err \<Rightarrow> if is_panic err then Inl err
                   else Inl (WrapError (''get gateway '' @ namespace @ ''/'' @ name @ '' from cache: '') err)
      | Inr None \<Rightarrow> Inl errGatewayNotFound
      | Inr (Some gateway) \<Rightarrow>
          if om_DeletionTimestamp (gw_Meta gateway) \<noteq> None then Inl errGatewayNotFound
          else if gw_GatewayClassName gateway \<noteq> gatewayClassName then Inl errGatewayNotFound
          else Inr (ipv4Addresses (Some gateway)))"

definition parseGatewayQuery :: "'w dns_env \<Rightarrow> string \<Rightarrow> string \<Rightarrow> (string \<times> string) option" where
  "parseGatewayQuery env qname zone =
     (if \<not> IsSubDomain env zone qname then None
      else if qname = zone then None
      else
        let trimmed = TrimSuffix (TrimSuffix qname zone) ''.'';
            labels = SplitDomainName env trimmed in
        if length labels \<noteq> 2 then None else Some (labels ! 0, labels ! 1))"

definition soa :: "'w dns_env \<Rightarrow> K8sClusterIPGW \<Rightarrow> string \<Rightarrow> RR" where
  "soa env k zone =
     RR_SOA \<lparr>rh_Name = Fqdn env zone, rh_Rrtype = TypeSOA, rh_Class = ClassINET, rh_Ttl = kg_TTL k\<rparr>
       (''ns.'' @ Fqdn env zone) (''hostmaster.'' @ Fqdn env zone) 1 7200 1800 86400 (kg_TTL k)"

definition written :: "nat \<Rightarrow> goerror option \<times> 'w \<Rightarrow> dns_result \<times> 'w" where
  "written rcode res =
     (case res of (Some err, w') \<Rightarrow> (Inr (RcodeServerFailure, Some err), w') | (None, w') \<Rightarrow> (Inr (rcode, None), w'))"

definition negativeMsg :: "'w dns_env \<Rightarrow> K8sClusterIPGW \<Rightarrow> dns_request \<Rightarrow> string \<Rightarrow> nat \<Rightarrow> Msg" where
  "negativeMsg env k r zone rcode =
     (let msg = (SetRcode env r rcode)\<lparr>m_Authoritative := True\<rparr> in
      if rcode \<noteq> RcodeServerFailure then msg\<lparr>m_Ns := [soa env k zone]\<rparr> else msg)"

definition writeNegative :: "'w dns_env \<Rightarrow> K8sClusterIPGW \<Rightarrow> dns_request \<Rightarrow> string \<Rightarrow> nat \<Rightarrow> 'w \<Rightarrow> dns_result \<times> 'w" where
  "writeNegative env k r zone rcode w = written rcode (WriteMsg env (negativeMsg env k r zone rcode) w)"

definition aRecord :: "K8sClusterIPGW \<Rightarrow> string \<Rightarrow> byte list \<Rightarrow> RR" where
  "aRecord k qname address =
     RR_A \<lparr>rh_Name = qname, rh_Rrtype = TypeA, rh_Class = ClassINET, rh_Ttl = kg_TTL k\<rparr> address"

definition writeAResponse ::
    "'w dns_env \<Rightarrow> K8sClusterIPGW \<Rightarrow> dns_request \<Rightarrow> string \<Rightarrow> byte list list \<Rightarrow> 'w \<Rightarrow> dns_result \<times> 'w" where
  "writeAResponse env k r qname addresses w =
     (let msg = (SetReply env r)\<lparr>m_Authoritative := True, m_Answer := map (aRecord k qname) addresses\<rparr> in
      written RcodeSuccess (WriteMsg env msg w))"

text \<open>The zone is cut from the question as asked, which keeps its case; a zone longer than the question
  would panic.\<close>

definition ServeDNS :: "'w dns_env \<Rightarrow> K8sClusterIPGW \<Rightarrow> dns_request \<Rightarrow> 'w \<Rightarrow> dns_result \<times> 'w" where
  "ServeDNS env k r w =
     (let zone0 = Zones_Matches env (kg_Zones k) (rq_Name r) in
      if zone0 = [] then NextOrFailure env (K8sClusterIPGW_Name k) r w
      else if length zone0 > length (rq_QName r) then (Inl (Panic ''slice bounds out of range''), w)
      else
        let zone = drop (length (rq_QName r) - length zone0) (rq_QName r) in
        case kg_store k of
          None \<Rightarrow> writeNegative env k r zone RcodeServerFailure w
        | Some store \<Rightarrow>
            if \<not> gs_HasSynced store then writeNegative env k r zone RcodeServerFailure w
            else if rq_QType r = TypeSOA \<and> rq_Name r = ToLower zone then
              let msg = (SetReply env r)\<lparr>m_Authoritative := True, m_Answer := [soa env k zone]\<rparr>;
                  msg = (if rq_Do r then SizeAndDo env r msg else msg) in
              written RcodeSuccess (WriteMsg env msg w)
            else case parseGatewayQuery env (rq_Name r) (ToLower zone) of
                   None \<Rightarrow> writeNegative env k r zone RcodeNameError w
                 | Some (name, namespace) \<Rightarrow>
                     (case lookupGateway store namespace name of
                        Inl err \<Rightarrow> if is_panic err then (Inl err, w)
                                   else if is_errGatewayNotFound err then writeNegative env k r zone RcodeNameError w
                                   else (Inr (RcodeServerFailure, Some err), w)
                      | Inr addresses \<Rightarrow>
                          if rq_QType r = TypeA then
                            if length addresses = 0 then writeNegative env k r zone RcodeNameError w
                            else writeAResponse env k r (rq_QName r) addresses w
                          else writeNegative env k r zone RcodeSuccess w))"

section \<open>The store\<close>

text \<open>The informer's store under a key, then the conversion of the cached object.\<close>

definition informerGatewayStore_GetByKey :: "(string \<Rightarrow> goerror + obj option) \<Rightarrow> string \<Rightarrow> goerror + Gateway option" where
  "informerGatewayStore_GetByKey getByKey key =
     (case getByKey key of
        Inl err \<Rightarrow> Inl err
      | Inr None \<Rightarrow> Inr None
      | Inr (Some obj) \<Rightarrow>
          (case obj of OGateway gateway \<Rightarrow> Inr (Some gateway) | _ \<Rightarrow> Inl (Panic ''unexpected Gateway cache object type'')))"

section \<open>The Corefile\<close>

text \<open>What the dispenser of caddy hands out: for every directive its arguments, and the properties of its
  block, each with the rest of its line. Its error constructors are parameters.\<close>

record directive =
  dir_Args :: "string list"
  dir_Block :: "(string \<times> string list) list"

record caddy_errors =
  ce_ArgErr :: goerror
  ce_Errf :: "string \<Rightarrow> goerror"
  ce_ErrOnce :: goerror
  ce_Atoi :: "string \<Rightarrow> goerror"

fun parse_block :: "caddy_errors \<Rightarrow> (string \<times> string list) list \<Rightarrow> K8sClusterIPGW \<Rightarrow> goerror + K8sClusterIPGW" where
  "parse_block E [] handler = Inr handler"
| "parse_block E ((val, args) # rest) handler =
     (if val = ''ttl'' then
        if length args \<noteq> 1 then Inl (ce_ArgErr E)
        else case Atoi (args ! 0) of
               None \<Rightarrow> Inl (ce_Atoi E (args ! 0))
             | Some ttl \<Rightarrow>
                 if ttl < 0 \<or> ttl > 3600 then Inl (ce_Errf E (''ttl must be in range [0, 3600]: '' @ Itoa ttl))
                 else parse_block E rest (handler\<lparr>kg_TTL := word_of_int ttl\<rparr>)
      else Inl (ce_Errf E (''unknown property '' @ Quote val)))"

fun parse_directives :: "caddy_errors \<Rightarrow> 'w dns_env \<Rightarrow> nat \<Rightarrow> directive list \<Rightarrow> K8sClusterIPGW \<Rightarrow> goerror + K8sClusterIPGW" where
  "parse_directives E env i [] handler = Inr handler"
| "parse_directives E env i (d # ds) handler =
     (if i > 0 then Inl (ce_ErrOnce E)
      else case dir_Args d of
             [] \<Rightarrow>
               (case parse_block E (dir_Block d) handler of
                  Inl err \<Rightarrow> Inl err | Inr handler' \<Rightarrow> parse_directives E env (i + 1) ds handler')
           | [zone] \<Rightarrow>
               (case parse_block E (dir_Block d) (handler\<lparr>kg_Zones := [Fqdn env zone]\<rparr>) of
                  Inl err \<Rightarrow> Inl err | Inr handler' \<Rightarrow> parse_directives E env (i + 1) ds handler')
           | _ \<Rightarrow> Inl (ce_ArgErr E))"

definition parse :: "caddy_errors \<Rightarrow> 'w dns_env \<Rightarrow> directive list \<Rightarrow> goerror + K8sClusterIPGW" where
  "parse E env ds = parse_directives E env 0 ds (K8sClusterIPGW_New env None [defaultZone] defaultTTL)"

section \<open>Setup\<close>

text \<open>The client constructor, the informer it feeds, the error decoration of CoreDNS and the build information
  are parameters. The client configuration has a user agent; the rest of it is \<open>'r\<close>.\<close>

record build_info =
  bi_CoreName :: string
  bi_CoreVersion :: string
  bi_GitCommit :: string
  bi_GOOS :: string
  bi_GOARCH :: string
  bi_Version :: string

record 'r plugin_config =
  pc_UserAgent :: string
  pc_rest :: 'r

definition userAgent :: "build_info \<Rightarrow> string" where
  "userAgent b = bi_CoreName b @ ''/'' @ bi_CoreVersion b @ '' git_commit:'' @ bi_GitCommit b
     @ '' ('' @ bi_GOOS b @ ''/'' @ bi_GOARCH b @ ''/'' @ bi_Version b @ '')''"

record informer_store =
  is_HasSynced :: bool
  is_GetByKey :: "string \<Rightarrow> goerror + obj option"

definition informerGatewayStore :: "informer_store \<Rightarrow> gatewayStore" where
  "informerGatewayStore s =
     \<lparr>gs_HasSynced = is_HasSynced s, gs_GetByKey = informerGatewayStore_GetByKey (is_GetByKey s)\<rparr>"

definition newInformerGatewayStore :: "('cfg \<Rightarrow> goerror + 'client) \<Rightarrow> ('client \<Rightarrow> informer_store) \<Rightarrow> 'cfg \<Rightarrow> goerror + gatewayStore" where
  "newInformerGatewayStore NewForConfig gatewayInformer config =
     (case NewForConfig config of
        Inl err \<Rightarrow> Inl (WrapError ''build Gateway API client: '' err)
      | Inr client \<Rightarrow> Inr (informerGatewayStore (gatewayInformer client)))"

definition plugin_setup ::
    "build_info \<Rightarrow> (string \<Rightarrow> goerror \<Rightarrow> goerror) \<Rightarrow> goerror + 'r plugin_config \<Rightarrow>
      ('r plugin_config \<Rightarrow> goerror + 'client) \<Rightarrow> ('client \<Rightarrow> informer_store) \<Rightarrow>
      caddy_errors \<Rightarrow> 'w dns_env \<Rightarrow> directive list \<Rightarrow> goerror + K8sClusterIPGW" where
  "plugin_setup info pluginError inClusterConfig NewForConfig gatewayInformer E env ds =
     (case parse E env ds of
        Inl err \<Rightarrow> Inl (pluginError pluginName err)
      | Inr handler \<Rightarrow>
          (case inClusterConfig of
             Inl err \<Rightarrow> Inl (pluginError pluginName (WrapError ''build in-cluster config: '' err))
           | Inr config \<Rightarrow>
               (case newInformerGatewayStore NewForConfig gatewayInformer (config\<lparr>pc_UserAgent := userAgent info\<rparr>) of
                  Inl err \<Rightarrow> Inl (pluginError pluginName err)
                | Inr store \<Rightarrow> Inr (handler\<lparr>kg_store := Some store\<rparr>))))"

text \<open>The hooks \<open>setup\<close> registers. Every context made so far is marked done or not, \<open>cancel\<close> is that of a context,
  and each entry of \<open>hs_runs\<close> is a run of the informer under a context; \<open>informer.Run\<close> goes on until its context
  is done. The log line of the first hook reads the first zone.\<close>

record hook_state =
  hs_done :: "bool list"
  hs_cancel :: "nat option"
  hs_runs :: "nat list"

definition no_hooks_run :: hook_state where
  "no_hooks_run = \<lparr>hs_done = [], hs_cancel = None, hs_runs = []\<rparr>"

definition informerGatewayStore_Run :: "nat \<Rightarrow> hook_state \<Rightarrow> hook_state" where
  "informerGatewayStore_Run ctx s = s\<lparr>hs_runs := hs_runs s @ [ctx]\<rparr>"

definition OnStartup :: "K8sClusterIPGW \<Rightarrow> hook_state \<Rightarrow> goerror option \<times> hook_state" where
  "OnStartup handler s =
     (let runCtx = length (hs_done s);
          s' = informerGatewayStore_Run runCtx (s\<lparr>hs_done := hs_done s @ [False], hs_cancel := Some runCtx\<rparr>) in
      (if kg_Zones handler = [] then Some (Panic ''index out of range'') else None, s'))"

definition OnShutdown :: "hook_state \<Rightarrow> goerror option \<times> hook_state" where
  "OnShutdown s = (None, case hs_cancel s of None \<Rightarrow> s | Some ctx \<Rightarrow> s\<lparr>hs_done := (hs_done s)[ctx := True]\<rparr>)"

definition watching :: "hook_state \<Rightarrow> nat set" where
  "watching s = {ctx \<in> set (hs_runs s). \<not> hs_done s ! ctx}"

text \<open>The handler in the plugin chain: \<open>plugin.NextOrFailure\<close> gets the handler that follows it.\<close>

definition AddPlugin ::
    "(string \<Rightarrow> 'n \<Rightarrow> dns_request \<Rightarrow> 'w \<Rightarrow> dns_result \<times> 'w) \<Rightarrow> 'w dns_env \<Rightarrow> K8sClusterIPGW \<Rightarrow> 'n \<Rightarrow>
      dns_request \<Rightarrow> 'w \<Rightarrow> dns_result \<times> 'w" where
  "AddPlugin nextOrFailure env handler next =
     ServeDNS (env\<lparr>NextOrFailure := (\<lambda>name. nextOrFailure name next)\<rparr>) handler"

section \<open>What the DNS library promises\<close>

text \<open>Fully qualified names as lists of labels, in lower case and without escapes, which is how a request
  presents its name.\<close>

definition plain_label :: "string \<Rightarrow> bool" where
  "plain_label l \<longleftrightarrow> l \<noteq> [] \<and> CHR ''.'' \<notin> set l \<and> CHR 0x5C \<notin> set l \<and> ToLower l = l"

definition dotted :: "string list \<Rightarrow> string" where
  "dotted labels = concat (map (\<lambda>l. l @ ''.'') labels)"

definition domain :: "string list \<Rightarrow> bool" where
  "domain labels \<longleftrightarrow> labels \<noteq> [] \<and> list_all plain_label labels"

definition dns_api :: "'w dns_env \<Rightarrow> bool" where
  "dns_api env \<longleftrightarrow>
     (\<forall>zs qs. domain zs \<longrightarrow> domain qs \<longrightarrow> IsSubDomain env (dotted zs) (dotted qs) = (\<exists>ps. qs = ps @ zs))
     \<and> (\<forall>ls. domain ls \<longrightarrow> SplitDomainName env (butlast (dotted ls)) = ls)
     \<and> (\<forall>z q. Zones_Matches env [z] q = (if IsSubDomain env z q then z else []))
     \<and> (\<forall>r. m_Rcode (SetReply env r) = RcodeSuccess \<and> m_Answer (SetReply env r) = [] \<and> m_Ns (SetReply env r) = [])
     \<and> (\<forall>r rcode. m_Rcode (SetRcode env r rcode) = rcode \<and> m_Answer (SetRcode env r rcode) = [] \<and> m_Ns (SetRcode env r rcode) = [])"

lemma dns_apiD:
  assumes "dns_api env"
  shows "domain zs \<Longrightarrow> domain qs \<Longrightarrow> IsSubDomain env (dotted zs) (dotted qs) = (\<exists>ps. qs = ps @ zs)"
    and "domain ls \<Longrightarrow> SplitDomainName env (butlast (dotted ls)) = ls"
    and "Zones_Matches env [z] q = (if IsSubDomain env z q then z else [])"
    and "m_Rcode (SetReply env r) = RcodeSuccess \<and> m_Answer (SetReply env r) = [] \<and> m_Ns (SetReply env r) = []"
    and "m_Rcode (SetRcode env r rcode) = rcode \<and> m_Answer (SetRcode env r rcode) = [] \<and> m_Ns (SetRcode env r rcode) = []"
  using assms unfolding dns_api_def by (simp_all only:)

lemma dotted_append: "dotted (xs @ ys) = dotted xs @ dotted ys"
  by (simp add: dotted_def)

lemma dotted_snoc: "xs \<noteq> [] \<Longrightarrow> dotted xs = butlast (dotted xs) @ ''.''"
  by (cases xs rule: rev_cases) (simp_all add: dotted_def butlast_append)

lemma dotted_nonempty: "xs \<noteq> [] \<Longrightarrow> dotted xs \<noteq> []"
  by (cases xs) (simp_all add: dotted_def)

lemma domain_append: "domain (xs @ ys) \<Longrightarrow> xs \<noteq> [] \<Longrightarrow> domain xs"
  by (simp add: domain_def)

text \<open>The names the plugin answers are exactly those of two labels below the zone.\<close>

lemma parseGatewayQuery_eq:
  assumes api: "dns_api env" and "domain qs" "domain zs"
  shows "parseGatewayQuery env (dotted qs) (dotted zs) =
    (if \<exists>ps. qs = ps @ zs \<and> length ps = 2 then Some (qs ! 0, qs ! 1) else None)"
proof (cases "\<exists>ps. qs = ps @ zs \<and> ps \<noteq> []")
  case True
  then obtain ps where ps: "qs = ps @ zs" "ps \<noteq> []" by blast
  have sub: "IsSubDomain env (dotted zs) (dotted qs)" using dns_apiD(1) [OF api assms(3,2)] ps by blast
  have ne: "dotted qs \<noteq> dotted zs" using dotted_nonempty [OF ps(2)] by (simp add: ps(1) dotted_append)
  have trim: "TrimSuffix (TrimSuffix (dotted qs) (dotted zs)) ''.'' = butlast (dotted ps)"
  proof -
    have "dotted qs = (butlast (dotted ps) @ ''.'') @ dotted zs"
      unfolding ps(1) dotted_append dotted_snoc [OF ps(2), symmetric] ..
    then show ?thesis by (simp only: TrimSuffix_append)
  qed
  have "domain ps" using assms(2) ps domain_append by blast
  then have split: "SplitDomainName env (butlast (dotted ps)) = ps" by (rule dns_apiD(2) [OF api])
  have nth: "length ps = 2 \<Longrightarrow> qs ! 0 = ps ! 0 \<and> qs ! 1 = ps ! 1" by (simp add: ps(1) nth_append)
  have "parseGatewayQuery env (dotted qs) (dotted zs) = (if length ps = 2 then Some (ps ! 0, ps ! 1) else None)"
    by (simp add: parseGatewayQuery_def sub ne trim split)
  moreover have "(\<exists>ps. qs = ps @ zs \<and> length ps = 2) \<longleftrightarrow> length ps = 2" by (auto simp: ps(1))
  ultimately show ?thesis using nth by simp
next
  case False
  then have "\<not> IsSubDomain env (dotted zs) (dotted qs) \<or> qs = zs" using dns_apiD(1) [OF api assms(3,2)] by auto
  then have "parseGatewayQuery env (dotted qs) (dotted zs) = None" by (auto simp: parseGatewayQuery_def)
  moreover have "\<nexists>ps. qs = ps @ zs \<and> length ps = 2" using False by fastforce
  ultimately show ?thesis by simp
qed

lemma query_labels:
  assumes "dns_api env" and "domain qs" and "domain zs"
  shows "parseGatewayQuery env (dotted qs) (dotted zs) = Some (name, ns) \<longleftrightarrow> qs = name # ns # zs"
proof -
  have two: "length ps = 2 \<longleftrightarrow> (\<exists>a b. ps = [a, b])" for ps :: "string list"
    by (auto simp: numeral_2_eq_2 length_Suc_conv)
  show ?thesis unfolding parseGatewayQuery_eq [OF assms] two by auto
qed

text \<open>C22: Query names round-trip. The plugin finds Gateway \<open>name\<close> in namespace \<open>ns\<close> behind a question exactly
  when the question is \<open>name.ns.\<close> followed by the zone: the apex, deeper names and names outside the
  zone are no Gateways.\<close>

theorem gateway_query_roundtrip:
  assumes "dns_api env" and "domain qs" and "domain zs"
  shows "parseGatewayQuery env (dotted qs) (dotted zs) = Some (name, ns) \<longleftrightarrow> qs = name # ns # zs"
  by (rule query_labels [OF assms])

section \<open>Answers\<close>

lemma ipv4_loop_eq:
  "ipv4_loop as acc = acc @ map (\<lambda>a. To4 (ParseIP (ga_Value a)))
     (filter (\<lambda>a. (ga_Type a = None \<or> ga_Type a = Some ''IPAddress'') \<and> To4 (ParseIP (ga_Value a)) \<noteq> []) as)"
  by (induction as acc rule: ipv4_loop.induct) auto

text \<open>The addresses that belong to a question, from the content of the store: the IPv4 addresses in the
  status of the live Gateway of this class the question names, as long as the store can be read.\<close>

definition dns_addresses :: "gatewayStore \<Rightarrow> string list \<Rightarrow> string list \<Rightarrow> goerror + byte list list" where
  "dns_addresses store qs zs =
     (case qs of
        name # ns # rest \<Rightarrow>
          if rest = zs then
            (case gs_GetByKey store (ns @ ''/'' @ name) of
               Inl err \<Rightarrow> Inl err
             | Inr None \<Rightarrow> Inr []
             | Inr (Some g) \<Rightarrow>
                 Inr (if om_DeletionTimestamp (gw_Meta g) = None \<and> gw_GatewayClassName g = ''clusterip-gw''
                      then map (\<lambda>a. To4 (ParseIP (ga_Value a)))
                        (filter (\<lambda>a. ga_Type a \<in> {None, Some ''IPAddress''} \<and> To4 (ParseIP (ga_Value a)) \<noteq> []) (gw_Addresses g))
                      else []))
          else Inr []
      | _ \<Rightarrow> Inr [])"

definition answers :: "'w dns_env \<Rightarrow> K8sClusterIPGW \<Rightarrow> dns_request \<Rightarrow> string list \<Rightarrow> byte list list \<Rightarrow> Msg \<Rightarrow> bool" where
  "answers env k r zs addresses msg \<longleftrightarrow> m_Authoritative msg \<and>
     (if addresses = [] then m_Rcode msg = RcodeNameError \<and> m_Answer msg = []
        \<and> (\<exists>zone. ToLower zone = dotted zs \<and> m_Ns msg = [soa env k zone])
      else m_Rcode msg = RcodeSuccess \<and> m_Ns msg = []
        \<and> m_Answer msg = map (\<lambda>b. RR_A \<lparr>rh_Name = rq_QName r, rh_Rrtype = TypeA, rh_Class = ClassINET, rh_Ttl = kg_TTL k\<rparr> b) addresses)"

definition refusal :: "Msg \<Rightarrow> bool" where
  "refusal msg \<longleftrightarrow> m_Rcode msg = RcodeServerFailure \<and> m_Authoritative msg \<and> m_Answer msg = [] \<and> m_Ns msg = []"

lemma refusal_written:
  assumes "dns_api env"
  shows "\<exists>msg. writeNegative env k r zone RcodeServerFailure w = written RcodeServerFailure (WriteMsg env msg w) \<and> refusal msg"
  using dns_apiD(5) [OF assms, of r RcodeServerFailure] unfolding refusal_def writeNegative_def
  by (intro exI [of _ "negativeMsg env k r zone RcodeServerFailure"]) (simp add: negativeMsg_def Let_def)

lemma negative_answers:
  assumes "dns_api env" and "ToLower zone = dotted zs"
  shows "\<exists>msg. writeNegative env k r zone RcodeNameError w = written (m_Rcode msg) (WriteMsg env msg w) \<and> answers env k r zs [] msg"
  using dns_apiD(5) [OF assms(1), of r RcodeNameError] assms(2) unfolding answers_def writeNegative_def
  by (intro exI [of _ "negativeMsg env k r zone RcodeNameError"]) (auto simp: negativeMsg_def Let_def)

lemma positive_answers:
  assumes "dns_api env" and "addresses \<noteq> []"
  shows "\<exists>msg. writeAResponse env k r (rq_QName r) addresses w = written (m_Rcode msg) (WriteMsg env msg w)
    \<and> answers env k r zs addresses msg"
  using dns_apiD(4) [OF assms(1), of r] assms(2) unfolding answers_def writeAResponse_def
  by (intro exI [of _ "(SetReply env r)\<lparr>m_Authoritative := True, m_Answer := map (aRecord k (rq_QName r)) addresses\<rparr>"])
    (auto simp: aRecord_def Let_def)

lemma served_zone:
  assumes "dns_api env" and "domain qs" "domain zs" and "qs = ps @ zs"
    and "kg_Zones k = [dotted zs]" and "rq_Name r = dotted qs" and "ToLower (rq_QName r) = rq_Name r"
  shows "Zones_Matches env (kg_Zones k) (rq_Name r) = dotted zs" and "length (dotted zs) \<le> length (rq_QName r)"
    and "ToLower (drop (length (rq_QName r) - length (dotted zs)) (rq_QName r)) = dotted zs"
proof -
  have "IsSubDomain env (dotted zs) (dotted qs)" using dns_apiD(1) [OF assms(1,3,2)] assms(4) by blast
  then show "Zones_Matches env (kg_Zones k) (rq_Name r) = dotted zs" by (simp add: assms(5,6) dns_apiD(3) [OF assms(1)])
  have len: "length (rq_QName r) = length (dotted ps) + length (dotted zs)"
    using assms(4,6,7) by (metis ToLower_def dotted_append length_append length_map)
  then show "length (dotted zs) \<le> length (rq_QName r)" by simp
  have "ToLower (drop n s) = drop n (ToLower s)" for n s by (simp add: ToLower_def drop_map)
  then show "ToLower (drop (length (rq_QName r) - length (dotted zs)) (rq_QName r)) = dotted zs"
    using len by (simp add: assms(4,6,7) dotted_append)
qed

lemma lookupGateway_eq:
  assumes "qs = name # ns # zs"
  shows "lookupGateway store ns name =
    (case dns_addresses store qs zs of
       Inl err \<Rightarrow> if is_panic err then Inl err else Inl (WrapError (''get gateway '' @ ns @ ''/'' @ name @ '' from cache: '') err)
     | Inr addresses \<Rightarrow>
         (case gs_GetByKey store (ns @ ''/'' @ name) of
            Inr (Some g) \<Rightarrow> if om_DeletionTimestamp (gw_Meta g) = None \<and> gw_GatewayClassName g = ''clusterip-gw''
                            then Inr addresses else Inl errGatewayNotFound
          | _ \<Rightarrow> Inl errGatewayNotFound))"
  by (auto simp: lookupGateway_def dns_addresses_def assms gatewayClassName_def ipv4Addresses_def ipv4_loop_eq
      split: sum.splits option.splits)

text \<open>C15: What an address query in the zone gets. Without a store or before its cache has synced, an
  authoritative SERVFAIL with nothing in it. When the cache cannot be read, no message but SERVFAIL with
  that error for the server. Otherwise one authoritative message: the A records of exactly the IPv4
  addresses in the status of the live Gateway of this class the question names, under the name as asked
  and with the configured TTL, or, when there are none, NXDOMAIN with the SOA record of the zone.\<close>

theorem address_query_answered:
  assumes "dns_api env" and "domain qs" and "domain zs" and "qs = ps @ zs"
    and "kg_Zones k = [dotted zs]" and "rq_Name r = dotted qs" and "ToLower (rq_QName r) = rq_Name r" and "rq_QType r = TypeA"
    and "\<forall>store key err. kg_store k = Some store \<longrightarrow> gs_GetByKey store key = Inl err \<longrightarrow> \<not> is_errGatewayNotFound err"
  shows "case kg_store k of
      None \<Rightarrow> \<exists>msg. ServeDNS env k r w = written RcodeServerFailure (WriteMsg env msg w) \<and> refusal msg
    | Some store \<Rightarrow>
        if \<not> gs_HasSynced store
        then \<exists>msg. ServeDNS env k r w = written RcodeServerFailure (WriteMsg env msg w) \<and> refusal msg
        else case dns_addresses store qs zs of
               Inl err \<Rightarrow> ServeDNS env k r w = (if is_panic err then Inl err
                 else Inr (RcodeServerFailure, Some (WrapError (''get gateway '' @ qs ! 1 @ ''/'' @ qs ! 0 @ '' from cache: '') err)), w)
             | Inr addresses \<Rightarrow> \<exists>msg. ServeDNS env k r w = written (m_Rcode msg) (WriteMsg env msg w)
                 \<and> answers env k r zs addresses msg"
proof -
  let ?zone = "drop (length (rq_QName r) - length (dotted zs)) (rq_QName r)"
  note z = served_zone [OF assms(1-7)]
  have ne: "dotted zs \<noteq> []" using assms(3) dotted_nonempty by (simp add: domain_def)
  have serve: "ServeDNS env k r w =
      (case kg_store k of
         None \<Rightarrow> writeNegative env k r ?zone RcodeServerFailure w
       | Some store \<Rightarrow>
           if \<not> gs_HasSynced store then writeNegative env k r ?zone RcodeServerFailure w
           else case parseGatewayQuery env (dotted qs) (dotted zs) of
             None \<Rightarrow> writeNegative env k r ?zone RcodeNameError w
           | Some (name, namespace) \<Rightarrow>
               (case lookupGateway store namespace name of
                  Inl err \<Rightarrow> if is_panic err then (Inl err, w)
                             else if is_errGatewayNotFound err then writeNegative env k r ?zone RcodeNameError w
                             else (Inr (RcodeServerFailure, Some err), w)
                | Inr addresses \<Rightarrow>
                    if length addresses = 0 then writeNegative env k r ?zone RcodeNameError w
                    else writeAResponse env k r (rq_QName r) addresses w))"
    using z ne unfolding ServeDNS_def Let_def z(1) assms(8) simp_thms if_True
    by (cases "kg_store k") (simp_all add: assms(6) cong: option.case_cong)
  note neg = negative_answers [OF assms(1) z(3)]
  show ?thesis
  proof (cases "\<exists>store. kg_store k = Some store \<and> gs_HasSynced store")
    case False
    then show ?thesis using refusal_written [OF assms(1)] by (auto simp: serve split: option.splits)
  next
    case True
    then obtain store where store: "kg_store k = Some store" "gs_HasSynced store" by blast
    show ?thesis
    proof (cases "parseGatewayQuery env (dotted qs) (dotted zs)")
      case None
      then have "\<nexists>name ns. qs = name # ns # zs" using query_labels [OF assms(1-3)] by simp
      then have "dns_addresses store qs zs = Inr []" by (auto simp: dns_addresses_def split: list.splits)
      then show ?thesis using neg by (simp add: serve None store)
    next
      case (Some p)
      then obtain name ns where p: "p = (name, ns)" "qs = name # ns # zs"
        using query_labels [OF assms(1-3)] by (cases p) auto
      have found: "is_errGatewayNotFound errGatewayNotFound" "\<not> is_panic errGatewayNotFound"
        by (simp_all add: errGatewayNotFound_def is_panic_def)
      show ?thesis
      proof (cases "dns_addresses store qs zs")
        case (Inl err)
        then have "gs_GetByKey store (ns @ ''/'' @ name) = Inl err"
          by (auto simp: dns_addresses_def p(2) split: sum.splits option.splits)
        then have "\<not> is_errGatewayNotFound err" using assms(9) store(1) by blast
        moreover have "qs ! 1 = ns" "qs ! 0 = name" by (simp_all add: p(2))
        ultimately show ?thesis by (simp add: serve Some p(1) store Inl lookupGateway_eq [OF p(2)] is_panic_def)
      next
        case (Inr addresses)
        have "addresses = []" if "lookupGateway store ns name = Inl errGatewayNotFound"
          using that Inr by (auto simp: dns_addresses_def p(2) lookupGateway_def gatewayClassName_def is_panic_def errGatewayNotFound_def
              split: sum.splits option.splits if_splits)
        moreover have "lookupGateway store ns name \<in> {Inr addresses, Inl errGatewayNotFound}"
          by (simp add: lookupGateway_eq [OF p(2)] Inr split: sum.splits option.splits)
        ultimately show ?thesis
          using neg positive_answers [OF assms(1)] found by (auto simp: serve Some p(1) store Inr)
      qed
    qed
  qed
qed

section \<open>Configuration\<close>

lemma parse_block_ttl:
  assumes "parse_block E block handler = Inr h" and "unat (kg_TTL handler) \<le> 3600"
  shows "kg_Zones h = kg_Zones handler \<and> kg_store h = kg_store handler \<and> unat (kg_TTL h) \<le> 3600"
  using assms
proof (induction block arbitrary: handler)
  case Nil
  then show ?case by simp
next
  case (Cons p rest)
  obtain val args where p: "p = (val, args)" by fastforce
  have "unat (word_of_int t :: 32 word) \<le> 3600" if "0 \<le> t" "t \<le> 3600" for t
    using that by (simp add: unsigned_of_int take_bit_int_eq_self)
  then show ?case using Cons.prems Cons.IH [of "handler\<lparr>kg_TTL := word_of_int t\<rparr>" for t]
    by (auto simp: p split: if_splits option.splits)
qed

text \<open>An accepted Corefile configures one zone, at most once, and a TTL of at most an hour.\<close>

lemma parse_accepts:
  assumes "parse E env ds = Inr h"
  shows "length ds \<le> 1 \<and> (\<exists>zone. kg_Zones h = [Fqdn env zone]) \<and> unat (kg_TTL h) \<le> 3600 \<and> kg_store h = None"
proof -
  let ?h0 = "K8sClusterIPGW_New env None [defaultZone] defaultTTL"
  have ttl: "unat (kg_TTL ?h0) \<le> 3600" by (simp add: K8sClusterIPGW_New_def defaultTTL_def)
  have zones: "kg_Zones ?h0 = [Fqdn env defaultZone]" "kg_store ?h0 = None" by (simp_all add: K8sClusterIPGW_New_def)
  have last: "parse_directives E env (Suc 0) ds' x = Inr y \<Longrightarrow> ds' = [] \<and> x = y" for ds' x y by (cases ds') auto
  show ?thesis
  proof (cases ds)
    case Nil
    then show ?thesis using assms ttl zones by (auto simp: parse_def)
  next
    case (Cons d ds')
    from assms obtain x where x: "parse_block E (dir_Block d) x = Inr h" "ds' = []" "x = ?h0 \<or> (\<exists>zone. x = ?h0\<lparr>kg_Zones := [Fqdn env zone]\<rparr>)"
      by (auto simp: parse_def Cons split: list.splits sum.splits dest!: last)
    then have "unat (kg_TTL x) \<le> 3600" "\<exists>zone. kg_Zones x = [Fqdn env zone]" "kg_store x = None" using ttl zones by auto
    with parse_block_ttl [OF x(1)] x(2) Cons show ?thesis by simp
  qed
qed

section \<open>Set-up and hooks\<close>

text \<open>A successful set-up gives a handler with one zone, whose store is fed by the client built with the user agent
  of the server; its start-up hook therefore does not panic on the zone it logs.\<close>

lemma plugin_setup_handler:
  assumes "plugin_setup info pluginError inCluster NewForConfig gatewayInformer E env ds = Inr k"
  obtains config client zone where "inCluster = Inr config" "NewForConfig (config\<lparr>pc_UserAgent := userAgent info\<rparr>) = Inr client"
    "kg_store k = Some (informerGatewayStore (gatewayInformer client))" "kg_Zones k = [Fqdn env zone]" "unat (kg_TTL k) \<le> 3600"
proof -
  from assms obtain h config client where h: "parse E env ds = Inr h" "inCluster = Inr config"
      "NewForConfig (config\<lparr>pc_UserAgent := userAgent info\<rparr>) = Inr client"
      "k = h\<lparr>kg_store := Some (informerGatewayStore (gatewayInformer client))\<rparr>"
    by (auto simp: plugin_setup_def newInformerGatewayStore_def split: sum.splits)
  with parse_accepts [OF h(1)] that show ?thesis by auto
qed

lemma OnStartup_no_panic:
  "plugin_setup info pluginError inCluster NewForConfig gatewayInformer E env ds = Inr k \<Longrightarrow> fst (OnStartup k s) = None"
  by (erule plugin_setup_handler) (simp add: OnStartup_def Let_def)

text \<open>Every start is undone by the stop that follows it: after any number of such cycles no informer runs. A stop
  without a start does nothing.\<close>

definition hooks_ok :: "hook_state \<Rightarrow> bool" where
  "hooks_ok s \<longleftrightarrow> (\<forall>ctx \<in> set (hs_runs s). ctx < length (hs_done s))"

lemma OnStartup_watching:
  "hooks_ok s \<Longrightarrow> hooks_ok (snd (OnStartup k s)) \<and> watching (snd (OnStartup k s)) = insert (length (hs_done s)) (watching s)"
  by (auto simp: hooks_ok_def watching_def OnStartup_def informerGatewayStore_Run_def Let_def nth_append)

lemma mark_nth: "i < length xs \<Longrightarrow> xs[j := True] ! i \<longleftrightarrow> i = j \<or> xs ! i"
  by (cases "i = j") simp_all

lemma OnShutdown_watching:
  "hooks_ok s \<Longrightarrow> hooks_ok (snd (OnShutdown s)) \<and> watching (snd (OnShutdown s)) = watching s - set_option (hs_cancel s)"
  by (auto simp: hooks_ok_def watching_def OnShutdown_def mark_nth split: option.splits)

lemma hooks_cycle:
  assumes "hooks_ok s" and "watching s = {}"
  shows "hooks_ok (snd (OnShutdown (snd (OnStartup k s)))) \<and> watching (snd (OnShutdown (snd (OnStartup k s)))) = {}"
proof -
  have "hs_cancel (snd (OnStartup k s)) = Some (length (hs_done s))"
    by (simp add: OnStartup_def informerGatewayStore_Run_def Let_def)
  then show ?thesis using OnStartup_watching [OF assms(1), of k] OnShutdown_watching assms(2) by simp
qed

lemma hooks_cycles:
  "hooks_ok (((\<lambda>s. snd (OnShutdown (snd (OnStartup k s)))) ^^ n) no_hooks_run)
   \<and> watching (((\<lambda>s. snd (OnShutdown (snd (OnStartup k s)))) ^^ n) no_hooks_run) = {}"
proof (induction n)
  case 0
  show ?case by (simp add: hooks_ok_def watching_def no_hooks_run_def)
next
  case (Suc n)
  then show ?case using hooks_cycle by simp
qed

lemma OnShutdown_unstarted: "OnShutdown no_hooks_run = (None, no_hooks_run)"
  by (simp add: OnShutdown_def no_hooks_run_def)

text \<open>A question outside the zones goes to the next plugin of the chain, unchanged.\<close>

lemma AddPlugin_passes_on:
  "Zones_Matches env (kg_Zones k) (rq_Name r) = [] \<Longrightarrow> AddPlugin nextOrFailure env k next r w = nextOrFailure pluginName next r w"
  by (simp add: AddPlugin_def ServeDNS_def K8sClusterIPGW_Name_def)

section \<open>A sample server\<close>

text \<open>A library that works on label lists and a world that collects the messages written.\<close>

definition labels_of :: "string \<Rightarrow> string list" where
  "labels_of s = Split CHR ''.'' (butlast s)"

definition sample_dns :: "Msg list dns_env" where
  "sample_dns = \<lparr>Fqdn = (\<lambda>s. s),
     IsSubDomain = (\<lambda>z q. length (labels_of z) \<le> length (labels_of q)
       \<and> drop (length (labels_of q) - length (labels_of z)) (labels_of q) = labels_of z),
     SplitDomainName = (\<lambda>s. Split CHR ''.'' s),
     Zones_Matches = (\<lambda>zones q. case filter (\<lambda>z. length (labels_of z) \<le> length (labels_of q)
       \<and> drop (length (labels_of q) - length (labels_of z)) (labels_of q) = labels_of z) zones of [] \<Rightarrow> [] | z # _ \<Rightarrow> z),
     SetReply = (\<lambda>r. \<lparr>m_Rcode = 0, m_Authoritative = False, m_Answer = [], m_Ns = []\<rparr>),
     SetRcode = (\<lambda>r rcode. \<lparr>m_Rcode = rcode, m_Authoritative = False, m_Answer = [], m_Ns = []\<rparr>),
     SizeAndDo = (\<lambda>r m. m), WriteMsg = (\<lambda>m w. (None, w @ [m])),
     NextOrFailure = (\<lambda>n r w. (Inr (RcodeServerFailure, None), w))\<rparr>"

lemma Split_dotted: "domain ls \<Longrightarrow> Split CHR ''.'' (butlast (dotted ls)) = ls"
proof (induction ls)
  case Nil
  then show ?case by (simp add: domain_def)
next
  case (Cons l ls)
  then have l: "CHR ''.'' \<notin> set l" by (simp add: domain_def plain_label_def)
  show ?case
  proof (cases ls)
    case Nil
    then show ?thesis using l by (simp add: dotted_def butlast_append)
  next
    case (Cons m ms)
    then have "domain ls" using Cons.prems by (simp add: domain_def)
    moreover have "dotted ls \<noteq> []" using Cons by (simp add: dotted_nonempty)
    ultimately show ?thesis
      using Cons.IH l Split_append_sep [of "CHR ''.''" l "butlast (dotted ls)"]
      by (simp add: dotted_def butlast_append)
  qed
qed

lemma drop_suffix: "(length ys \<le> length xs \<and> drop (length xs - length ys) xs = ys) \<longleftrightarrow> (\<exists>ps. xs = ps @ ys)"
  by (metis append_eq_conv_conj append_take_drop_id diff_le_self length_append length_drop diff_diff_cancel le_add2 add_diff_cancel_right' append_Nil append_same_eq drop_append)

lemma sample_dns_api: "dns_api sample_dns"
  unfolding dns_api_def by (auto simp: sample_dns_def labels_of_def Split_dotted drop_suffix)

abbreviation sample_zone :: "string list" where "sample_zone \<equiv> [''gw'', ''cluster'', ''local'']"
abbreviation sample_question :: "string list" where "sample_question \<equiv> [''demo'', ''default'', ''gw'', ''cluster'', ''local'']"

lemma sample_domains: "domain sample_zone" "domain sample_question" "dotted sample_zone = ''gw.cluster.local.''"
    "dotted sample_question = ''demo.default.gw.cluster.local.''"
  by code_simp+

theorem gateway_query_roundtrip_witness:
  "parseGatewayQuery sample_dns ''demo.default.gw.cluster.local.'' ''gw.cluster.local.'' = Some (''demo'', ''default'')"
  using gateway_query_roundtrip [OF sample_dns_api sample_domains(2,1), of "''demo''" "''default''"]
  by (simp only: sample_domains)

definition sample_plugin :: K8sClusterIPGW where
  "sample_plugin = \<lparr>kg_Zones = [dotted sample_zone], kg_TTL = 30,
     kg_store = Some \<lparr>gs_HasSynced = True, gs_GetByKey = (\<lambda>key. Inr (if key = ''default/demo'' then Some sample_gateway else None))\<rparr>\<rparr>"

definition sample_request :: dns_request where
  "sample_request = \<lparr>rq_Name = dotted sample_question, rq_QName = ''Demo.default.GW.cluster.local.'', rq_QType = TypeA, rq_Do = False\<rparr>"

lemma sample_dns_addresses:
  "dns_addresses \<lparr>gs_HasSynced = True, gs_GetByKey = (\<lambda>key. Inr (if key = ''default/demo'' then Some sample_gateway else None))\<rparr>
     sample_question sample_zone = Inr [[10, 96, 0, 10]]"
proof -
  have "To4 (ParseIP ''10.96.0.10'') = [10, 96, 0, 10]" by (simp add: sample_ips)
  then show ?thesis by (simp add: dns_addresses_def sample_defs)
qed

theorem address_query_answered_witness:
  "(\<exists>msg. ServeDNS sample_dns sample_plugin sample_request [] = (Inr (RcodeSuccess, None), [msg])
    \<and> m_Answer msg = [RR_A \<lparr>rh_Name = ''Demo.default.GW.cluster.local.'', rh_Rrtype = TypeA, rh_Class = ClassINET, rh_Ttl = 30\<rparr>
        [10, 96, 0, 10]])
   \<and> (\<exists>msg. ServeDNS sample_dns (sample_plugin\<lparr>kg_store := None\<rparr>) sample_request [] = (Inr (RcodeServerFailure, None), [msg])
    \<and> refusal msg)"
proof -
  let ?store = "\<lparr>gs_HasSynced = True, gs_GetByKey = (\<lambda>key. Inr (if key = ''default/demo'' then Some sample_gateway else None))\<rparr>"
  have low: "ToLower (rq_QName sample_request) = rq_Name sample_request"
    unfolding sample_request_def dns_request.simps sample_domains by code_simp
  note answered = address_query_answered [OF sample_dns_api sample_domains(2,1), where ps = "[''demo'', ''default'']" and w = "[]"
      and r = sample_request]
  have "\<exists>msg. ServeDNS sample_dns sample_plugin sample_request [] = written (m_Rcode msg) (WriteMsg sample_dns msg [])
      \<and> answers sample_dns sample_plugin sample_request sample_zone [[10, 96, 0, 10]] msg"
    using answered [where k = sample_plugin] low sample_dns_addresses by (simp add: sample_plugin_def sample_request_def)
  then obtain msg where msg: "ServeDNS sample_dns sample_plugin sample_request [] = written (m_Rcode msg) (WriteMsg sample_dns msg [])"
    "answers sample_dns sample_plugin sample_request sample_zone [[10, 96, 0, 10]] msg"
    by blast
  then have "ServeDNS sample_dns sample_plugin sample_request [] = (Inr (RcodeSuccess, None), [msg])
    \<and> m_Answer msg = [RR_A \<lparr>rh_Name = ''Demo.default.GW.cluster.local.'', rh_Rrtype = TypeA, rh_Class = ClassINET, rh_Ttl = 30\<rparr>
        [10, 96, 0, 10]]"
    by (simp add: answers_def sample_request_def sample_plugin_def written_def sample_dns_def)
  moreover have "\<exists>msg. ServeDNS sample_dns (sample_plugin\<lparr>kg_store := None\<rparr>) sample_request []
      = written RcodeServerFailure (WriteMsg sample_dns msg []) \<and> refusal msg"
    using answered [where k = "sample_plugin\<lparr>kg_store := None\<rparr>"] low by (simp add: sample_plugin_def sample_request_def)
  then have "\<exists>msg. ServeDNS sample_dns (sample_plugin\<lparr>kg_store := None\<rparr>) sample_request [] = (Inr (RcodeServerFailure, None), [msg])
    \<and> refusal msg" by (auto simp: written_def sample_dns_def)
  ultimately show ?thesis by blast
qed

end
