(* ===== verification/AppOptions.thy ===== *)
theory AppOptions
  imports Proxier Workers
begin

text \<open>
  The option types of the two programs and what they share: \<open>internal/apputil/network.go\<close>,
  \<open>internal/kube/clientconfig/clientconfig.go\<close>, \<open>internal/agent/app/options.go\<close>,
  \<open>internal/controller/app/options.go\<close>, and the starts of both programs in
  their \<open>server_linux.go\<close>, with the callbacks the agent registers and the HTTP endpoints. The flag library, the
  clients and the informers are parameters. A \<open>float32\<close> is its 32-bit pattern, a duration
  an \<open>int\<close> of nanoseconds.
\<close>

section \<open>Splitting host and port\<close>

text \<open>Position of the first and of the last occurrence of a byte.\<close>

fun IndexByte :: "string \<Rightarrow> char \<Rightarrow> nat option" where
  "IndexByte [] ch = None"
| "IndexByte (x # s) ch = (if x = ch then Some 0 else map_option Suc (IndexByte s ch))"

fun LastIndexByte :: "string \<Rightarrow> char \<Rightarrow> nat option" where
  "LastIndexByte [] ch = None"
| "LastIndexByte (x # s) ch =
     (case LastIndexByte s ch of Some i \<Rightarrow> Some (Suc i) | None \<Rightarrow> if x = ch then Some 0 else None)"

text \<open>\<open>net.AddrError\<close> as text.\<close>

definition addrErr :: "string \<Rightarrow> string \<Rightarrow> goerror + 'a" where
  "addrErr addr why = Inl (ErrorString (if addr \<noteq> [] then ''address '' @ addr @ '': '' @ why else why))"

text \<open>\<open>net.SplitHostPort\<close>: the port starts after the last colon, a host in brackets ends just before it.\<close>

definition SplitHostPort :: "string \<Rightarrow> goerror + string \<times> string" where
  "SplitHostPort hostport =
     (case LastIndexByte hostport CHR '':'' of
        None \<Rightarrow> addrErr hostport ''missing port in address''
      | Some i \<Rightarrow>
          let finish = (\<lambda>host' j k.
            if IndexByte (drop j hostport) CHR ''['' \<noteq> None then addrErr hostport ''unexpected '[' in address'' else
            if IndexByte (drop k hostport) CHR '']'' \<noteq> None then addrErr hostport ''unexpected ']' in address'' else
            Inr (host', drop (i + 1) hostport)) in
          if hostport ! 0 = CHR ''['' then
            (case IndexByte hostport CHR '']'' of
               None \<Rightarrow> addrErr hostport ''missing ']' in address''
             | Some end' \<Rightarrow>
                 if end' + 1 = length hostport then addrErr hostport ''missing port in address''
                 else if end' + 1 = i then finish (take (end' - 1) (drop 1 hostport)) 1 (end' + 1)
                 else if hostport ! (end' + 1) = CHR '':'' then addrErr hostport ''too many colons in address''
                 else addrErr hostport ''missing port in address'')
          else
            let host' = take i hostport in
            if IndexByte host' CHR '':'' \<noteq> None then addrErr hostport ''too many colons in address''
            else finish host' 0 0)"

section \<open>Addresses\<close>

definition ValidateIPv4Host :: "string \<Rightarrow> bool \<Rightarrow> goerror option" where
  "ValidateIPv4Host host' allowEmpty =
     (if host' = [] then if allowEmpty then None else Some (ErrorString ''must not be empty'')
      else if ParseIP host' = [] then Some (ErrorString ''must be an IP address'')
      else if To4 (ParseIP host') = [] then Some (ErrorString ''only IPv4 is supported in this scaffold'')
      else None)"

definition ValidateIPv4HostPort :: "string \<Rightarrow> goerror option" where
  "ValidateIPv4HostPort addr =
     (case SplitHostPort addr of
        Inl err \<Rightarrow> Some err
      | Inr (host', port) \<Rightarrow>
          if host' = [] then Some (ErrorString ''host must not be empty'')
          else if port = [] then Some (ErrorString ''port must not be empty'')
          else if ParseUint port 16 = None then Some (ErrorString ''port must be a valid integer between 0 and 65535'')
          else if host' = ''::'' \<or> host' = ''[::]'' then Some (ErrorString ''only IPv4 is supported in this scaffold'')
          else if ParseIP host' = [] then Some (ErrorString ''host must be an IP address'')
          else if To4 (ParseIP host') = [] then Some (ErrorString ''only IPv4 is supported in this scaffold'')
          else None)"

section \<open>Client configuration\<close>

type_synonym float32 = "32 word"

text \<open>\<open>f < 0\<close>: the sign is set and the magnitude is neither zero nor above infinity, which is NaN.\<close>

definition float32_negative :: "float32 \<Rightarrow> bool" where
  "float32_negative f \<longleftrightarrow> 2 ^ 31 < uint f \<and> uint f - 2 ^ 31 \<le> 0x7F800000"

record clientconfig_Options =
  cc_Kubeconfig :: string
  cc_AcceptContentTypes :: string
  cc_ContentType :: string
  cc_QPS :: float32
  cc_Burst :: int32

text \<open>The fields of \<open>rest.Config\<close> the code sets; everything else of it is \<open>'r\<close>.\<close>

record 'r rest_Config =
  rc_Host :: string
  rc_AcceptContentTypes :: string
  rc_ContentType :: string
  rc_QPS :: float32
  rc_Burst :: int
  rc_rest :: 'r

definition with_settings :: "clientconfig_Options \<Rightarrow> 'r rest_Config \<Rightarrow> 'r rest_Config" where
  "with_settings options restConfig = restConfig\<lparr>rc_AcceptContentTypes := cc_AcceptContentTypes options,
     rc_ContentType := cc_ContentType options, rc_QPS := cc_QPS options, rc_Burst := sint (cc_Burst options)\<rparr>"

text \<open>The kubeconfig loader takes the explicit path, if any, and the server override.\<close>

definition Build :: "clientconfig_Options \<Rightarrow> string \<Rightarrow> goerror + 'r rest_Config \<Rightarrow>
    (string option \<Rightarrow> string \<Rightarrow> goerror + 'r rest_Config) \<Rightarrow> goerror + 'r rest_Config" where
  "Build options masterOverride inClusterConfig load =
     (if cc_Kubeconfig options = [] then
        (case inClusterConfig of
           Inr restConfig \<Rightarrow>
             Inr (with_settings options (if masterOverride \<noteq> [] then restConfig\<lparr>rc_Host := masterOverride\<rparr> else restConfig))
         | Inl err \<Rightarrow>
             if masterOverride = [] then Inl err
             else case load None masterOverride of
                    Inl err \<Rightarrow> Inl err
                  | Inr restConfig \<Rightarrow> Inr (with_settings options restConfig))
      else case load (Some (cc_Kubeconfig options)) masterOverride of
             Inl err \<Rightarrow> Inl err
           | Inr restConfig \<Rightarrow> Inr (with_settings options restConfig))"

section \<open>Options of the two programs\<close>

record controller_Options =
  o_Master :: string
  o_Kubeconfig :: string
  o_KubeAPIAcceptContentTypes :: string
  o_KubeAPIContentType :: string
  o_KubeAPIQPS :: float32
  o_KubeAPIBurst :: int32
  o_HealthzBindAddress :: string
  o_MetricsBindAddress :: string
  o_ConfigSyncPeriod :: int

record agent_Options = controller_Options +
  o_NFTablesTableName :: string
  o_NFTablesSyncPeriod :: int
  o_NFTablesMinSyncPeriod :: int
  o_ApplyRules :: bool

abbreviation second :: int where "second \<equiv> 1000000000"

definition controller_NewOptions :: controller_Options where
  "controller_NewOptions = \<lparr>o_Master = [], o_Kubeconfig = [], o_KubeAPIAcceptContentTypes = [],
     o_KubeAPIContentType = ''application/json'', o_KubeAPIQPS = 0x40A00000, o_KubeAPIBurst = 10,
     o_HealthzBindAddress = ''0.0.0.0:10257'', o_MetricsBindAddress = ''127.0.0.1:10258'', o_ConfigSyncPeriod = 15 * 60 * second\<rparr>"

definition agent_NewOptions :: agent_Options where
  "agent_NewOptions = \<lparr>o_Master = [], o_Kubeconfig = [], o_KubeAPIAcceptContentTypes = [],
     o_KubeAPIContentType = ''application/vnd.kubernetes.protobuf'', o_KubeAPIQPS = 0x40A00000, o_KubeAPIBurst = 10,
     o_HealthzBindAddress = ''0.0.0.0:11256'', o_MetricsBindAddress = ''127.0.0.1:11249'', o_ConfigSyncPeriod = 15 * 60 * second,
     o_NFTablesTableName = ''clusterip-gw'', o_NFTablesSyncPeriod = 30 * second, o_NFTablesMinSyncPeriod = second,
     o_ApplyRules = True\<rparr>"

text \<open>The checks both \<open>Validate\<close> functions end with.\<close>

definition validate_common :: "'a controller_Options_scheme \<Rightarrow> goerror option" where
  "validate_common o' =
     (case ValidateIPv4HostPort (o_HealthzBindAddress o') of
        Some err \<Rightarrow> Some (WrapError ''healthz-bind-address: '' err)
      | None \<Rightarrow>
          (case (if o_MetricsBindAddress o' \<noteq> [] then ValidateIPv4HostPort (o_MetricsBindAddress o') else None) of
             Some err \<Rightarrow> Some (WrapError ''metrics-bind-address: '' err)
           | None \<Rightarrow>
               if float32_negative (o_KubeAPIQPS o') then Some (ErrorString ''kube-api-qps must not be negative'')
               else if sint (o_KubeAPIBurst o') < 0 then Some (ErrorString ''kube-api-burst must not be negative'')
               else None))"

definition controller_Validate :: "controller_Options \<Rightarrow> goerror option" where
  "controller_Validate o' =
     (if o_ConfigSyncPeriod o' \<le> 0 then Some (ErrorString ''config-sync-period must be greater than 0'')
      else validate_common o')"

definition agent_Validate :: "agent_Options \<Rightarrow> goerror option" where
  "agent_Validate o' =
     (if o_NFTablesTableName o' = [] then Some (ErrorString ''nftables table name must not be empty'')
      else if o_ConfigSyncPeriod o' \<le> 0 then Some (ErrorString ''config-sync-period must be greater than 0'')
      else if o_NFTablesSyncPeriod o' \<le> 0 then Some (ErrorString ''nftables-sync-period must be greater than 0'')
      else if o_NFTablesMinSyncPeriod o' < 0 then Some (ErrorString ''nftables-min-sync-period must not be negative'')
      else validate_common o')"

definition clientConfig :: "'a controller_Options_scheme \<Rightarrow> clientconfig_Options" where
  "clientConfig o' = \<lparr>cc_Kubeconfig = o_Kubeconfig o', cc_AcceptContentTypes = o_KubeAPIAcceptContentTypes o',
     cc_ContentType = o_KubeAPIContentType o', cc_QPS = o_KubeAPIQPS o', cc_Burst = o_KubeAPIBurst o'\<rparr>"

definition controller_clientConfig :: "controller_Options \<Rightarrow> clientconfig_Options" where
  "controller_clientConfig o' = \<lparr>cc_Kubeconfig = o_Kubeconfig o', cc_AcceptContentTypes = o_KubeAPIAcceptContentTypes o',
     cc_ContentType = o_KubeAPIContentType o', cc_QPS = o_KubeAPIQPS o', cc_Burst = o_KubeAPIBurst o'\<rparr>"

text \<open>\<open>parseArgs\<close>: the flag library hands back the parsed options and the positional arguments, a request
  for help, or an error. No options and no error means that help was printed.\<close>

datatype 'o flag_result = Parsed 'o "string list" | HelpRequested | FlagError goerror

definition parseArgs :: "('o \<Rightarrow> goerror option) \<Rightarrow> ('o \<Rightarrow> 'o flag_result) \<Rightarrow> 'o \<Rightarrow> goerror + 'o option" where
  "parseArgs validate parse opts =
     (case parse opts of
        HelpRequested \<Rightarrow> Inr None
      | FlagError err \<Rightarrow> Inl err
      | Parsed o' args \<Rightarrow>
          if length args > 0 then
            Inl (ErrorString (''unexpected positional arguments: '' @ concat (butlast (concat (map (\<lambda>a. [a, '' '']) args)))))
          else case validate o' of Some err \<Rightarrow> Inl err | None \<Rightarrow> Inr (Some o'))"

definition Execute :: "('o \<Rightarrow> goerror option) \<Rightarrow> ('o \<Rightarrow> 'o flag_result) \<Rightarrow> 'o \<Rightarrow> ('o \<Rightarrow> goerror option) \<Rightarrow> goerror option" where
  "Execute validate parse opts run =
     (case parseArgs validate parse opts of Inl err \<Rightarrow> Some err | Inr None \<Rightarrow> None | Inr (Some o') \<Rightarrow> run o')"

definition controller_parseArgs :: "(controller_Options \<Rightarrow> controller_Options flag_result) \<Rightarrow> goerror + controller_Options option" where
  "controller_parseArgs parse = parseArgs controller_Validate parse controller_NewOptions"

definition controller_Execute :: "(controller_Options \<Rightarrow> controller_Options flag_result) \<Rightarrow> (controller_Options \<Rightarrow> goerror option) \<Rightarrow>
    goerror option" where
  "controller_Execute parse run = Execute controller_Validate parse controller_NewOptions run"

text \<open>What \<open>parseArgs\<close> prints: the help text, when it is asked for, with the flag usages of the library wrapped at 80.\<close>

definition agentCommandName :: string where "agentCommandName = ''clusterip-gw-agent''"
definition agentCommandDescription :: string where
  "agentCommandDescription = ''Experimental Gateway VIP agent for kube-proxy-like TCP routing work''"
definition controllerCommandName :: string where "controllerCommandName = ''clusterip-gw-controller''"
definition controllerCommandDescription :: string where
  "controllerCommandDescription = ''Experimental Gateway API controller for clusterip-gw Gateway VIP allocation''"

definition parseArgs_stdout :: "string \<Rightarrow> string \<Rightarrow> (nat \<Rightarrow> string) \<Rightarrow> 'o flag_result \<Rightarrow> string" where
  "parseArgs_stdout description name FlagUsagesWrapped parsed =
     (case parsed of
        HelpRequested \<Rightarrow> description @ [CHR 0x0A, CHR 0x0A] @ ''Usage:'' @ [CHR 0x0A] @ ''  '' @ name @ '' [flags]'' @ [CHR 0x0A, CHR 0x0A]
          @ ''Flags:'' @ [CHR 0x0A] @ FlagUsagesWrapped 80
      | _ \<Rightarrow> [])"

text \<open>The flags each program registers, with the current value of the field as the default.\<close>

datatype flag_value = StringFlag string | Float32Flag float32 | Int32Flag int32 | DurationFlag int | BoolFlag bool

definition controller_AddFlags :: "'a controller_Options_scheme \<Rightarrow> (string \<times> flag_value) list" where
  "controller_AddFlags o' =
     [(''master'', StringFlag (o_Master o')), (''kubeconfig'', StringFlag (o_Kubeconfig o')),
      (''kube-api-accept-content-types'', StringFlag (o_KubeAPIAcceptContentTypes o')),
      (''kube-api-content-type'', StringFlag (o_KubeAPIContentType o')),
      (''kube-api-qps'', Float32Flag (o_KubeAPIQPS o')), (''kube-api-burst'', Int32Flag (o_KubeAPIBurst o')),
      (''healthz-bind-address'', StringFlag (o_HealthzBindAddress o')),
      (''metrics-bind-address'', StringFlag (o_MetricsBindAddress o')),
      (''config-sync-period'', DurationFlag (o_ConfigSyncPeriod o'))]"

definition agent_AddFlags :: "agent_Options \<Rightarrow> (string \<times> flag_value) list" where
  "agent_AddFlags o' = controller_AddFlags o' @
     [(''nftables-table-name'', StringFlag (o_NFTablesTableName o')), (''nftables-sync-period'', DurationFlag (o_NFTablesSyncPeriod o')),
      (''nftables-min-sync-period'', DurationFlag (o_NFTablesMinSyncPeriod o')), (''apply-rules'', BoolFlag (o_ApplyRules o'))]"

section \<open>The agent's callbacks\<close>

definition mustGateway :: "obj \<Rightarrow> goerror + Gateway" where
  "mustGateway obj =
     (case obj of
        OGateway t \<Rightarrow> Inr t
      | DeletedFinalStateUnknown t \<Rightarrow>
          (case t of OGateway gateway \<Rightarrow> Inr gateway | _ \<Rightarrow> Inl (Panic ''unexpected Gateway tombstone object type''))
      | _ \<Rightarrow> Inl (Panic ''unexpected Gateway object type''))"

definition mustEndpointSlice :: "obj \<Rightarrow> goerror + EndpointSlice" where
  "mustEndpointSlice obj =
     (case obj of
        OEndpointSlice t \<Rightarrow> Inr t
      | DeletedFinalStateUnknown t \<Rightarrow>
          (case t of OEndpointSlice slice' \<Rightarrow> Inr slice' | _ \<Rightarrow> Inl (Panic ''unexpected EndpointSlice tombstone object type''))
      | _ \<Rightarrow> Inl (Panic ''unexpected EndpointSlice object type''))"

datatype informer_callback =
    GatewayAddFunc obj | GatewayUpdateFunc obj obj | GatewayDeleteFunc obj
  | SliceAddFunc obj | SliceUpdateFunc obj obj | SliceDeleteFunc obj

definition both :: "goerror + 'a \<Rightarrow> goerror + 'a \<Rightarrow> ('a \<Rightarrow> 'a \<Rightarrow> 'b) \<Rightarrow> goerror + 'b" where
  "both x y f = (case x of Inl p \<Rightarrow> Inl p | Inr a \<Rightarrow> (case y of Inl p \<Rightarrow> Inl p | Inr b \<Rightarrow> Inr (f a b)))"

definition agent_registerHandlers :: "informer_callback \<Rightarrow> Proxier \<Rightarrow> goerror + Proxier" where
  "agent_registerHandlers cb p =
     (case cb of
        GatewayAddFunc obj \<Rightarrow> map_sum id (\<lambda>g. OnGatewayAdd g p) (mustGateway obj)
      | GatewayUpdateFunc oldObj newObj \<Rightarrow> both (mustGateway oldObj) (mustGateway newObj) (\<lambda>old g. OnGatewayUpdate old g p)
      | GatewayDeleteFunc obj \<Rightarrow> map_sum id (\<lambda>g. OnGatewayDelete g p) (mustGateway obj)
      | SliceAddFunc obj \<Rightarrow> map_sum id (\<lambda>s. OnEndpointSliceAdd s p) (mustEndpointSlice obj)
      | SliceUpdateFunc oldObj newObj \<Rightarrow>
          both (mustEndpointSlice oldObj) (mustEndpointSlice newObj) (\<lambda>old s. OnEndpointSliceUpdate old s p)
      | SliceDeleteFunc obj \<Rightarrow> map_sum id (\<lambda>s. OnEndpointSliceDelete s p) (mustEndpointSlice obj))"

text \<open>The start of the agent up to its sync loop: the proxier with both caches synced, or the error the
  process ends with. The clients are built from the rest configuration; the callbacks that ran before
  the caches were synced are a list.\<close>

definition proxierOptions :: "agent_Options \<Rightarrow> proxier_Options" where
  "proxierOptions o' = \<lparr>opt_TableName = o_NFTablesTableName o', opt_SyncPeriod = o_NFTablesSyncPeriod o',
     opt_MinSyncPeriod = o_NFTablesMinSyncPeriod o', opt_ApplyRules = o_ApplyRules o'\<rparr>"

fun run_callbacks :: "informer_callback list \<Rightarrow> Proxier \<Rightarrow> goerror + Proxier" where
  "run_callbacks [] p = Inr p"
| "run_callbacks (cb # cbs) p = (case agent_registerHandlers cb p of Inl panic \<Rightarrow> Inl panic | Inr p' \<Rightarrow> run_callbacks cbs p')"

definition agent_start :: "agent_Options \<Rightarrow> goerror + 'r rest_Config \<Rightarrow> (string option \<Rightarrow> string \<Rightarrow> goerror + 'r rest_Config) \<Rightarrow>
    ('r rest_Config \<Rightarrow> goerror option) \<Rightarrow> ('r rest_Config \<Rightarrow> goerror option) \<Rightarrow> bool \<Rightarrow> informer_callback list \<Rightarrow>
    goerror + Proxier" where
  "agent_start o' inClusterConfig load newClient newGatewayClient synced cbs =
     (case Build (clientConfig o') (o_Master o') inClusterConfig load of
        Inl err \<Rightarrow> Inl err
      | Inr config \<Rightarrow>
          (case newClient config of
             Some err \<Rightarrow> Inl (WrapError ''create kube client: '' err)
           | None \<Rightarrow>
               (case newGatewayClient config of
                  Some err \<Rightarrow> Inl (WrapError ''create gateway client: '' err)
                | None \<Rightarrow>
                    (case NewProxier (proxierOptions o') of
                       Inl err \<Rightarrow> Inl err
                     | Inr proxier \<Rightarrow>
                         (case run_callbacks cbs proxier of
                            Inl panic \<Rightarrow> Inl panic
                          | Inr p \<Rightarrow>
                              if \<not> synced then Inl (ErrorString ''timed out waiting for informer cache sync'')
                              else Inr (OnEndpointSlicesSynced (OnGatewaySynced p)))))))"

text \<open>The start of the controller up to its queues, over the same parameters and the dynamic client.\<close>

definition controller_app_start :: "controller_Options \<Rightarrow> goerror + 'r rest_Config \<Rightarrow> (string option \<Rightarrow> string \<Rightarrow> goerror + 'r rest_Config) \<Rightarrow>
    ('r rest_Config \<Rightarrow> goerror option) \<Rightarrow> ('r rest_Config \<Rightarrow> goerror option) \<Rightarrow> ('r rest_Config \<Rightarrow> goerror option) \<Rightarrow>
    (informer \<Rightarrow> (string \<times> (obj \<Rightarrow> goerror + string list)) list \<Rightarrow> goerror option) \<Rightarrow> (string \<Rightarrow> 'q) \<Rightarrow> goerror + 'q queues" where
  "controller_app_start o' inClusterConfig load newClient newDynamicClient newGatewayClient AddIndexers newQueue =
     (case Build (controller_clientConfig o') (o_Master o') inClusterConfig load of
        Inl err \<Rightarrow> Inl (WrapError ''build kube client config: '' err)
      | Inr config \<Rightarrow>
          (case newClient config of
             Some err \<Rightarrow> Inl (WrapError ''create kube client: '' err)
           | None \<Rightarrow>
               (case newDynamicClient config of
                  Some err \<Rightarrow> Inl (WrapError ''create dynamic kube client: '' err)
                | None \<Rightarrow>
                    (case newGatewayClient config of
                       Some err \<Rightarrow> Inl (WrapError ''create gateway client: '' err)
                     | None \<Rightarrow> Controller_New AddIndexers newQueue))))"

text \<open>The health endpoints answer with this status and body; \<open>http.Error\<close> ends the body with a newline.\<close>

definition healthz :: "bool \<Rightarrow> nat \<times> string" where
  "healthz ready = (if \<not> ready then (503, ''not ready'' @ [CHR 0x0A]) else (200, ''ok''))"

text \<open>The servers that are started, each an address with its handler: a function for all paths, the Prometheus
  handler, or a mux of patterns.\<close>

datatype http_handler = HandlerFunc nat string | PromHandler | ServeMux "(string \<times> http_handler) list"

definition agent_startHTTPServers :: "string \<Rightarrow> string \<Rightarrow> bool \<Rightarrow> (string \<times> http_handler) list" where
  "agent_startHTTPServers healthzAddr metricsAddr ready =
     (if healthzAddr \<noteq> [] then [(healthzAddr, HandlerFunc (fst (healthz ready)) (snd (healthz ready)))] else [])
     @ (if metricsAddr = [] then []
        else [(metricsAddr, ServeMux [(''/metrics'', PromHandler), (''/proxyMode'', HandlerFunc 200 ''nftables'')])])"

definition controller_startHTTPServers :: "string \<Rightarrow> string \<Rightarrow> bool \<Rightarrow> (string \<times> http_handler) list" where
  "controller_startHTTPServers healthzAddr metricsAddr ready =
     (if healthzAddr \<noteq> [] then [(healthzAddr, HandlerFunc (fst (healthz ready)) (snd (healthz ready)))] else [])
     @ (if metricsAddr = [] then [] else [(metricsAddr, ServeMux [(''/metrics'', PromHandler)])])"

section \<open>Bind addresses\<close>

lemma IndexByte_None: "IndexByte s ch = None \<longleftrightarrow> ch \<notin> set s"
  by (induction s) auto

lemma LastIndexByte_append: "ch \<notin> set q \<Longrightarrow> LastIndexByte (p @ ch # q) ch = Some (length p)"
proof -
  assume "ch \<notin> set q"
  then have "LastIndexByte q ch = None" by (induction q) auto
  then show ?thesis by (induction p) auto
qed

text \<open>Splitting undoes joining for hosts and ports without colons and brackets.\<close>

lemma SplitHostPort_join:
  assumes "CHR '':'' \<notin> set host'" "CHR '':'' \<notin> set port" "CHR ''['' \<notin> set host'" "CHR ''['' \<notin> set port"
    "CHR '']'' \<notin> set host'" "CHR '']'' \<notin> set port"
  shows "SplitHostPort (host' @ CHR '':'' # port) = Inr (host', port)"
proof -
  have "(host' @ CHR '':'' # port) ! 0 \<noteq> CHR ''[''" using assms(3) by (cases host') auto
  then show ?thesis
    using assms by (simp add: SplitHostPort_def LastIndexByte_append IndexByte_None)
qed

text \<open>A bind address made of the text of an IPv4 address and a port number is accepted exactly when the
  port fits 16 bits.\<close>

lemma ValidateIPv4HostPort_join:
  assumes "length b = 4"
  shows "ValidateIPv4HostPort (JoinHostPort (ipv4_String b) (itoa_nat n)) = None \<longleftrightarrow> n < 65536"
proof -
  have chars: "ch \<notin> set (ipv4_String b)" if "\<not> is_digit ch" "ch \<noteq> CHR ''.''" for ch using ipv4_String_chars that by blast
  have split: "SplitHostPort (ipv4_String b @ CHR '':'' # itoa_nat n) = Inr (ipv4_String b, itoa_nat n)"
    by (intro SplitHostPort_join chars itoa_nat_not_in) (simp_all add: is_digit_def)
  have ip: "ParseIP (ipv4_String b) = v4InV6Prefix @ b" using assms by (rule ParseIP_String)
  have "ipv4_String b \<noteq> ''::''" "ipv4_String b \<noteq> ''[::]''"
    using ipv4_String_no_colon [of b] by (metis list.set_intros(1) list.set_intros(2))+
  moreover have "b \<noteq> []" using assms by auto
  ultimately show ?thesis
    using assms by (simp add: JoinHostPort_def ValidateIPv4HostPort_def split ip ParseUint_itoa_nat)
qed

section \<open>Starting the agent\<close>

interpretation mustGateway_obj: object_kind OGateway mustGateway
  by unfold_locales (auto simp: mustGateway_def split: obj.splits)

interpretation mustEndpointSlice_obj: object_kind OEndpointSlice mustEndpointSlice
  by unfold_locales (auto simp: mustEndpointSlice_def split: obj.splits)

text \<open>The event of the proxier a callback stands for, when its objects are of the kind of the informer.\<close>

fun callback_event :: "informer_callback \<Rightarrow> agent_event option" where
  "callback_event (GatewayAddFunc obj) = (case mustGateway obj of Inl _ \<Rightarrow> None | Inr g \<Rightarrow> Some (GatewayAdded g))"
| "callback_event (GatewayUpdateFunc old obj) =
     (case (mustGateway old, mustGateway obj) of (Inr g, Inr g') \<Rightarrow> Some (GatewayUpdated g g') | _ \<Rightarrow> None)"
| "callback_event (GatewayDeleteFunc obj) = (case mustGateway obj of Inl _ \<Rightarrow> None | Inr g \<Rightarrow> Some (GatewayDeleted g))"
| "callback_event (SliceAddFunc obj) = (case mustEndpointSlice obj of Inl _ \<Rightarrow> None | Inr s \<Rightarrow> Some (EndpointSliceAdded s))"
| "callback_event (SliceUpdateFunc old obj) =
     (case (mustEndpointSlice old, mustEndpointSlice obj) of (Inr s, Inr s') \<Rightarrow> Some (EndpointSliceUpdated s s') | _ \<Rightarrow> None)"
| "callback_event (SliceDeleteFunc obj) = (case mustEndpointSlice obj of Inl _ \<Rightarrow> None | Inr s \<Rightarrow> Some (EndpointSliceDeleted s))"

lemma callback_handled:
  "agent_registerHandlers cb p = Inr p' \<longleftrightarrow> (\<exists>e. callback_event cb = Some e \<and> p' = handle e p)"
  by (cases cb) (auto simp: agent_registerHandlers_def both_def split: sum.splits)

lemma run_callbacks_fold:
  "map callback_event cbs = map Some es \<Longrightarrow> run_callbacks cbs p = Inr (fold handle es p)"
proof (induction cbs arbitrary: es p)
  case Nil
  then show ?case by simp
next
  case (Cons cb cbs)
  then obtain e es' where es: "es = e # es'" "callback_event cb = Some e" "map callback_event cbs = map Some es'"
    by (cases es) auto
  then show ?case using Cons.IH [OF es(3)] callback_handled [of cb p "handle e p"] by simp
qed

lemma handle_synced_ready: "Ready (handle EndpointSlicesSynced (handle GatewaysSynced p))"
  by (simp add: Ready_def OnEndpointSlicesSynced_def OnGatewaySynced_def requestSync_def offerToken_def markPending_def)

lemma handle_periods: "px_syncPeriod (handle e p) = px_syncPeriod p \<and> px_minSyncPeriod (handle e p) = px_minSyncPeriod p"
  by (cases e) (simp_all add: OnGatewayAdd_def OnGatewayUpdate_def OnGatewayDelete_def OnGatewaySynced_def OnEndpointSliceAdd_def
      OnEndpointSliceUpdate_def OnEndpointSliceDelete_def OnEndpointSlicesSynced_def requestSync_def offerToken_def markPending_def
      trackGateway_def trackEndpointSlice_def)

lemma fold_handle_periods: "px_syncPeriod (fold handle es p) = px_syncPeriod p \<and> px_minSyncPeriod (fold handle es p) = px_minSyncPeriod p"
  by (induction es arbitrary: p) (simp_all add: handle_periods)

text \<open>No flag is registered twice, which the flag library would answer with a panic.\<close>

lemma distinct_flags: "distinct (map fst (agent_AddFlags o'))" "distinct (map fst (controller_AddFlags c))"
  by (simp_all add: agent_AddFlags_def controller_AddFlags_def)

text \<open>Validated options always give a health server, and every server listens on a validated address.\<close>

lemma ValidateIPv4HostPort_nonempty: "ValidateIPv4HostPort addr = None \<Longrightarrow> addr \<noteq> []"
  by (auto simp: ValidateIPv4HostPort_def SplitHostPort_def addrErr_def split: if_splits)

lemma validated_servers:
  assumes "validate_common o' = None"
  shows "o_HealthzBindAddress o' \<in> fst ` set (agent_startHTTPServers (o_HealthzBindAddress o') (o_MetricsBindAddress o') ready)"
    and "addr \<in> fst ` set (agent_startHTTPServers (o_HealthzBindAddress o') (o_MetricsBindAddress o') ready) \<Longrightarrow>
      ValidateIPv4HostPort addr = None"
proof -
  have h: "ValidateIPv4HostPort (o_HealthzBindAddress o') = None"
    and m: "o_MetricsBindAddress o' \<noteq> [] \<Longrightarrow> ValidateIPv4HostPort (o_MetricsBindAddress o') = None"
    using assms by (auto simp: validate_common_def split: option.splits if_splits)
  then show "o_HealthzBindAddress o' \<in> fst ` set (agent_startHTTPServers (o_HealthzBindAddress o') (o_MetricsBindAddress o') ready)"
    using ValidateIPv4HostPort_nonempty by (auto simp: agent_startHTTPServers_def)
  show "ValidateIPv4HostPort addr = None"
    if "addr \<in> fst ` set (agent_startHTTPServers (o_HealthzBindAddress o') (o_MetricsBindAddress o') ready)"
    using that h m by (auto simp: agent_startHTTPServers_def split: if_splits)
qed

text \<open>The controller serves the same addresses, without the proxy mode.\<close>

lemma controller_servers: "map fst (controller_startHTTPServers h m ready) = map fst (agent_startHTTPServers h m ready)"
  by (simp add: controller_startHTTPServers_def agent_startHTTPServers_def)

text \<open>Every configuration \<open>Build\<close> returns carries the client settings, wherever it came from, and the
  in-cluster one is addressed to the override when there is one.\<close>

lemma Build_settings:
  assumes "Build options master inCluster load = Inr config"
  shows "rc_AcceptContentTypes config = cc_AcceptContentTypes options" "rc_ContentType config = cc_ContentType options"
    "rc_QPS config = cc_QPS options" "rc_Burst config = sint (cc_Burst options)"
  using assms by (auto simp: Build_def with_settings_def split: if_splits sum.splits)

lemma Build_host:
  assumes "Build options master (Inr c) load = Inr config" and "cc_Kubeconfig options = []"
  shows "rc_Host config = (if master = [] then rc_Host c else master)"
  using assms by (auto simp: Build_def with_settings_def)

lemma controller_clientConfig_eq: "controller_clientConfig o' = clientConfig o'"
  by (simp add: controller_clientConfig_def clientConfig_def)

text \<open>Help is printed exactly when no options and no error come back.\<close>

lemma help_printed:
  "parseArgs validate parse opts = Inr None \<longleftrightarrow> parseArgs_stdout description name usages (parse opts) \<noteq> []"
  by (auto simp: parseArgs_def parseArgs_stdout_def split: flag_result.splits option.splits if_splits)

lemma controller_app_start_Build_error:
  "Build (controller_clientConfig o') (o_Master o') inCluster load = Inl err \<Longrightarrow>
   controller_app_start o' inCluster load newClient newDynamic newGateway AddIndexers newQueue = Inl (WrapError ''build kube client config: '' err)"
  by (simp add: controller_app_start_def)

text \<open>C23: Validated options start. With options that pass validation, a client configuration, working clients and caches that sync,
  the agent always gets its proxier, with a positive resync period and a minimum period that is not
  negative, clients whose rate limits are the configured ones and not negative; the proxier is ready and has handled exactly the informer events so far, in order, and then
  the two sync marks. The callbacks panic on no object of the informer's kind, bare or tombstone.\<close>

theorem validated_agent_starts:
  assumes "agent_Validate o' = None" and "newClient config = None" and "newGatewayClient config = None"
    and "map callback_event cbs = map Some es" and "Build (clientConfig o') (o_Master o') inCluster load = Inr config"
  shows "\<exists>p0 p. NewProxier (proxierOptions o') = Inr p0
    \<and> agent_start o' inCluster load newClient newGatewayClient True cbs = Inr p
    \<and> p = fold handle (es @ [GatewaysSynced, EndpointSlicesSynced]) p0
    \<and> Ready p \<and> px_syncPeriod p > 0 \<and> px_minSyncPeriod p \<ge> 0
    \<and> sint (o_KubeAPIBurst o') \<ge> 0 \<and> rc_Burst config = sint (o_KubeAPIBurst o') \<and> rc_QPS config = o_KubeAPIQPS o'
    \<and> \<not> float32_negative (rc_QPS config)"
proof -
  have o': "o_NFTablesTableName o' \<noteq> []" "o_NFTablesSyncPeriod o' > 0" "o_NFTablesMinSyncPeriod o' \<ge> 0"
    using assms(1) by (auto simp: agent_Validate_def split: if_splits)
  then obtain p0 where p0: "NewProxier (proxierOptions o') = Inr p0" "px_syncPeriod p0 > 0" "px_minSyncPeriod p0 \<ge> 0"
    by (simp add: NewProxier_def proxierOptions_def)
  let ?p = "fold handle (es @ [GatewaysSynced, EndpointSlicesSynced]) p0"
  have "agent_start o' inCluster load newClient newGatewayClient True cbs = Inr ?p"
    using run_callbacks_fold [OF assms(4), of p0] by (simp add: agent_start_def assms(2,3,5) p0(1))
  moreover have "Ready ?p" using handle_synced_ready by simp
  moreover have "px_syncPeriod ?p > 0" "px_minSyncPeriod ?p \<ge> 0"
    using p0 fold_handle_periods [of "es @ [GatewaysSynced, EndpointSlicesSynced]" p0] by simp_all
  moreover have "sint (o_KubeAPIBurst o') \<ge> 0" "\<not> float32_negative (o_KubeAPIQPS o')"
    using assms(1) by (auto simp: agent_Validate_def validate_common_def split: if_splits option.splits)
  moreover have "rc_Burst config = sint (o_KubeAPIBurst o')" "rc_QPS config = o_KubeAPIQPS o'"
    using Build_settings [OF assms(5)] by (simp_all add: clientConfig_def)
  ultimately show ?thesis using p0(1) by metis
qed

lemma itoa_nat_steps:
  "itoa_nat (numeral k) = (if numeral k < (10 :: nat) then [digit_char (numeral k)]
     else itoa_nat (numeral k div 10) @ [digit_char (numeral k mod 10)])"
  "itoa_nat (Suc 0) = [digit_char 1]"
  by (subst itoa_nat.simps, simp)+

lemma default_bind_addresses:
  "ValidateIPv4HostPort ''0.0.0.0:11256'' = None" "ValidateIPv4HostPort ''127.0.0.1:11249'' = None"
  "ValidateIPv4HostPort ''0.0.0.0:10257'' = None" "ValidateIPv4HostPort ''127.0.0.1:10258'' = None"
proof -
  have ports: "itoa_nat 11256 = ''11256''" "itoa_nat 11249 = ''11249''" "itoa_nat 10257 = ''10257''" "itoa_nat 10258 = ''10258''"
    by (simp_all add: itoa_nat_steps digit_char_def)
  have hosts: "ipv4_String [0, 0, 0, 0] = ''0.0.0.0''" "ipv4_String [127, 0, 0, 1] = ''127.0.0.1''" by code_simp+
  note any = ValidateIPv4HostPort_join [of "[0, 0, 0, 0]"] and loc = ValidateIPv4HostPort_join [of "[127, 0, 0, 1]"]
  show "ValidateIPv4HostPort ''0.0.0.0:11256'' = None" "ValidateIPv4HostPort ''0.0.0.0:10257'' = None"
    using any [of 11256] any [of 10257] unfolding hosts ports by (simp_all add: JoinHostPort_def)
  show "ValidateIPv4HostPort ''127.0.0.1:11249'' = None" "ValidateIPv4HostPort ''127.0.0.1:10258'' = None"
    using loc [of 11249] loc [of 10258] unfolding hosts ports by (simp_all add: JoinHostPort_def)
qed

lemma default_options_valid: "agent_Validate agent_NewOptions = None" "controller_Validate controller_NewOptions = None"
  by (simp_all add: agent_Validate_def agent_NewOptions_def controller_Validate_def controller_NewOptions_def validate_common_def
      default_bind_addresses float32_negative_def)

theorem validated_agent_starts_witness:
  "\<exists>p. agent_start agent_NewOptions (Inr \<lparr>rc_Host = [], rc_AcceptContentTypes = [], rc_ContentType = [], rc_QPS = 0, rc_Burst = 0,
        rc_rest = ()\<rparr>) (\<lambda>_ _. Inl (ErrorString [])) (\<lambda>_. None) (\<lambda>_. None) True [GatewayAddFunc (OGateway sample_gateway)] = Inr p
     \<and> Ready p"
proof -
  let ?c = "\<lparr>rc_Host = [], rc_AcceptContentTypes = [], rc_ContentType = [], rc_QPS = 0, rc_Burst = 0, rc_rest = ()\<rparr>"
  have events: "map callback_event [GatewayAddFunc (OGateway sample_gateway)] = map Some [GatewayAdded sample_gateway]"
    by (simp add: mustGateway_obj.convert_embed)
  have config: "Build (clientConfig agent_NewOptions) (o_Master agent_NewOptions) (Inr ?c) (\<lambda>_ _. Inl (ErrorString [])) =
      Inr (with_settings (clientConfig agent_NewOptions) ?c)"
    by (simp add: Build_def clientConfig_def agent_NewOptions_def)
  show ?thesis
    using validated_agent_starts [OF default_options_valid(1) _ _ events config, of "\<lambda>_. None" "\<lambda>_. None"] by blast
qed

end
