(* ===== verification/Processes.thy ===== *)
theory Processes
  imports AppOptions
begin

text \<open>
  How the two programs run and end: \<open>StartHTTPServer\<close> of \<open>internal/apputil/httpserver.go\<close>, the select that ends \<open>Run\<close> in both
  \<open>app/server_linux.go\<close>, \<open>Run\<close> on other systems (\<open>server_other.go\<close>) and \<open>main\<close>. Goroutines that can report an error,
  the ones that shut servers down, signals and the select interleave in a step relation over the buffered channel
  \<open>errCh\<close>. A server is closed by \<open>Shutdown\<close> only, as net/http documents; what it otherwise fails with is arbitrary.
\<close>

section \<open>Goroutines that report errors\<close>

record http_Server =
  srv_Addr :: string
  srv_Handler :: http_handler
  srv_ReadHeaderTimeout :: int

datatype job = ListenAndServe http_Server | ControllerRun
datatype job_state = Busy | Sending goerror | Ended

text \<open>The goroutine that waits for the context to end and then calls \<open>server.Shutdown\<close>, with five seconds to finish.\<close>

datatype closer = AwaitDone | InShutdown int | Closed

record sender =
  sn_job :: job
  sn_state :: job_state
  sn_closer :: closer

definition StartHTTPServer :: "string \<Rightarrow> http_handler \<Rightarrow> sender" where
  "StartHTTPServer addr handler =
     \<lparr>sn_job = ListenAndServe \<lparr>srv_Addr = addr, srv_Handler = handler, srv_ReadHeaderTimeout = 5 * second\<rparr>,
      sn_state = Busy, sn_closer = AwaitDone\<rparr>"

definition startControllerRun :: sender where
  "startControllerRun = \<lparr>sn_job = ControllerRun, sn_state = Busy, sn_closer = Closed\<rparr>"

text \<open>\<open>http.ErrServerClosed\<close>, also when wrapped.\<close>

fun is_ErrServerClosed :: "goerror \<Rightarrow> bool" where
  "is_ErrServerClosed (WrapError prefix err) = is_ErrServerClosed err"
| "is_ErrServerClosed err = (err = ErrorString ''http: Server closed'')"

text \<open>What a goroutine does with the error its call returned.\<close>

definition after_ListenAndServe :: "goerror option \<Rightarrow> job_state" where
  "after_ListenAndServe err =
     (case err of Some e \<Rightarrow> if \<not> is_ErrServerClosed e then Sending e else Ended | None \<Rightarrow> Ended)"

definition after_ControllerRun :: "goerror option \<Rightarrow> job_state" where
  "after_ControllerRun err = (case err of Some e \<Rightarrow> Sending e | None \<Rightarrow> Ended)"

fun after_job :: "job \<Rightarrow> goerror option \<Rightarrow> job_state" where
  "after_job (ListenAndServe srv) err = after_ListenAndServe err"
| "after_job ControllerRun err = after_ControllerRun err"

text \<open>What the call can return: a server is closed only by \<open>Shutdown\<close>, and \<open>ListenAndServe\<close> always gives an error; the
  controller returns once the context is done, as waiting for the caches only fails then.\<close>

fun job_returns :: "bool \<Rightarrow> closer \<Rightarrow> job \<Rightarrow> goerror option \<Rightarrow> bool" where
  "job_returns ctxDone cl (ListenAndServe srv) err = (case err of None \<Rightarrow> False | Some e \<Rightarrow> is_ErrServerClosed e \<longrightarrow> cl \<noteq> AwaitDone)"
| "job_returns ctxDone cl ControllerRun err = (ctxDone \<and> err \<in> {fst (Controller_Run True), fst (Controller_Run False)})"

section \<open>The process\<close>

text \<open>\<open>errCh\<close> has room for two errors. \<open>pr_waiting\<close>: the agent is still waiting for its caches. \<open>pr_failed\<close> is the history
  of the errors that goroutines have to report. The context is done after a signal and after \<open>Run\<close> returned, by the
  deferred \<open>cancel\<close>.\<close>

record process =
  pr_signal :: bool
  pr_waiting :: bool
  pr_senders :: "sender list"
  pr_errCh :: "goerror list"
  pr_result :: "goerror option option"
  pr_failed :: "goerror list"

definition errCh_capacity :: nat where "errCh_capacity = 2"

definition ctx_done :: "process \<Rightarrow> bool" where
  "ctx_done s \<longleftrightarrow> pr_signal s \<or> pr_result s \<noteq> None"

abbreviation sync_timeout :: goerror where
  "sync_timeout \<equiv> ErrorString ''timed out waiting for informer cache sync''"

definition set_sender :: "nat \<Rightarrow> job_state \<Rightarrow> process \<Rightarrow> process" where
  "set_sender i st s = s\<lparr>pr_senders := (pr_senders s)[i := (pr_senders s ! i)\<lparr>sn_state := st\<rparr>]\<rparr>"

definition set_closer :: "nat \<Rightarrow> closer \<Rightarrow> process \<Rightarrow> process" where
  "set_closer i cl s = s\<lparr>pr_senders := (pr_senders s)[i := (pr_senders s ! i)\<lparr>sn_closer := cl\<rparr>]\<rparr>"

text \<open>The cases of the final select that are ready, each with what it returns and what stays in the channel.\<close>

definition select_cases :: "bool \<Rightarrow> goerror list \<Rightarrow> (goerror option \<times> goerror list) list" where
  "select_cases ctxDone errCh =
     (if ctxDone then [(None, errCh)] else []) @ (case errCh of [] \<Rightarrow> [] | err # rest \<Rightarrow> [(Some err, rest)])"

text \<open>Who takes a step: the world outside (signals, the caches, the calls the goroutines make), a goroutine of the program, or
  \<open>Run\<close> itself.\<close>

datatype process_actor = Outside | Goroutine | Main

inductive process_step :: "process_actor \<Rightarrow> process \<Rightarrow> process \<Rightarrow> bool" where
  proc_signal: "process_step Outside s (s\<lparr>pr_signal := True\<rparr>)"
| proc_synced: "pr_result s = None \<Longrightarrow> pr_waiting s \<Longrightarrow> process_step Outside s (s\<lparr>pr_waiting := False\<rparr>)"
| proc_sync_failed: "pr_result s = None \<Longrightarrow> pr_waiting s \<Longrightarrow> ctx_done s \<Longrightarrow>
    process_step Main s (s\<lparr>pr_result := Some (Some sync_timeout)\<rparr>)"
| proc_return: "\<lbrakk>i < length (pr_senders s); t = pr_senders s ! i; sn_state t = Busy;
    job_returns (ctx_done s) (sn_closer t) (sn_job t) err; st = after_job (sn_job t) err\<rbrakk> \<Longrightarrow>
    process_step Outside s (set_sender i st (s\<lparr>pr_failed := pr_failed s @ (case st of Sending e \<Rightarrow> [e] | _ \<Rightarrow> [])\<rparr>))"
| proc_send: "\<lbrakk>i < length (pr_senders s); sn_state (pr_senders s ! i) = Sending e; length (pr_errCh s) < errCh_capacity\<rbrakk> \<Longrightarrow>
    process_step Goroutine s (set_sender i Ended (s\<lparr>pr_errCh := pr_errCh s @ [e]\<rparr>))"
| proc_shutdown: "\<lbrakk>i < length (pr_senders s); sn_closer (pr_senders s ! i) = AwaitDone; ctx_done s\<rbrakk> \<Longrightarrow>
    process_step Goroutine s (set_closer i (InShutdown (5 * second)) s)"
| proc_closed: "\<lbrakk>i < length (pr_senders s); sn_closer (pr_senders s ! i) = InShutdown n\<rbrakk> \<Longrightarrow>
    process_step Goroutine s (set_closer i Closed s)"
| proc_select: "\<lbrakk>pr_result s = None; \<not> pr_waiting s; (r, rest) \<in> set (select_cases (ctx_done s) (pr_errCh s))\<rbrakk> \<Longrightarrow>
    process_step Main s (s\<lparr>pr_result := Some r, pr_errCh := rest\<rparr>)"

abbreviation process_run :: "process_actor set \<Rightarrow> process \<Rightarrow> process \<Rightarrow> bool" where
  "process_run A \<equiv> (\<lambda>s s'. \<exists>a\<in>A. process_step a s s')\<^sup>*\<^sup>*"

text \<open>A process as \<open>Run\<close> starts it: all goroutines are busy and nothing has been reported. The controller waits for its
  caches inside its goroutine, the agent before the select.\<close>

definition fresh_process :: "bool \<Rightarrow> sender list \<Rightarrow> process" where
  "fresh_process waiting senders = \<lparr>pr_signal = False, pr_waiting = waiting, pr_senders = senders, pr_errCh = [],
     pr_result = None, pr_failed = []\<rparr>"

definition agent_process :: "agent_Options \<Rightarrow> bool \<Rightarrow> process" where
  "agent_process o' ready = fresh_process True
     (map (\<lambda>(addr, handler). StartHTTPServer addr handler)
        (agent_startHTTPServers (o_HealthzBindAddress o') (o_MetricsBindAddress o') ready))"

definition controller_process :: "controller_Options \<Rightarrow> bool \<Rightarrow> process" where
  "controller_process o' ready = fresh_process False
     (map (\<lambda>(addr, handler). StartHTTPServer addr handler)
        (controller_startHTTPServers (o_HealthzBindAddress o') (o_MetricsBindAddress o') ready) @ [startControllerRun])"

section \<open>The programs\<close>

text \<open>On other systems \<open>Run\<close> only reports that.\<close>

definition agent_Run_other :: "agent_Options \<Rightarrow> goerror option" where
  "agent_Run_other o' = Some (ErrorString ''clusterip-gw-agent currently supports Linux only'')"

definition controller_Run_other :: "controller_Options \<Rightarrow> goerror option" where
  "controller_Run_other o' = Some (ErrorString ''clusterip-gw-controller currently supports Linux only'')"

text \<open>\<open>main\<close>: what is printed to the standard error and the exit status, given what \<open>Execute\<close> returned.\<close>

definition agent_main :: "goerror option \<Rightarrow> string \<times> nat" where
  "agent_main err = (case err of Some e \<Rightarrow> (Error e @ [CHR 0x0A], 1) | None \<Rightarrow> ([], 0))"

definition controller_main :: "goerror option \<Rightarrow> string \<times> nat" where
  "controller_main err = (case err of Some e \<Rightarrow> (Error e @ [CHR 0x0A], 1) | None \<Rightarrow> ([], 0))"

section \<open>Invariant\<close>

lemma proc_done:
  "pr_result s = None \<Longrightarrow> \<not> pr_waiting s \<Longrightarrow> ctx_done s \<Longrightarrow> process_step Main s (s\<lparr>pr_result := Some None\<rparr>)"
  using proc_select [of s None "pr_errCh s"] by (simp add: select_cases_def)

lemma proc_error:
  "pr_result s = None \<Longrightarrow> \<not> pr_waiting s \<Longrightarrow> pr_errCh s = e # rest \<Longrightarrow>
    process_step Main s (s\<lparr>pr_result := Some (Some e), pr_errCh := rest\<rparr>)"
  using proc_select [of s "Some e" rest] by (simp add: select_cases_def)

text \<open>The errors a process still has under way are in the channel or in a goroutine that is about to send.\<close>

abbreviation states :: "process \<Rightarrow> job_state list" where
  "states s \<equiv> map sn_state (pr_senders s)"

definition active :: "job_state list \<Rightarrow> nat" where
  "active xs = length (filter (\<lambda>st. st \<noteq> Ended) xs)"

definition outcome_ok :: "process \<Rightarrow> bool" where
  "outcome_ok s \<longleftrightarrow> (case pr_result s of
      None \<Rightarrow> pr_failed s \<noteq> [] \<longrightarrow> pr_errCh s \<noteq> [] \<or> (\<exists>e. Sending e \<in> set (states s))
    | Some None \<Rightarrow> pr_signal s
    | Some (Some e) \<Rightarrow> e \<in> set (pr_failed s) \<or> e = sync_timeout \<and> pr_signal s)"

definition process_inv :: "process \<Rightarrow> bool" where
  "process_inv s \<longleftrightarrow> set (pr_errCh s) \<subseteq> set (pr_failed s) \<and> (\<forall>e. Sending e \<in> set (states s) \<longrightarrow> e \<in> set (pr_failed s))
     \<and> (\<forall>e \<in> set (pr_failed s). \<not> is_ErrServerClosed e)
     \<and> length (pr_errCh s) + active (states s) \<le> length (pr_senders s) \<and> outcome_ok s"

lemma active_update:
  assumes "i < length xs" and "xs ! i \<noteq> Ended"
  shows "active (xs[i := st]) = (if st = Ended then active xs - 1 else active xs)" and "active xs > 0"
proof -
  obtain ys x zs where "xs = ys @ x # zs" "length ys = i" "x \<noteq> Ended"
    using that [OF id_take_nth_drop [OF assms(1)]] assms by simp
  then show "active (xs[i := st]) = (if st = Ended then active xs - 1 else active xs)" "active xs > 0"
    by (simp_all add: active_def list_update_append)
qed

lemma update_keeps_other: "x \<in> set xs \<Longrightarrow> x \<noteq> xs ! i \<Longrightarrow> x \<in> set (xs[i := v])"
  by (metis in_set_conv_nth length_list_update nth_list_update_neq)

lemma set_sender_simps [simp]:
  "i < length (pr_senders s) \<Longrightarrow> states (set_sender i st s) = (states s)[i := st]"
  "length (pr_senders (set_sender i st s)) = length (pr_senders s)"
  "pr_signal (set_sender i st s) = pr_signal s" "pr_waiting (set_sender i st s) = pr_waiting s" "pr_errCh (set_sender i st s) = pr_errCh s"
  "pr_result (set_sender i st s) = pr_result s" "pr_failed (set_sender i st s) = pr_failed s"
  by (simp_all add: set_sender_def map_update)

lemma set_closer_simps [simp]:
  "states (set_closer i cl s) = states s" "length (pr_senders (set_closer i cl s)) = length (pr_senders s)"
  "pr_signal (set_closer i cl s) = pr_signal s" "pr_waiting (set_closer i cl s) = pr_waiting s" "pr_errCh (set_closer i cl s) = pr_errCh s"
  "pr_result (set_closer i cl s) = pr_result s" "pr_failed (set_closer i cl s) = pr_failed s"
  by (simp_all add: set_closer_def map_update list_update_same_conv)
    (metis list_update_id map_update nth_map list_update_beyond linorder_not_less length_map)

lemma Controller_Run_error: "fst (Controller_Run synced) = Some e \<Longrightarrow> e = sync_timeout"
  by (auto simp: Controller_Run_def Let_def split: if_splits)

lemma reported_errors:
  "job_returns d cl job err \<Longrightarrow> after_job job err = Sending e \<Longrightarrow> \<not> is_ErrServerClosed e"
  by (cases job) (auto simp: after_ListenAndServe_def after_ControllerRun_def split: option.splits if_splits dest!: Controller_Run_error sym [of "Some _"])

lemma return_inv:
  assumes inv: "process_inv s" and i: "i < length (pr_senders s)" "sn_state (pr_senders s ! i) = Busy"
    and ret: "job_returns d cl job err" and st: "st = after_job job err"
  shows "process_inv (set_sender i st (s\<lparr>pr_failed := pr_failed s @ (case st of Sending e \<Rightarrow> [e] | _ \<Rightarrow> [])\<rparr>))"
proof -
  have busy: "i < length (states s)" "states s ! i = Busy" using i by simp_all
  have act: "active ((states s)[i := st]) \<le> active (states s)" using active_update(1) [OF busy(1), of st] busy(2) by simp
  have mem: "Sending e \<in> set ((states s)[i := st]) \<Longrightarrow> st = Sending e \<or> Sending e \<in> set (states s)" for e
    using set_update_subset_insert [of "states s" i st] by auto
  have other: "Sending e \<in> set (states s) \<Longrightarrow> Sending e \<in> set ((states s)[i := st])" for e
    using update_keeps_other [of "Sending e" "states s" i st] busy by simp
  have self: "st \<in> set ((states s)[i := st])" by (rule set_update_memI [OF busy(1)])
  have "st \<noteq> Busy" by (cases job; cases err) (auto simp: st after_ListenAndServe_def after_ControllerRun_def)
  then consider "st = Ended" | e where "st = Sending e" "\<not> is_ErrServerClosed e"
    using reported_errors [OF ret] st by (metis job_state.exhaust)
  then show ?thesis
  proof cases
    case 1
    then show ?thesis using inv act busy mem other i
      by (auto simp: process_inv_def outcome_ok_def split: option.splits)
  next
    case 2
    then show ?thesis using inv act busy mem self i
      by (auto simp: process_inv_def outcome_ok_def split: option.splits)
  qed
qed

lemma send_inv:
  assumes inv: "process_inv s" and i: "i < length (pr_senders s)" "sn_state (pr_senders s ! i) = Sending e"
  shows "process_inv (set_sender i Ended (s\<lparr>pr_errCh := pr_errCh s @ [e]\<rparr>))"
proof -
  have at: "i < length (states s)" "states s ! i = Sending e" using i by simp_all
  then have "Sending e \<in> set (states s)" by (metis nth_mem)
  moreover have "active ((states s)[i := Ended]) + 1 = active (states s)" using active_update [OF at(1)] at(2) by simp
  moreover have "Sending x \<in> set ((states s)[i := Ended]) \<Longrightarrow> Sending x \<in> set (states s)" for x
    using set_update_subset_insert [of "states s" i Ended] by auto
  ultimately show ?thesis using inv i by (auto simp: process_inv_def outcome_ok_def split: option.splits)
qed

lemma closer_inv: "process_inv (set_closer i cl s) = process_inv s"
  unfolding process_inv_def outcome_ok_def set_closer_simps ..

lemma process_step_inv:
  assumes "process_step a s s'" and "process_inv s"
  shows "process_inv s'"
  using assms(1)
proof cases
  case (proc_return i t err st)
  then show ?thesis using return_inv [OF assms(2), of i] by simp
next
  case (proc_send i e)
  then show ?thesis using send_inv [OF assms(2)] by simp
next
  case (proc_shutdown i)
  then show ?thesis using assms(2) by (simp add: closer_inv)
next
  case (proc_closed i n)
  then show ?thesis using assms(2) by (simp add: closer_inv)
next
  case (proc_select r rest)
  then consider "r = None" "rest = pr_errCh s" "ctx_done s" | e where "r = Some e" "pr_errCh s = e # rest"
    by (auto simp: select_cases_def split: if_splits list.splits)
  then show ?thesis using assms(2) proc_select(1-4) by cases (auto simp: process_inv_def outcome_ok_def ctx_done_def)
qed (use assms(2) in \<open>auto simp: process_inv_def outcome_ok_def ctx_done_def split: option.splits\<close>)

interpretation process_runs: preserved "\<lambda>s s'. \<exists>a\<in>A. process_step a s s'" process_inv for A
  by unfold_locales (auto intro: process_step_inv)

lemma fresh_inv: "list_all (\<lambda>t. sn_state t = Busy) ts \<Longrightarrow> process_inv (fresh_process waiting ts)"
  by (auto simp: process_inv_def fresh_process_def outcome_ok_def active_def list_all_iff)

text \<open>A signal ends \<open>Run\<close>; so does a failure, once the agent's caches are synced: the select finds it, at the latest after
  one send.\<close>

lemma signal_ends:
  assumes "pr_result s = None" and "pr_signal s"
  shows "\<exists>s'. process_step Main s s' \<and> pr_result s' \<noteq> None"
proof (cases "pr_waiting s")
  case True
  have "process_step Main s (s\<lparr>pr_result := Some (Some sync_timeout)\<rparr>)"
    using assms True by (intro proc_sync_failed) (simp_all add: ctx_done_def)
  then show ?thesis by (intro exI conjI) (assumption, simp)
next
  case False
  have "process_step Main s (s\<lparr>pr_result := Some None\<rparr>)"
    using assms False by (intro proc_done) (simp_all add: ctx_done_def)
  then show ?thesis by (intro exI conjI) (assumption, simp)
qed

lemma error_received:
  assumes "pr_errCh s \<noteq> []" and "pr_result s = None" and "\<not> pr_waiting s"
  shows "\<exists>s'. process_run {Goroutine, Main} s s' \<and> pr_result s' = Some (Some (hd (pr_errCh s)))"
proof -
  obtain e rest where e: "pr_errCh s = e # rest" using assms(1) by (cases "pr_errCh s") auto
  from proc_error [OF assms(2,3) e] have "\<exists>a\<in>{Goroutine, Main}. process_step a s (s\<lparr>pr_result := Some (Some e), pr_errCh := rest\<rparr>)"
    by blast
  then show ?thesis by (intro exI conjI) (rule r_into_rtranclp, assumption, simp add: e)
qed

lemma failure_ends:
  assumes inv: "process_inv s" and running: "pr_result s = None" "\<not> pr_waiting s" and why: "pr_failed s \<noteq> []"
  shows "\<exists>s' e. process_run {Goroutine, Main} s s' \<and> pr_result s' = Some (Some e) \<and> e \<in> set (pr_failed s)"
proof (cases "pr_errCh s = []")
  case False
  have "hd (pr_errCh s) \<in> set (pr_failed s)" using False inv by (auto simp: process_inv_def)
  with error_received [OF False running] show ?thesis by blast
next
  case True
  then obtain e where e: "Sending e \<in> set (states s)"
    using why inv running(1) by (auto simp: process_inv_def outcome_ok_def)
  then have failed: "e \<in> set (pr_failed s)" using inv by (auto simp: process_inv_def)
  from e obtain i where i: "i < length (pr_senders s)" "sn_state (pr_senders s ! i) = Sending e"
    by (auto simp: in_set_conv_nth)
  let ?s = "set_sender i Ended (s\<lparr>pr_errCh := pr_errCh s @ [e]\<rparr>)"
  have "process_step Goroutine s ?s" using i True by (intro proc_send) (simp_all add: errCh_capacity_def)
  then have step: "\<exists>a\<in>{Goroutine, Main}. process_step a s ?s" by blast
  obtain s' where run: "process_run {Goroutine, Main} ?s s'" and "pr_result s' = Some (Some e)"
    using error_received [of ?s] running True by auto
  with failed converse_rtranclp_into_rtranclp [of "\<lambda>s s'. \<exists>a\<in>{Goroutine, Main}. process_step a s s'", OF step run]
  show ?thesis by blast
qed

section \<open>How the programs end\<close>

lemma start_inv_process:
  "process_inv (agent_process o' ready)" "process_inv (controller_process c ready)"
  "length (pr_senders (agent_process o' ready)) \<le> errCh_capacity"
proof -
  have "list_all (\<lambda>t. sn_state t = Busy) (map (\<lambda>(addr, handler). StartHTTPServer addr handler) xs @ ts)"
    if "list_all (\<lambda>t. sn_state t = Busy) ts" for xs ts
    using that by (auto simp: list_all_iff StartHTTPServer_def)
  from this [of "[]"] this [of "[startControllerRun]"]
  show "process_inv (agent_process o' ready)" "process_inv (controller_process c ready)"
    unfolding agent_process_def controller_process_def by (simp_all add: fresh_inv startControllerRun_def)
  show "length (pr_senders (agent_process o' ready)) \<le> errCh_capacity"
    by (simp add: agent_process_def fresh_process_def agent_startHTTPServers_def errCh_capacity_def)
qed

lemma step_senders: "process_step a s s' \<Longrightarrow> length (pr_senders s') = length (pr_senders s)"
  by (induction rule: process_step.induct) simp_all

interpretation sender_count: preserved "\<lambda>s s'. \<exists>a\<in>A. process_step a s s'" "\<lambda>s. length (pr_senders s) = n" for A n
  by unfold_locales (auto simp: step_senders)

lemma sender_not_blocked:
  assumes "process_inv s" and "length (pr_senders s) \<le> errCh_capacity" and "Sending e \<in> set (states s)"
  shows "length (pr_errCh s) < errCh_capacity"
proof -
  obtain i where "i < length (states s)" "states s ! i = Sending e" using assms(3) by (metis in_set_conv_nth)
  then have "active (states s) > 0" using active_update(2) by simp
  then show ?thesis using assms(1,2) by (simp add: process_inv_def)
qed


text \<open>On a system other than Linux the programs end with status 0 only when help was asked for.\<close>

lemma unsupported_system:
  "snd (agent_main (Execute agent_Validate parse agent_NewOptions agent_Run_other)) = 0 \<longleftrightarrow> parse agent_NewOptions = HelpRequested"
  "snd (controller_main (controller_Execute parse' controller_Run_other)) = 0 \<longleftrightarrow> parse' controller_NewOptions = HelpRequested"
  by (auto simp: agent_main_def controller_main_def Execute_def controller_Execute_def parseArgs_def agent_Run_other_def
      controller_Run_other_def split: flag_result.splits option.splits if_splits)

text \<open>A health address that is taken: the agent reports it and ends with status 1.\<close>

abbreviation bind_error :: goerror where "bind_error \<equiv> ErrorString ''listen tcp 0.0.0.0:11256: bind: address already in use''"

lemma bind_run:
  "\<exists>s. process_run UNIV (agent_process agent_NewOptions False) s \<and> pr_result s = None \<and> \<not> pr_waiting s \<and> \<not> pr_signal s
    \<and> pr_failed s = [bind_error]"
proof -
  let ?s0 = "agent_process agent_NewOptions False"
  let ?s1 = "set_sender 0 (Sending bind_error) (?s0\<lparr>pr_failed := [bind_error]\<rparr>)"
  have s0: "0 < length (pr_senders ?s0)" "sn_state (pr_senders ?s0 ! 0) = Busy" "pr_failed ?s0 = []" "pr_errCh ?s0 = []" "pr_waiting ?s0"
    "pr_result ?s0 = None" "\<not> pr_signal ?s0" "\<exists>srv. sn_job (pr_senders ?s0 ! 0) = ListenAndServe srv"
    by (simp_all add: agent_process_def fresh_process_def agent_NewOptions_def agent_startHTTPServers_def StartHTTPServer_def)
  obtain srv where job: "sn_job (pr_senders ?s0 ! 0) = ListenAndServe srv" using s0 by blast
  have a: "process_step Outside ?s0 ?s1"
    using proc_return [OF s0(1) refl s0(2), of "Some bind_error" "Sending bind_error"]
    by (simp add: job after_ListenAndServe_def s0)
  have b: "process_step Outside ?s1 (?s1\<lparr>pr_waiting := False\<rparr>)" by (rule proc_synced) (simp_all add: s0)
  from a b have "process_run UNIV ?s0 (?s1\<lparr>pr_waiting := False\<rparr>)"
    by (intro rtranclp.rtrancl_into_rtrancl [OF rtranclp.rtrancl_into_rtrancl [OF rtranclp.rtrancl_refl]]) blast+
  then show ?thesis by (intro exI conjI) (assumption, simp_all add: s0)
qed


end
