(* ===== verification/SelectorApi.thy ===== *)
theory SelectorApi
  imports KubeTypes
begin

text \<open>
  The XEndpointSelector API of \<open>apis/v1alpha1\<close>: its names and registration (\<open>endpointselector_types.go\<close>, \<open>register.go\<close>) and
  the generated copies (\<open>zz_generated.deepcopy.go\<close>), over an explicit memory. Everywhere else objects are immutable
  values; this theory shows for the copies of this repository what makes that sound, that a copy shares nothing with
  its original. The locale \<open>deep_copy\<close> is the contract of a copy; the copies of the library's types are assumed to
  keep it (locale \<open>library_copies\<close>) and those generated here are proved to.
\<close>

section \<open>Identity of the API\<close>

definition EndpointSelectorConditionAccepted :: string where "EndpointSelectorConditionAccepted = ''Accepted''"
definition EndpointSelectorReasonAccepted :: string where "EndpointSelectorReasonAccepted = ''Accepted''"
definition EndpointSelectorReasonInvalid :: string where "EndpointSelectorReasonInvalid = ''Invalid''"

text \<open>The group is the constant \<open>''gateway.networking.x-k8s.io''\<close>, the version \<open>''v1alpha1''\<close>.\<close>

record GroupVersion =
  gv_Group :: string
  gv_Version :: string

record GroupResource =
  gr_Group :: string
  gr_Resource :: string

definition Group :: string where "Group = ''gateway.networking.x-k8s.io''"
definition Version :: string where "Version = ''v1alpha1''"
definition SchemeGroupVersion :: GroupVersion where "SchemeGroupVersion = \<lparr>gv_Group = Group, gv_Version = Version\<rparr>"

definition Resource :: "string \<Rightarrow> GroupResource" where
  "Resource resource = \<lparr>gr_Group = gv_Group SchemeGroupVersion, gr_Resource = resource\<rparr>"

text \<open>Registration in a scheme: the known kinds of a group and version; \<open>metav1.AddToGroupVersion\<close> is a parameter.\<close>

type_synonym scheme = "(GroupVersion \<times> string) set"

definition addKnownTypes :: "(GroupVersion \<Rightarrow> scheme \<Rightarrow> scheme) \<Rightarrow> scheme \<Rightarrow> goerror option \<times> scheme" where
  "addKnownTypes AddToGroupVersion scheme =
     (None, AddToGroupVersion SchemeGroupVersion
        (scheme \<union> {(SchemeGroupVersion, ''XEndpointSelector''), (SchemeGroupVersion, ''XEndpointSelectorList'')}))"

section \<open>Memory\<close>

text \<open>A slice is \<open>nil\<close> or the address of its array. Structs are values whose slices are addresses; what the
  Kubernetes library keeps behind the pointers of its own types \<open>'m\<close> (object metadata), \<open>'s\<close> (label selector) and
  \<open>'l\<close> (list metadata) is a cell \<open>'c\<close>.\<close>

record 's EndpointSelectorSpec =
  esp_Selector :: 's

record EndpointSelectorStatus =
  ess_Conditions :: "nat option"

record ('m, 's) selector_obj =
  xo_TypeMeta :: "string \<times> string"
  xo_ObjectMeta :: 'm
  xo_Spec :: "'s EndpointSelectorSpec"
  xo_Status :: EndpointSelectorStatus

record 'l XEndpointSelectorList =
  xl_TypeMeta :: "string \<times> string"
  xl_ListMeta :: 'l
  xl_Items :: "nat option"

datatype ('m, 's, 'c) cell = Conditions "Condition list" | Items "('m, 's) selector_obj list" | Library 'c

record ('m, 's, 'c) heap =
  cells :: "nat \<rightharpoonup> ('m, 's, 'c) cell"
  next_free :: nat

definition alloc :: "('m, 's, 'c) cell \<Rightarrow> ('m, 's, 'c) heap \<Rightarrow> nat \<times> ('m, 's, 'c) heap" where
  "alloc v h = (next_free h, h\<lparr>cells := (cells h)(next_free h \<mapsto> v), next_free := next_free h + 1\<rparr>)"

definition put :: "nat \<Rightarrow> ('m, 's, 'c) cell \<Rightarrow> ('m, 's, 'c) heap \<Rightarrow> ('m, 's, 'c) heap" where
  "put a v h = h\<lparr>cells := (cells h)(a \<mapsto> v)\<rparr>"

definition conditions_at :: "('m, 's, 'c) heap \<Rightarrow> nat \<Rightarrow> Condition list" where
  "conditions_at h a = (case cells h a of Some (Conditions cs) \<Rightarrow> cs | _ \<Rightarrow> [])"

definition items_at :: "('m, 's, 'c) heap \<Rightarrow> nat \<Rightarrow> ('m, 's) selector_obj list" where
  "items_at h a = (case cells h a of Some (Items xs) \<Rightarrow> xs | _ \<Rightarrow> [])"

section \<open>The generated copies\<close>

type_synonym ('a, 'm, 's, 'c) copier = "'a \<Rightarrow> ('m, 's, 'c) heap \<Rightarrow> 'a \<times> ('m, 's, 'c) heap"

text \<open>\<open>DeepCopyInto\<close> first copies the struct, which shares everything behind pointers, and then replaces each shared part.
  The copies of library types are parameters.\<close>

definition EndpointSelectorSpec_DeepCopyInto :: "('s, 'm, 's, 'c) copier \<Rightarrow> ('s EndpointSelectorSpec, 'm, 's, 'c) copier" where
  "EndpointSelectorSpec_DeepCopyInto copySelector x h =
     (let out = x; (sel, h) = copySelector (esp_Selector x) h in (out\<lparr>esp_Selector := sel\<rparr>, h))"

definition EndpointSelectorStatus_DeepCopyInto :: "(Condition \<Rightarrow> Condition) \<Rightarrow> (EndpointSelectorStatus, 'm, 's, 'c) copier" where
  "EndpointSelectorStatus_DeepCopyInto copyCondition x h =
     (let out = x in
      case ess_Conditions x of
        None \<Rightarrow> (out, h)
      | Some a \<Rightarrow> let (b, h) = alloc (Conditions (map copyCondition (conditions_at h a))) h in (out\<lparr>ess_Conditions := Some b\<rparr>, h))"

definition XEndpointSelector_DeepCopyInto ::
    "('m, 'm, 's, 'c) copier \<Rightarrow> ('s, 'm, 's, 'c) copier \<Rightarrow> (Condition \<Rightarrow> Condition) \<Rightarrow> (('m, 's) selector_obj, 'm, 's, 'c) copier" where
  "XEndpointSelector_DeepCopyInto copyMeta copySelector copyCondition x h =
     (let out = x;
          out = out\<lparr>xo_TypeMeta := xo_TypeMeta x\<rparr>;
          (meta, h) = copyMeta (xo_ObjectMeta x) h;
          (spec, h) = EndpointSelectorSpec_DeepCopyInto copySelector (xo_Spec x) h;
          (status, h) = EndpointSelectorStatus_DeepCopyInto copyCondition (xo_Status x) h in
      (out\<lparr>xo_ObjectMeta := meta, xo_Spec := spec, xo_Status := status\<rparr>, h))"

fun copy_items :: "('a, 'm, 's, 'c) copier \<Rightarrow> 'a list \<Rightarrow> ('m, 's, 'c) heap \<Rightarrow> 'a list \<times> ('m, 's, 'c) heap" where
  "copy_items copy [] h = ([], h)"
| "copy_items copy (x # xs) h = (let (y, h) = copy x h; (ys, h) = copy_items copy xs h in (y # ys, h))"

definition XEndpointSelectorList_DeepCopyInto ::
    "('l, 'm, 's, 'c) copier \<Rightarrow> (('m, 's) selector_obj, 'm, 's, 'c) copier \<Rightarrow> ('l XEndpointSelectorList, 'm, 's, 'c) copier" where
  "XEndpointSelectorList_DeepCopyInto copyList copyItem x h =
     (let out = x;
          out = out\<lparr>xl_TypeMeta := xl_TypeMeta x\<rparr>;
          (meta, h) = copyList (xl_ListMeta x) h;
          out = out\<lparr>xl_ListMeta := meta\<rparr> in
      case xl_Items x of
        None \<Rightarrow> (out, h)
      | Some a \<Rightarrow>
          let xs = items_at h a;
              (b, h) = alloc (Items []) h;
              (ys, h) = copy_items copyItem xs h in
          (out\<lparr>xl_Items := Some b\<rparr>, put b (Items ys) h))"

text \<open>\<open>DeepCopy\<close> and \<open>DeepCopyObject\<close>, on pointers.\<close>

definition DeepCopy :: "('a, 'm, 's, 'c) copier \<Rightarrow> ('a option, 'm, 's, 'c) copier" where
  "DeepCopy copyInto p h = (case p of None \<Rightarrow> (None, h) | Some x \<Rightarrow> let (out, h) = copyInto x h in (Some out, h))"

definition EndpointSelectorSpec_DeepCopy :: "('s, 'm, 's, 'c) copier \<Rightarrow> ('s EndpointSelectorSpec option, 'm, 's, 'c) copier" where
  "EndpointSelectorSpec_DeepCopy copySelector = DeepCopy (EndpointSelectorSpec_DeepCopyInto copySelector)"

definition EndpointSelectorStatus_DeepCopy :: "(Condition \<Rightarrow> Condition) \<Rightarrow> (EndpointSelectorStatus option, 'm, 's, 'c) copier" where
  "EndpointSelectorStatus_DeepCopy copyCondition = DeepCopy (EndpointSelectorStatus_DeepCopyInto copyCondition)"

definition XEndpointSelector_DeepCopy ::
    "('m, 'm, 's, 'c) copier \<Rightarrow> ('s, 'm, 's, 'c) copier \<Rightarrow> (Condition \<Rightarrow> Condition) \<Rightarrow> (('m, 's) selector_obj option, 'm, 's, 'c) copier" where
  "XEndpointSelector_DeepCopy copyMeta copySelector copyCondition = DeepCopy (XEndpointSelector_DeepCopyInto copyMeta copySelector copyCondition)"

definition XEndpointSelector_DeepCopyObject ::
    "('m, 'm, 's, 'c) copier \<Rightarrow> ('s, 'm, 's, 'c) copier \<Rightarrow> (Condition \<Rightarrow> Condition) \<Rightarrow> (('m, 's) selector_obj option, 'm, 's, 'c) copier" where
  "XEndpointSelector_DeepCopyObject copyMeta copySelector copyCondition p h =
     (case XEndpointSelector_DeepCopy copyMeta copySelector copyCondition p h of (Some c, h) \<Rightarrow> (Some c, h) | (None, h) \<Rightarrow> (None, h))"

definition XEndpointSelectorList_DeepCopy ::
    "('l, 'm, 's, 'c) copier \<Rightarrow> (('m, 's) selector_obj, 'm, 's, 'c) copier \<Rightarrow> ('l XEndpointSelectorList option, 'm, 's, 'c) copier" where
  "XEndpointSelectorList_DeepCopy copyList copyItem = DeepCopy (XEndpointSelectorList_DeepCopyInto copyList copyItem)"

definition XEndpointSelectorList_DeepCopyObject ::
    "('l, 'm, 's, 'c) copier \<Rightarrow> (('m, 's) selector_obj, 'm, 's, 'c) copier \<Rightarrow> ('l XEndpointSelectorList option, 'm, 's, 'c) copier" where
  "XEndpointSelectorList_DeepCopyObject copyList copyItem p h =
     (case XEndpointSelectorList_DeepCopy copyList copyItem p h of (Some c, h) \<Rightarrow> (Some c, h) | (None, h) \<Rightarrow> (None, h))"

section \<open>What a deep copy promises\<close>

definition extends :: "('m, 's, 'c) heap \<Rightarrow> ('m, 's, 'c) heap \<Rightarrow> bool" where
  "extends h h' \<longleftrightarrow> next_free h \<le> next_free h' \<and> (\<forall>a < next_free h. cells h' a = cells h a)"

lemma extends_trans: "extends h1 h2 \<Longrightarrow> extends h2 h3 \<Longrightarrow> extends h1 h3"
  by (simp add: extends_def)

lemma extends_refl: "extends h h"
  by (simp add: extends_def)

lemma alloc_extends: "alloc v h = (a, h') \<Longrightarrow> extends h h' \<and> a = next_free h \<and> next_free h' = Suc (next_free h) \<and> cells h' a = Some v"
  by (auto simp: alloc_def extends_def)

text \<open>\<open>view\<close> is the content of a value and \<open>foot\<close> the addresses it depends on. A copy has the same content, only new
  addresses, and changes nothing that was there.\<close>

locale deep_copy =
  fixes copy :: "('a, 'm, 's, 'c) copier" and view :: "('m, 's, 'c) heap \<Rightarrow> 'a \<Rightarrow> 'v" and foot :: "('m, 's, 'c) heap \<Rightarrow> 'a \<Rightarrow> nat set"
  assumes foot_local: "(\<And>a. a \<in> foot h x \<Longrightarrow> cells h' a = cells h a) \<Longrightarrow> view h' x = view h x \<and> foot h' x = foot h x"
    and copy_ok: "copy x h = (y, h') \<Longrightarrow> foot h x \<subseteq> {..<next_free h} \<Longrightarrow>
      extends h h' \<and> view h' y = view h x \<and> foot h' y \<subseteq> {next_free h..<next_free h'}"
begin

lemma view_extends:
  assumes "extends h h'" and "foot h x \<subseteq> {..<next_free h}"
  shows "view h' x = view h x" and "foot h' x = foot h x"
proof -
  have "cells h' a = cells h a" if "a \<in> foot h x" for a using assms that by (auto simp: extends_def)
  then show "view h' x = view h x" "foot h' x = foot h x" using foot_local by blast+
qed

text \<open>A copy made after other things were allocated, and a copy looked at after more was.\<close>

lemma copy_later:
  assumes "copy x h = (y, h')" and "extends h0 h" and "foot h0 x \<subseteq> {..<next_free h0}"
  shows "extends h h' \<and> view h' y = view h0 x \<and> foot h' y \<subseteq> {next_free h..<next_free h'}"
proof -
  note v = view_extends [OF assms(2,3)]
  have "foot h x \<subseteq> {..<next_free h}" unfolding v(2) using assms(2,3) by (auto simp: extends_def)
  from copy_ok [OF assms(1) this] show ?thesis by (simp add: v)
qed

lemma copy_stays:
  assumes "extends h h'" and "foot h y \<subseteq> {n..<next_free h}"
  shows "view h' y = view h y \<and> foot h' y = foot h y"
proof -
  have "foot h y \<subseteq> {..<next_free h}" using assms(2) by auto
  then show ?thesis using view_extends [OF assms(1)] by blast
qed

lemma view_put: "a \<notin> foot h x \<Longrightarrow> view (put a v h) x = view h x \<and> foot (put a v h) x = foot h x"
  by (rule foot_local) (auto simp: put_def)

text \<open>Writing to what the copy owns does not show in the original, nor the other way round.\<close>

lemma copy_independent:
  assumes "copy x h = (y, h')" and "foot h x \<subseteq> {..<next_free h}"
  shows "a \<in> foot h' y \<Longrightarrow> view (put a v h') x = view h x" and "a \<in> foot h x \<Longrightarrow> view (put a v h') y = view h x"
proof -
  note c = copy_ok [OF assms]
  then have x: "view h' x = view h x" "foot h' x = foot h x" using view_extends assms(2) by blast+
  have disj: "foot h' y \<inter> foot h x = {}" using c assms(2) by fastforce
  show "view (put a v h') x = view h x" if "a \<in> foot h' y"
    using view_put [of a h' x v] x that disj by auto
  show "view (put a v h') y = view h x" if "a \<in> foot h x"
    using view_put [of a h' y v] c that disj by auto
qed

lemma items_ok:
  assumes "copy_items copy xs h = (ys, h')" and "\<forall>x \<in> set xs. foot h x \<subseteq> {..<next_free h}"
  shows "extends h h' \<and> map (view h') ys = map (view h) xs \<and> (\<forall>y \<in> set ys. foot h' y \<subseteq> {next_free h..<next_free h'})"
  using assms
proof (induction xs arbitrary: ys h)
  case Nil
  then show ?case by (simp add: extends_refl)
next
  case (Cons x xs)
  obtain y h1 where one: "copy x h = (y, h1)" by (metis surj_pair)
  obtain zs where rest: "copy_items copy xs h1 = (zs, h')" "ys = y # zs"
    using Cons.prems(1) one by (auto split: prod.splits)
  have c: "extends h h1" "view h1 y = view h x" "foot h1 y \<subseteq> {next_free h..<next_free h1}"
    using copy_ok [OF one] Cons.prems(2) by auto
  have later: "\<forall>x \<in> set xs. foot h1 x \<subseteq> {..<next_free h1} \<and> view h1 x = view h x"
    using Cons.prems(2) view_extends [OF c(1)] c(1) by (fastforce simp: extends_def)
  then have IH: "extends h1 h' \<and> map (view h') zs = map (view h1) xs \<and> (\<forall>y \<in> set zs. foot h' y \<subseteq> {next_free h1..<next_free h'})"
    using Cons.IH [OF rest(1)] by blast
  have "foot h1 y \<subseteq> {..<next_free h1}" using c(3) by auto
  then have y: "view h' y = view h1 y" "foot h' y = foot h1 y" using view_extends IH by blast+
  have le: "next_free h \<le> next_free h1" "next_free h1 \<le> next_free h'" using c(1) IH by (simp_all add: extends_def)
  have "extends h h'" using extends_trans c(1) IH by blast
  moreover have "map (view h1) xs = map (view h) xs" using later by simp
  ultimately show ?case using IH y c le unfolding rest(2) by fastforce
qed

end

section \<open>The generated copies are deep\<close>

definition view_status :: "('m, 's, 'c) heap \<Rightarrow> EndpointSelectorStatus \<Rightarrow> Condition list option" where
  "view_status h x = map_option (conditions_at h) (ess_Conditions x)"

definition foot_status :: "('m, 's, 'c) heap \<Rightarrow> EndpointSelectorStatus \<Rightarrow> nat set" where
  "foot_status h x = set_option (ess_Conditions x)"

lemma status_deep:
  assumes "\<forall>c. copyCondition c = c"
  shows "deep_copy (EndpointSelectorStatus_DeepCopyInto copyCondition) view_status foot_status"
proof
  have id: "copyCondition = (\<lambda>c. c)" using assms by blast
  show "EndpointSelectorStatus_DeepCopyInto copyCondition x h = (y, h') \<Longrightarrow> foot_status h x \<subseteq> {..<next_free h} \<Longrightarrow>
      extends h h' \<and> view_status h' y = view_status h x \<and> foot_status h' y \<subseteq> {next_free h..<next_free h'}" for x y h h'
    by (auto simp: EndpointSelectorStatus_DeepCopyInto_def Let_def view_status_def foot_status_def conditions_at_def id extends_refl
        split: option.splits prod.splits dest!: alloc_extends)
  show "view_status h' x = view_status h x \<and> foot_status h' x = foot_status h x" if "\<And>a. a \<in> foot_status h x \<Longrightarrow> cells h' a = cells h a" for x h h'
    using that by (cases "ess_Conditions x") (auto simp: view_status_def foot_status_def conditions_at_def)
qed

interpretation status_copy: deep_copy "EndpointSelectorStatus_DeepCopyInto (\<lambda>c. c)" view_status foot_status
  by (rule status_deep) simp

text \<open>The library's copies of metadata and label selectors keep the contract; its condition is a flat struct.\<close>

locale library_copies =
  meta: deep_copy copyMeta viewMeta footMeta + sel: deep_copy copySelector viewSelector footSelector +
  lst: deep_copy copyList viewList footList
  for copyMeta :: "('m, 'm, 's, 'c) copier" and viewMeta :: "('m, 's, 'c) heap \<Rightarrow> 'm \<Rightarrow> 'vm" and footMeta :: "('m, 's, 'c) heap \<Rightarrow> 'm \<Rightarrow> nat set"
    and copySelector :: "('s, 'm, 's, 'c) copier" and viewSelector :: "('m, 's, 'c) heap \<Rightarrow> 's \<Rightarrow> 'vs" and footSelector :: "('m, 's, 'c) heap \<Rightarrow> 's \<Rightarrow> nat set"
    and copyList :: "('l, 'm, 's, 'c) copier" and viewList :: "('m, 's, 'c) heap \<Rightarrow> 'l \<Rightarrow> 'vl" and footList :: "('m, 's, 'c) heap \<Rightarrow> 'l \<Rightarrow> nat set" +
  fixes copyCondition :: "Condition \<Rightarrow> Condition"
  assumes copyCondition: "\<forall>c. copyCondition c = c"

definition view_selector ::
    "(('m, 's, 'c) heap \<Rightarrow> 'm \<Rightarrow> 'vm) \<Rightarrow> (('m, 's, 'c) heap \<Rightarrow> 's \<Rightarrow> 'vs) \<Rightarrow> ('m, 's, 'c) heap \<Rightarrow> ('m, 's) selector_obj \<Rightarrow>
      (string \<times> string) \<times> 'vm \<times> 'vs \<times> Condition list option" where
  "view_selector viewMeta viewSelector h x =
     (xo_TypeMeta x, viewMeta h (xo_ObjectMeta x), viewSelector h (esp_Selector (xo_Spec x)), view_status h (xo_Status x))"

definition foot_selector ::
    "(('m, 's, 'c) heap \<Rightarrow> 'm \<Rightarrow> nat set) \<Rightarrow> (('m, 's, 'c) heap \<Rightarrow> 's \<Rightarrow> nat set) \<Rightarrow> ('m, 's, 'c) heap \<Rightarrow> ('m, 's) selector_obj \<Rightarrow> nat set" where
  "foot_selector footMeta footSelector h x =
     footMeta h (xo_ObjectMeta x) \<union> footSelector h (esp_Selector (xo_Spec x)) \<union> foot_status h (xo_Status x)"

definition view_list ::
    "(('m, 's, 'c) heap \<Rightarrow> 'l \<Rightarrow> 'vl) \<Rightarrow> (('m, 's, 'c) heap \<Rightarrow> ('m, 's) selector_obj \<Rightarrow> 'v) \<Rightarrow> ('m, 's, 'c) heap \<Rightarrow>
      'l XEndpointSelectorList \<Rightarrow> (string \<times> string) \<times> 'vl \<times> 'v list option" where
  "view_list viewList viewItem h x =
     (xl_TypeMeta x, viewList h (xl_ListMeta x), map_option (\<lambda>a. map (viewItem h) (items_at h a)) (xl_Items x))"

definition foot_list ::
    "(('m, 's, 'c) heap \<Rightarrow> 'l \<Rightarrow> nat set) \<Rightarrow> (('m, 's, 'c) heap \<Rightarrow> ('m, 's) selector_obj \<Rightarrow> nat set) \<Rightarrow> ('m, 's, 'c) heap \<Rightarrow>
      'l XEndpointSelectorList \<Rightarrow> nat set" where
  "foot_list footList footItem h x = footList h (xl_ListMeta x)
     \<union> (case xl_Items x of None \<Rightarrow> {} | Some a \<Rightarrow> insert a (\<Union>i \<in> set (items_at h a). footItem h i))"

context library_copies
begin

lemma selector_copy_ok:
  assumes "XEndpointSelector_DeepCopyInto copyMeta copySelector copyCondition x h = (y, h')"
    and "foot_selector footMeta footSelector h x \<subseteq> {..<next_free h}"
  shows "extends h h' \<and> view_selector viewMeta viewSelector h' y = view_selector viewMeta viewSelector h x
    \<and> foot_selector footMeta footSelector h' y \<subseteq> {next_free h..<next_free h'}"
proof -
  obtain m h1 where m: "copyMeta (xo_ObjectMeta x) h = (m, h1)" by (metis surj_pair)
  obtain s h2 where s: "copySelector (esp_Selector (xo_Spec x)) h1 = (s, h2)" by (metis surj_pair)
  obtain t h3 where t: "EndpointSelectorStatus_DeepCopyInto copyCondition (xo_Status x) h2 = (t, h3)" by (metis surj_pair)
  have y: "h' = h3" "xo_TypeMeta y = xo_TypeMeta x" "xo_ObjectMeta y = m" "esp_Selector (xo_Spec y) = s" "xo_Status y = t"
    using assms(1) by (auto simp: XEndpointSelector_DeepCopyInto_def EndpointSelectorSpec_DeepCopyInto_def Let_def m s t)
  have foot: "footMeta h (xo_ObjectMeta x) \<subseteq> {..<next_free h}" "footSelector h (esp_Selector (xo_Spec x)) \<subseteq> {..<next_free h}"
    "foot_status h (xo_Status x) \<subseteq> {..<next_free h}" using assms(2) by (simp_all add: foot_selector_def)
  note cm = meta.copy_ok [OF m foot(1)]
  then have e1: "extends h h1" by simp
  note cs = sel.copy_later [OF s e1 foot(2)]
  then have e2: "extends h h2" and e12: "extends h1 h2" using extends_trans [OF e1] by blast+
  note ct = deep_copy.copy_later [OF status_deep [OF copyCondition] t e2 foot(3)]
  then have e23: "extends h2 h3" and e13: "extends h1 h3" using extends_trans [OF e12] by blast+
  have n: "next_free h \<le> next_free h1" "next_free h1 \<le> next_free h2" "next_free h2 \<le> next_free h3"
    using e1 e12 e23 by (simp_all add: extends_def)
  have "viewMeta h3 m = viewMeta h1 m \<and> footMeta h3 m = footMeta h1 m" using meta.copy_stays [OF e13] cm by blast
  moreover have "viewSelector h3 s = viewSelector h2 s \<and> footSelector h3 s = footSelector h2 s" using sel.copy_stays [OF e23] cs by blast
  ultimately have "view_selector viewMeta viewSelector h3 y = view_selector viewMeta viewSelector h x"
    "foot_selector footMeta footSelector h3 y \<subseteq> {next_free h..<next_free h3}"
    using cm cs ct n by (auto simp: view_selector_def foot_selector_def y)
  then show ?thesis using y(1) extends_trans [OF e1 e13] by simp
qed

lemma selector_local:
  assumes "\<And>a. a \<in> foot_selector footMeta footSelector h x \<Longrightarrow> cells h' a = cells h a"
  shows "view_selector viewMeta viewSelector h' x = view_selector viewMeta viewSelector h x
    \<and> foot_selector footMeta footSelector h' x = foot_selector footMeta footSelector h x"
proof -
  have "view_status h' (xo_Status x) = view_status h (xo_Status x) \<and> foot_status h' (xo_Status x) = foot_status h (xo_Status x)"
    using deep_copy.foot_local [OF status_deep [OF copyCondition], of h "xo_Status x" h'] assms by (auto simp: foot_selector_def)
  moreover have "viewMeta h' (xo_ObjectMeta x) = viewMeta h (xo_ObjectMeta x) \<and> footMeta h' (xo_ObjectMeta x) = footMeta h (xo_ObjectMeta x)"
    using meta.foot_local [of h "xo_ObjectMeta x" h'] assms by (auto simp: foot_selector_def)
  moreover have "viewSelector h' (esp_Selector (xo_Spec x)) = viewSelector h (esp_Selector (xo_Spec x))
      \<and> footSelector h' (esp_Selector (xo_Spec x)) = footSelector h (esp_Selector (xo_Spec x))"
    using sel.foot_local [of h "esp_Selector (xo_Spec x)" h'] assms by (auto simp: foot_selector_def)
  ultimately show ?thesis by (simp add: view_selector_def foot_selector_def)
qed

end

sublocale library_copies \<subseteq> item: deep_copy "XEndpointSelector_DeepCopyInto copyMeta copySelector copyCondition"
    "view_selector viewMeta viewSelector" "foot_selector footMeta footSelector"
  by unfold_locales (rule selector_local, assumption, rule selector_copy_ok)

context library_copies
begin

abbreviation copyItem :: "(('m, 's) selector_obj, 'm, 's, 'c) copier" where
  "copyItem \<equiv> XEndpointSelector_DeepCopyInto copyMeta copySelector copyCondition"

abbreviation viewItem :: "('m, 's, 'c) heap \<Rightarrow> ('m, 's) selector_obj \<Rightarrow> (string \<times> string) \<times> 'vm \<times> 'vs \<times> Condition list option" where
  "viewItem \<equiv> view_selector viewMeta viewSelector"

abbreviation footItem :: "('m, 's, 'c) heap \<Rightarrow> ('m, 's) selector_obj \<Rightarrow> nat set" where
  "footItem \<equiv> foot_selector footMeta footSelector"

lemma items_at_local: "cells h' a = cells h a \<Longrightarrow> items_at h' a = items_at h a"
  by (simp add: items_at_def)

lemma array_copy_ok:
  assumes "alloc (Items []) h = (b, h1)" and "copy_items copyItem xs h1 = (ys, h2)" and "extends h0 h"
    and "\<forall>x \<in> set xs. footItem h0 x \<subseteq> {..<next_free h0}"
  shows "extends h (put b (Items ys) h2)" and "items_at (put b (Items ys) h2) b = ys" and "b = next_free h" "b < next_free h2"
    and "map (viewItem (put b (Items ys) h2)) ys = map (viewItem h0) xs"
    and "y \<in> set ys \<Longrightarrow> footItem (put b (Items ys) h2) y \<subseteq> {next_free h..<next_free h2}"
proof -
  note a = alloc_extends [OF assms(1)]
  have e01: "extends h0 h1" using extends_trans [OF assms(3)] a by blast
  have x: "footItem h1 x \<subseteq> {..<next_free h1} \<and> viewItem h1 x = viewItem h0 x" if "x \<in> set xs" for x
  proof -
    have "footItem h0 x \<subseteq> {..<next_free h0}" "next_free h0 \<le> next_free h1" using assms(4) that e01 by (auto simp: extends_def)
    then show ?thesis using item.view_extends [OF e01, of x] by auto
  qed
  have c: "extends h1 h2" "map (viewItem h2) ys = map (viewItem h1) xs" "\<forall>y \<in> set ys. footItem h2 y \<subseteq> {next_free h1..<next_free h2}"
    using item.items_ok [OF assms(2)] x by blast+
  have put: "viewItem (put b (Items ys) h2) y = viewItem h2 y \<and> footItem (put b (Items ys) h2) y = footItem h2 y" if "y \<in> set ys" for y
    by (rule item.view_put) (use a c(3) that in force)
  show "items_at (put b (Items ys) h2) b = ys" by (simp add: items_at_def put_def)
  show "b = next_free h" "b < next_free h2" using a c(1) by (auto simp: extends_def)
  show "extends h (put b (Items ys) h2)" using a c(1) by (auto simp: extends_def put_def)
  show "map (viewItem (put b (Items ys) h2)) ys = map (viewItem h0) xs" using put c(2) x by (metis (mono_tags, lifting) map_eq_conv)
  show "footItem (put b (Items ys) h2) y \<subseteq> {next_free h..<next_free h2}" if "y \<in> set ys" using put [OF that] c(3) that a by fastforce
qed

lemma list_copy_ok:
  assumes "XEndpointSelectorList_DeepCopyInto copyList copyItem x h = (y, h')"
    and foot: "foot_list footList footItem h x \<subseteq> {..<next_free h}"
  shows "extends h h' \<and> view_list viewList viewItem h' y = view_list viewList viewItem h x
    \<and> foot_list footList footItem h' y \<subseteq> {next_free h..<next_free h'}"
proof -
  obtain m h1 where m: "copyList (xl_ListMeta x) h = (m, h1)" by (metis surj_pair)
  have cm: "extends h h1" "viewList h1 m = viewList h (xl_ListMeta x)" "footList h1 m \<subseteq> {next_free h..<next_free h1}"
    using lst.copy_ok [OF m] foot by (simp_all add: foot_list_def)
  show ?thesis
  proof (cases "xl_Items x")
    case None
    then show ?thesis using assms(1) cm by (auto simp: XEndpointSelectorList_DeepCopyInto_def Let_def m view_list_def foot_list_def)
  next
    case (Some a)
    have a: "a < next_free h" "\<forall>i \<in> set (items_at h a). footItem h i \<subseteq> {..<next_free h}"
      using foot Some by (auto simp: foot_list_def)
    then have at: "items_at h1 a = items_at h a" using cm(1) by (intro items_at_local) (simp add: extends_def)
    obtain b h2 where b: "alloc (Items []) h1 = (b, h2)" by (metis surj_pair)
    obtain ys h3 where ys: "copy_items copyItem (items_at h a) h2 = (ys, h3)" by (metis surj_pair)
    note arr = array_copy_ok [OF b ys cm(1) a(2)]
    let ?h = "put b (Items ys) h3"
    have y: "h' = ?h" "xl_TypeMeta y = xl_TypeMeta x" "xl_ListMeta y = m" "xl_Items y = Some b"
      using assms(1) by (auto simp: XEndpointSelectorList_DeepCopyInto_def Let_def m Some at b ys)
    have m': "viewList ?h m = viewList h1 m \<and> footList ?h m = footList h1 m" using lst.copy_stays [OF arr(1)] cm(3) by blast
    have "extends h ?h" using extends_trans [OF cm(1) arr(1)] .
    moreover have n: "next_free h \<le> next_free h1" "next_free h1 \<le> next_free ?h" "next_free ?h = next_free h3"
      using cm(1) arr(1) by (auto simp: extends_def put_def)
    moreover have "view_list viewList viewItem ?h y = view_list viewList viewItem h x"
      using m' cm(2) arr(2,5) y Some by (simp add: view_list_def)
    moreover have "foot_list footList footItem ?h y \<subseteq> {next_free h..<next_free ?h}"
    proof -
      have "footList ?h m \<subseteq> {next_free h..<next_free ?h}" "b \<in> {next_free h..<next_free ?h}" using m' cm(3) arr(3,4) n by auto
      moreover have "footItem ?h z \<subseteq> {next_free h..<next_free ?h}" if "z \<in> set ys" for z using arr(6) [OF that] n by fastforce
      ultimately show ?thesis by (auto simp: foot_list_def y(3,4) arr(2))
    qed
    ultimately show ?thesis unfolding y(1) by blast
  qed
qed

lemma list_local:
  assumes "\<And>a. a \<in> foot_list footList footItem h x \<Longrightarrow> cells h' a = cells h a"
  shows "view_list viewList viewItem h' x = view_list viewList viewItem h x
    \<and> foot_list footList footItem h' x = foot_list footList footItem h x"
proof -
  have l: "viewList h' (xl_ListMeta x) = viewList h (xl_ListMeta x) \<and> footList h' (xl_ListMeta x) = footList h (xl_ListMeta x)"
    using lst.foot_local [of h "xl_ListMeta x" h'] assms by (auto simp: foot_list_def)
  show ?thesis
  proof (cases "xl_Items x")
    case None
    then show ?thesis using l by (simp add: view_list_def foot_list_def)
  next
    case (Some a)
    then have at: "items_at h' a = items_at h a" using assms by (intro items_at_local) (simp add: foot_list_def)
    have "viewItem h' i = viewItem h i \<and> footItem h' i = footItem h i" if "i \<in> set (items_at h a)" for i
      by (rule item.foot_local) (use assms Some that in \<open>auto simp: foot_list_def\<close>)
    then show ?thesis using l Some at by (simp add: view_list_def foot_list_def)
  qed
qed

end

sublocale library_copies \<subseteq> items: deep_copy "XEndpointSelectorList_DeepCopyInto copyList copyItem"
    "view_list viewList viewItem" "foot_list footList footItem"
  by unfold_locales (rule list_local, assumption, rule list_copy_ok)

text \<open>A library whose values are the addresses of what they hold.\<close>

definition copy_cell :: "(nat option, 'm, 's, 'c) copier" where
  "copy_cell p h =
     (case p of
        None \<Rightarrow> (None, h)
      | Some a \<Rightarrow> (case cells h a of Some (Library c) \<Rightarrow> let (b, h) = alloc (Library c) h in (Some b, h) | _ \<Rightarrow> (None, h)))"

definition view_cell :: "('m, 's, 'c) heap \<Rightarrow> nat option \<Rightarrow> 'c option" where
  "view_cell h p = (case p of None \<Rightarrow> None | Some a \<Rightarrow> (case cells h a of Some (Library c) \<Rightarrow> Some c | _ \<Rightarrow> None))"

lemma copy_cell_deep: "deep_copy copy_cell view_cell (\<lambda>h. set_option)"
proof
  show "extends h h' \<and> view_cell h' y = view_cell h x \<and> set_option y \<subseteq> {next_free h..<next_free h'}"
    if "copy_cell x h = (y, h')" for x y and h h' :: "('m, 's, 'c) heap"
    using that by (auto simp: copy_cell_def view_cell_def extends_refl Let_def split: option.splits cell.splits prod.splits dest!: alloc_extends)
qed (auto simp: view_cell_def split: option.splits)

interpretation api_copies: library_copies copy_cell view_cell "\<lambda>h. set_option" copy_cell view_cell "\<lambda>h. set_option"
    copy_cell view_cell "\<lambda>h. set_option" "\<lambda>c. c"
  by (intro library_copies.intro library_copies_axioms.intro copy_cell_deep) simp

section \<open>Pointers\<close>

text \<open>A nil pointer gives a nil pointer and leaves the memory alone, and \<open>DeepCopyObject\<close> is \<open>DeepCopy\<close>.\<close>

lemma DeepCopy_nil: "DeepCopy copyInto p h = (None, h') \<longleftrightarrow> p = None \<and> h' = h"
  by (auto simp: DeepCopy_def Let_def split: option.splits prod.splits)

lemma DeepCopyObject_eq:
  "XEndpointSelector_DeepCopyObject copyMeta copySelector copyCondition = XEndpointSelector_DeepCopy copyMeta copySelector copyCondition"
  "XEndpointSelectorList_DeepCopyObject copyList copyItem = XEndpointSelectorList_DeepCopy copyList copyItem"
  by (auto simp: fun_eq_iff XEndpointSelector_DeepCopyObject_def XEndpointSelectorList_DeepCopyObject_def split: option.splits prod.splits)

text \<open>What the controller relies on when it writes the conditions of \<open>selector.DeepCopy()\<close>: the cached selector keeps its own.\<close>

lemma status_written_on_copy:
  assumes "EndpointSelectorStatus_DeepCopyInto (\<lambda>c. c) x h = (y, h')" and "ess_Conditions x = Some a" "a < next_free h"
  obtains b where "ess_Conditions y = Some b" "conditions_at h' b = conditions_at h a"
    "\<And>v. view_status (put b v h') x = view_status h x"
proof -
  have foot: "foot_status h x \<subseteq> {..<next_free h}" using assms(2,3) by (simp add: foot_status_def)
  obtain b where b: "ess_Conditions y = Some b"
    using assms(1,2) by (auto simp: EndpointSelectorStatus_DeepCopyInto_def Let_def split: prod.splits)
  have "conditions_at h' b = conditions_at h a"
    using status_copy.copy_ok [OF assms(1) foot] assms(2) b by (simp add: view_status_def)
  moreover have "view_status (put b v h') x = view_status h x" for v
    by (rule status_copy.copy_independent(1) [OF assms(1) foot]) (simp add: foot_status_def b)
  ultimately show ?thesis using b that by blast
qed

section \<open>The controller's names\<close>

text \<open>The constants the controller repeats are those of the API.\<close>

lemma api_group: "endpointSelectorAPIGroup = Group" "gr_Group (Resource r) = endpointSelectorAPIGroup"
  by (simp_all add: endpointSelectorAPIGroup_def Group_def Resource_def SchemeGroupVersion_def)

end
