(* ===== verification/Spec2Isabelle.thy ===== *)
theory Spec2Isabelle
  imports SyncLoop PacketPath Progress DnsPlugin Processes SelectorApi
begin

text \<open>
  \<^bold>\<open>A verification of clusterip-gw.\<close> The program gives Kubernetes Gateways a virtual IP inside the cluster. It has
  three processes that meet only through the objects of the API server:

  \<^item> the \<^emph>\<open>controller\<close> (\<open>internal/controller\<close>) watches GatewayClasses, Gateways, TCPRoutes, XEndpointSelectors, pods,
    EndpointSlices, IPAddresses and ServiceCIDRs. Event handlers put keys into four work queues; workers take
    keys and reconcile: they accept or refuse Gateways and routes, reserve a virtual IP as an IPAddress object,
    write statuses, and keep one EndpointSlice per Gateway listener with the ready pods of its selector;
  \<^item> the \<^emph>\<open>agent\<close> (\<open>internal/agent\<close>) runs on every node, tracks Gateways and EndpointSlices, and replaces an nftables
    table so that packets for a virtual IP are translated to a backend;
  \<^item> the \<^emph>\<open>DNS plugin\<close> (\<open>plugin/k8s_clusterip_gw\<close>) answers names of Gateways with their addresses.

  \<^bold>\<open>Theories and sources.\<close>

  \<^item> \<open>Prelude\<close> (map orders, stable sorting by key, calls that change the world, \<open>for_each\<close>), \<open>GoStrings\<close>, \<open>GoNet\<close>,
    \<open>GoNetip\<close>, \<open>GoHash\<close>: what the code uses of the Go library (strconv, strings, net, net/netip, SHA). \<open>KubeTypes\<close>:
    the API types with the fields the code reads, \<open>gatewaymeta/meta.go\<close> and the constants of \<open>controller.go\<close>.
    \<open>Samples\<close>: objects for witnesses. The locale \<open>preserved\<close> of \<open>Prelude\<close> is the contract of an invariant of a step
    relation; the sync loop, the controller and the processes interpret it.
  \<^item> \<open>SelectorApi\<close> (\<open>apis/v1alpha1\<close>): names, registration and the generated deep copies, over an explicit memory. The
    locale \<open>deep_copy\<close> is the contract of a copy; \<open>library_copies\<close> assumes it for the library's types and passes it on to
    the generated copies.
  \<^item> \<open>AgentState\<close> (\<open>internal/agent/state\<close>): the two change trackers and their snapshots. The locale \<open>change_tracker\<close>
    is their contract (an update changes the entry of one key, a snapshot does not depend on map order); both
    trackers interpret it.
  \<^item> \<open>Nftables\<close> (\<open>nftables/netlink.go\<close>): ruleset specifications, rule expressions, queueing and applying.
    \<open>NftBatch\<close>: the command list this amounts to. \<open>PacketPath\<close>: what that list does to a packet at a hook: tables, base
    chains with hook and priority, rules, maps, and the kind of translation.
  \<^item> \<open>Proxier\<close> (\<open>nftables/proxier.go\<close>): handlers, desired ruleset, \<open>sync\<close> with its early returns as \<open>sync_gate\<close>. \<open>SyncLoop\<close>: the
    loop as a step relation in which informer handlers, the clock and the loop interleave. Steps are labelled with who takes
    them, and an applier that records its calls shows what was applied and when.
  \<^item> \<open>ControllerTypes\<close> (\<open>reconcile_types.go\<close>, the Controller struct as the record of caches and API calls), \<open>Status\<close>
    (\<open>status.go\<close>), \<open>Indexers\<close> (\<open>indexers.go\<close>, with the locale \<open>object_kind\<close> for conversions of cached objects,
    interpreted for all seven kinds and the two of the agent), \<open>IPAM\<close> (\<open>ipam.go\<close>), \<open>Listeners\<close> and \<open>GatewayReconcile\<close>
    (\<open>gateway_reconcile.go\<close>), \<open>RouteReconcile\<close> (\<open>route_reconcile.go\<close>), \<open>EndpointSelectorReconcile\<close>
    (\<open>endpointselector_reconcile.go\<close>).
  \<^item> \<open>Handlers\<close> (\<open>handlers.go\<close>): which keys an event enqueues. \<open>Workers\<close> (\<open>workers.go\<close>, \<open>New\<close> and \<open>Run\<close> of
    \<open>controller.go\<close>): the round of a worker as phases, its loop, and the controller as a step relation of the same phases,
    of cache updates, of handlers that run some time after their event, and of the API server. \<open>Progress\<close>: how the
    workers work off their queue by steps of their own.
  \<^item> \<open>DnsPlugin\<close> (\<open>plugin.go\<close>, \<open>store.go\<close>, \<open>setup.go\<close>). \<open>AppOptions\<close> (\<open>apputil/network.go\<close>, \<open>clientconfig.go\<close>, both
    \<open>app/options.go\<close> and the starts in both \<open>app/server_linux.go\<close>). \<open>Processes\<close> (\<open>apputil/httpserver.go\<close>, the end of \<open>Run\<close> in
    both \<open>app/server_linux.go\<close>, \<open>app/server_other.go\<close>, \<open>cmd/*/main.go\<close>): servers, controller, signals and the final select
    as a step relation over the error channel, labelled with who takes a step.

  \<^bold>\<open>State and effects.\<close> A struct is a record, an interface value a datatype, an \<open>int32\<close> or a port a word. An error is a
  value of \<open>goerror\<close>, a panic is the error \<open>Panic\<close>. A call to the API server, to netlink or to a DNS writer is a
  function over an arbitrary world \<open>'w\<close> that is a field of an environment record: it may answer anything, and may
  answer differently each time. Informer caches are fields too and are read-only during one reconcile. Where Go
  ranges over a map, the order is an argument constrained to be a permutation of the keys.

  \<^bold>\<open>Hypotheses on code outside the repository\<close> are named: \<open>conn_batches\<close>, \<open>conn_fresh\<close>, \<open>encoders_api\<close> (netlink library),
  \<open>condition_api\<close> (\<open>SetStatusCondition\<close>), \<open>ip_api\<close>, \<open>ip_delete_api\<close> (a delete may fail, and touches no other object),
  \<open>slice_api\<close> (API server), \<open>index_api\<close>, \<open>indexed_caches\<close>, \<open>cache_change\<close>, \<open>informer_event\<close> (informers), \<open>workqueue_api\<close>, \<open>workqueue_counts\<close>,
  \<open>workqueue_drains\<close>, \<open>workqueue_serves\<close> (client-go queues), \<open>dns_api\<close>. Each has a concrete instance in a witness. \<open>job_returns\<close> says when a server of net/http can return what, and
  \<open>library_copies\<close> what the deep copies of library types do.

  \<^bold>\<open>What is shown.\<close>

  \<^item> \<^emph>\<open>Agent.\<close> Snapshots after any events hold exactly the supported listeners and ready endpoints; the ruleset is
    their join and independent of map order; the queued batch is a fixed list, refers only to what it created, and
    translates the destination of exactly the packets of live listeners at its two hooks, to their backends. In every
    interleaving no update is lost, a pending sync wakes the loop once the caches are synced, the loop and the clock alone
    catch up, and completed syncs keep their distance.
  \<^item> \<^emph>\<open>Controller.\<close> Listener, route and Gateway evaluation decide the documented conditions; an address handed out is
    inside a ready ServiceCIDR, free, the first such, and only reserved under the finalizer; refused Gateways and
    deleted ones give addresses back before their status or finalizer is touched, also when a delete fails; slices converge,
    but are written again by every reconcile once the API server has filled in their port names; statuses settle. Handlers
    enqueue exactly the keys of their specification; whatever interleaving of cache updates, handlers and workers, a Gateway
    outside its queue, not held by a worker and not about to be woken is settled, no key has two workers, failures are retried
    with rate limiting, the workers alone can work off what is queued, and they stop after shutdown.
  \<^item> \<^emph>\<open>Plugin and start.\<close> Query names round-trip, answers carry exactly the addresses of the named Gateway, or SERVFAIL while the cache cannot answer; validated
    options start the agent; a set-up plugin has one zone, its start hook does not panic, and its shutdown stops what its
    start began. The programs return the error of a failed server or of an interrupted start, nil only after a signal,
    and return by steps of their own after a signal or, with synced caches, a failure. A generated deep copy has the content of its original and shares no
    memory with it, which is why objects can be immutable values in all other theories.
  \<^item> \<^emph>\<open>Together\<close> (end of this theory and \<open>desired_slice_reaches_agent\<close>): what the controller publishes for an accepted
    Gateway makes the agent serve it from the ready pods and the plugin resolve it to the same address.

  \<^bold>\<open>Termination and bounds.\<close> All definitions are total; \<open>alloc_loop\<close> has a measure on the remaining addresses. The only
  loop that need not end, \<open>runWorker\<close>, is a partial function whose termination after shutdown is a theorem. The jump
  depth in \<open>PacketPath\<close> is an argument; three levels suffice and the kernel allows sixteen.

  \<^bold>\<open>Not modelled.\<close> Logging and metrics; the bodies of the flag library, of net/http, of the client library (clients,
  informer factories) and of CoreDNS, which are parameters; the type names \<open>%T\<close> prints into panic messages. A health
  handler is shown as what it answers for the readiness at the time of the request. The errors \<open>Run\<close> returns before its
  servers start are those of \<open>agent_start\<close> and \<open>controller_app_start\<close>; the step relation of \<open>Processes\<close> begins after them. A
  reconcile is one step of the controller relation: its API calls are not interleaved with those of other workers, but
  the world and the caches may change between any two steps, and a worker is interrupted between the phases of its round. What
  the settled Gateways of \<open>Workers\<close> leave out is the list of all taken addresses, which wakes nobody. A key waits for its retry delay inside the queue, so
  \<open>Progress\<close> speaks of the keys the queue can hand out now. The selector store holds unstructured objects only, as the
  dynamic informer delivers them.
\<close>

section \<open>From the controller's status to the agent and the DNS plugin\<close>

text \<open>The object the Gateway reconciler publishes after a successful allocation.\<close>

definition published :: "'w cluster \<Rightarrow> Gateway \<Rightarrow> GatewayClass option \<Rightarrow> TCPRoute list \<Rightarrow> string \<Rightarrow> Gateway" where
  "published c g cls routes vip = gatewayWithStatus c g (withVIP c g (evaluateGateway c g cls routes) (Inr vip))"

lemma published_fields:
  "gw_Meta (published c g cls routes vip) = gw_Meta g" "gw_Listeners (published c g cls routes vip) = gw_Listeners g"
  "gw_GatewayClassName (published c g cls routes vip) = gw_GatewayClassName g"
  "gw_Addresses (published c g cls routes vip) = (if vip = [] then [] else [\<lparr>ga_Type = Some ''IPAddress'', ga_Value = vip\<rparr>])"
  by (simp_all add: published_def gatewayWithStatus_def withVIP_def)

text \<open>The controller accepts no Gateway the agent would refuse once it has its address.\<close>

lemma published_supported:
  assumes "ge_valid (evaluateGateway c g cls routes)" and "gw_Namespace g \<noteq> []" "gw_Name g \<noteq> []"
    and "om_DeletionTimestamp (gw_Meta g) = None" and "gw_GatewayClassName g = GatewayClassName" and "vip \<noteq> []"
  shows "gatewaySupported (published c g cls routes vip)"
proof -
  have "glv_valid (validateGatewayListeners c (Some g))"
    using evaluateGateway_cases [where c = c and g = g and routes = routes and cls = cls] assms(1) by (auto simp: Let_def)
  then show ?thesis
    using assms(2-) unfolding gatewaySupported_iff validateGatewayListeners_Some(1)
    by (auto simp: published_fields listener_supported_def list_all_iff)
qed

lemma published_addresses:
  assumes "length b = 4"
  shows "ipv4Addresses (Some (published c g cls routes (ipv4_String b))) = [b]"
    and "To4 (ParseIP (ga_Value (hd (gw_Addresses (published c g cls routes (ipv4_String b)))))) = b"
    and "ipv4_String b \<noteq> []"
proof -
  show ne: "ipv4_String b \<noteq> []" using To4_ParseIP_String [OF assms] assms by (auto simp: ParseIP_def ParseAddr_def)
  then show "ipv4Addresses (Some (published c g cls routes (ipv4_String b))) = [b]"
    "To4 (ParseIP (ga_Value (hd (gw_Addresses (published c g cls routes (ipv4_String b)))))) = b"
    using assms by (auto simp: ipv4Addresses_def ipv4_loop_eq published_fields)
qed

text \<open>Slices the API server keeps apart from what it adds to them: only the content matters to the agent.\<close>

lemma slice_view_agent:
  assumes "slice_view s = slice_view d" and "label (es_Meta d) GatewayNamespaceLabelKey \<noteq> []"
  shows "frontendKeyForEndpointSlice (Some s) = frontendKeyForEndpointSlice (Some d)" and "slice_endpoints s = slice_endpoints d"
proof -
  have v: "om_Labels (es_Meta s) = om_Labels (es_Meta d)" "es_AddressType s = es_AddressType d" "es_Endpoints s = es_Endpoints d"
    and ports: "map (\<lambda>p. (ep_Protocol p, ep_Port p)) (es_Ports s) = map (\<lambda>p. (ep_Protocol p, ep_Port p)) (es_Ports d)"
    using assms(1) by (simp_all add: slice_view_def)
  from ports have "map port_admitted (es_Ports s) = map port_admitted (es_Ports d)"
    by (auto simp: list_eq_iff_nth_eq port_admitted_def)
  then have "map (\<lambda>x. f (port_admitted x)) (es_Ports s) = map (\<lambda>x. f (port_admitted x)) (es_Ports d)" for f :: "int32 option \<Rightarrow> Endpoint list"
    by (metis (no_types, lifting) list.map_comp comp_apply map_eq_conv)
  from this [of "\<lambda>a. case a of None \<Rightarrow> [] | Some n \<Rightarrow> concat (map (addr_endpoints n) (ready_addresses (es_Endpoints d)))"]
  show "slice_endpoints s = slice_endpoints d" unfolding slice_endpoints_def v by simp
  show "frontendKeyForEndpointSlice (Some s) = frontendKeyForEndpointSlice (Some d)"
    using assms(2) by (simp add: frontendKeyForEndpointSlice_def v Let_def)
qed

lemma filed_endpoints:
  assumes "range_order (ect_slices t) order" and "ect_slices t k = Some s" and "frontendKeyForEndpointSlice (Some s) = Some fk"
    and "\<And>k' s'. ect_slices t k' = Some s' \<Longrightarrow> frontendKeyForEndpointSlice (Some s') = Some fk \<Longrightarrow> k' = k"
  shows "set (map_get [] (EndpointsChangeTracker_Snapshot order t) fk) = set (slice_endpoints s)"
proof -
  have "set (map_get [] (EndpointsChangeTracker_Snapshot order t) fk) = set (key_endpoints t fk order)"
    by (simp add: map_get_def EndpointsChangeTracker_Snapshot_eq)
  moreover have "k \<in> set order" using range_orderD(2) [OF assms(1)] assms(2) by auto
  ultimately show ?thesis unfolding set_eq_iff set_key_endpoints using assms(2-) by (metis option.inject)
qed

text \<open>The backends the agent derives from the endpoints of a slice the controller wrote.\<close>

lemma usable_pod_endpoints:
  assumes "set eps = (\<lambda>pod. \<lparr>ept_IP = ipv4_String (To4 (ParseIP (pod_PodIP pod))), ept_Port = sint port\<rparr>) ` selected_pods matches pods"
    and "toUint16Port (sint port) = Some p"
  shows "set (List.map_filter usable_endpoint eps) = (\<lambda>pod. (To4 (ParseIP (pod_PodIP pod)), p)) ` selected_pods matches pods"
proof -
  have "usable_endpoint \<lparr>ept_IP = ipv4_String (To4 (ParseIP (pod_PodIP pod))), ept_Port = sint port\<rparr>
      = Some (To4 (ParseIP (pod_PodIP pod)), p)" if "pod \<in> selected_pods matches pods" for pod
    using that assms(2) by (simp add: usable_endpoint_def selected_pods_def length_To4)
  then show ?thesis unfolding set_eq_iff map_filter_mem assms(1) by (auto simp: image_iff)
qed

text \<open>C2: End to end, from an accepted Gateway to packets and names. Let the controller reconcile a live Gateway
  of this class that passes the evaluation and owns no address yet, and let the allocation succeed. Then
  the object it publishes carries exactly the address the allocation reserved in an IPAddress object, and,
  once the agent has seen that object and the one slice the selector reconciler wrote for a listener, in whatever order events arrived, the ruleset has a
  service chain for that listener at the published address and the listener's port, whose backends are
  exactly the ready pods of the selector with the backend port; and the DNS plugin, once its cache has that
  object, resolves the Gateway to the same address. The two reconciles may read different caches.\<close>

theorem accepted_gateway_is_served:
  assumes gateway: "getGateway c key = Inr g" "gw_GatewayClassName g = GatewayClassName"
      "om_DeletionTimestamp (gw_Meta g) = None" "gw_Namespace g \<noteq> []" "gw_Name g \<noteq> []"
    and reads: "ensureGatewayFinalizer c g w = (Inr False, w1)" "getGatewayClass c = Inr cls"
      "listRoutesForGateway c (gateway_key g) = Inr routes"
    and accepted: "ge_valid (evaluateGateway c g cls routes)"
    and vip: "listOwnedGatewayIPAddresses c (gateway_key g) = Inr []" "ensureGatewayVIP c g w1 = (Inr vip, w2)"
    and pods: "LabelSelectorAsSelector c' (xs_Selector selector) = Inr matches"
      "pods_List c' (om_Namespace (xs_Meta selector)) = Inr pods" "buildEndpointSliceEndpoints c' selector = Inr eps"
      "selected_pods matches pods \<noteq> {}"
    and agent: "NewProxier cfg = Inr p0" "valid_orders (fold handle es p0) ro"
      "last_gateway (gateway_events es) (gateway_key g) = Some (published c g cls routes vip)"
    and listener: "l \<in> set (gw_Listeners g)" "toUint16Port (sint (l_Port l)) = Some port" "toUint16Port (sint backendPort) = Some bport"
    and slice_seen: "last_slice (slice_events es) k = Some s"
      "slice_view s = slice_view (desiredEndpointSlice selector g (l_Name l) backendPort eps)"
      "{k'. \<exists>s'. last_slice (slice_events es) k' = Some s'
         \<and> frontendKeyForEndpointSlice (Some s') = Some (FrontendKey (gateway_key g) (l_Name l))} \<subseteq> {k}"
    and dns: "gs_GetByKey store (gw_Namespace g @ ''/'' @ gw_Name g) = Inr (Some (published c g cls routes vip))"
  shows "\<exists>v backends.
    reconcileGateway c key w =
      (if gatewayStatusEqual g (published c g cls routes vip) then (None, w2)
       else Gateways_UpdateStatus c (published c g cls routes vip) w2)
    \<and> (\<exists>w'. IPAddresses_Create c (gatewayIPAddress g (Addr4 (be_bytes4 v))) w' = (None, w2))
    \<and> vip = ipv4_String (be_bytes4 v)
    \<and> gw_Addresses (published c g cls routes vip) = [\<lparr>ga_Type = Some ''IPAddress'', ga_Value = vip\<rparr>]
    \<and> service_spec (FrontendKey (gateway_key g) (l_Name l)) (be_bytes4 v) port backends
        \<in> set (rs_serviceChains (desiredRulesetLocked ro (fold handle es p0)))
    \<and> set backends = (\<lambda>pod. (To4 (ParseIP (pod_PodIP pod)), bport)) ` selected_pods matches pods
    \<and> lookupGateway store (gw_Namespace g) (gw_Name g) = Inr [be_bytes4 v]"
proof -
  let ?g = "published c g cls routes vip" and ?fk = "FrontendKey (gateway_key g) (l_Name l)"
  let ?t = "fold slice_update (slice_events es) NewEndpointsChangeTracker"
  let ?d = "desiredEndpointSlice selector g (l_Name l) backendPort eps"
  obtain v where v: "vip = ipv4_String (be_bytes4 v)"
    and reserved: "\<exists>w'. IPAddresses_Create c (gatewayIPAddress g (Addr4 (be_bytes4 v))) w' = (None, w2)"
    using ensureGatewayVIP_alloc [OF vip] unfolding host_def by blast
  have addr: "ipv4Addresses (Some ?g) = [be_bytes4 v]" "To4 (ParseIP (ga_Value (hd (gw_Addresses ?g)))) = be_bytes4 v" "vip \<noteq> []"
    unfolding v by (rule published_addresses, simp)+
  have sup: "gatewaySupported ?g" using published_supported [OF accepted gateway(4,5,3,2) addr(3)] .
  have ns: "label (es_Meta ?d) GatewayNamespaceLabelKey \<noteq> []" using gateway(4) by (simp add: desired_slice_labels)
  have eps: "eps = go_sort endpoint_order (List.map_filter endpointForPod (filter (\<lambda>pod. matches (om_Labels (pod_Meta pod))) pods))"
    using buildEndpointSliceEndpoints_Inr [OF pods(1,2)] pods(3) by simp
  have seps: "set (slice_endpoints s) = (\<lambda>pod. \<lparr>ept_IP = ipv4_String (To4 (ParseIP (pod_PodIP pod))), ept_Port = sint backendPort\<rparr>)
      ` selected_pods matches pods"
    unfolding slice_view_agent(2) [OF slice_seen(2) ns] by (rule desired_slice_endpoints) (simp add: eps set_selected_endpoints)
  have filed: "frontendKeyForEndpointSlice (Some s) = Some ?fk"
    unfolding slice_view_agent(1) [OF slice_seen(2) ns]
    using gateway(4,5) by (simp add: frontendKeyForEndpointSlice_def desired_slice_labels)
  have order: "range_order (ect_slices ?t) (ro_slices ro)"
    using agent(2) NewProxier_trackers [OF agent(1)] by (simp add: valid_orders_def run_trackers)
  define backends where "backends = List.map_filter usable_endpoint (map_get [] (EndpointsChangeTracker_Snapshot (ro_slices ro) ?t) ?fk)"
  have "set (map_get [] (EndpointsChangeTracker_Snapshot (ro_slices ro) ?t) ?fk) = set (slice_endpoints s)"
    using filed_endpoints [OF order, unfolded slices_content_run, OF slice_seen(1) filed] slice_seen(3) by blast
  then have b: "set backends = (\<lambda>pod. (To4 (ParseIP (pod_PodIP pod)), bport)) ` selected_pods matches pods"
    unfolding backends_def using seps by (intro usable_pod_endpoints [OF _ listener(3)]) simp
  then have "backends \<noteq> []" using pods(4) by auto
  then have "service_spec ?fk (be_bytes4 v) port backends \<in> set (rs_serviceChains (desiredRulesetLocked ro (fold handle es p0)))"
    unfolding programmed_services_iff [OF agent(1,2)]
    using agent(3) sup listener(1,2) addr(2)
    by (intro exI [of _ ?g] exI [of _ l]) (auto simp: published_fields(1-3) backends_def be_bytes4_def)
  moreover have "lookupGateway store (gw_Namespace g) (gw_Name g) = Inr [be_bytes4 v]"
    unfolding lookupGateway_def dns using gateway(2,3) addr(1) by (simp add: published_fields gatewayClassName_def GatewayClassName_def)
  moreover have "reconcileGateway c key w = (if gatewayStatusEqual g ?g then (None, w2) else Gateways_UpdateStatus c ?g w2)"
    unfolding reconcileGateway_live [OF gateway(1-3) reads]
    using accepted vip(2) by (simp add: updateGatewayStatus_def published_def Let_def)
  moreover have "gw_Addresses ?g = [\<lparr>ga_Type = Some ''IPAddress'', ga_Value = vip\<rparr>]"
    using addr(3) by (simp add: published_fields)
  ultimately show ?thesis using b v reserved by blast
qed

text \<open>The demo Gateway, its selector and its pod, through both programs.\<close>

theorem accepted_gateway_is_served_witness:
  "\<exists>eps v ro backends.
     let g = published demo_cluster demo_gateway (Some sample_class) [sample_route] ''10.96.0.2'';
         events = [GatewayAdded g, EndpointSliceAdded (desiredEndpointSlice demo_selector demo_gateway ''tcp'' 8080 eps)];
         store = \<lparr>gs_HasSynced = True, gs_GetByKey = (\<lambda>_. Inr (Some g))\<rparr>
     in ''10.96.0.2'' = ipv4_String (be_bytes4 v) \<and> service_spec (FrontendKey sample_nn ''tcp'') (be_bytes4 v) 80 backends
          \<in> set (rs_serviceChains (desiredRulesetLocked ro (fold handle events sample_proxier)))
        \<and> set backends = {([10, 0, 0, 2], 8080)} \<and> lookupGateway store ''default'' ''demo'' = Inr [be_bytes4 v]"
proof -
  let ?g = "published demo_cluster demo_gateway (Some sample_class) [sample_route] ''10.96.0.2''"
  obtain eps where eps: "buildEndpointSliceEndpoints (slices_cluster []) demo_selector = Inr eps"
    using buildEndpointSliceEndpoints_Inr [OF slices_cluster_reads(2,3)] by blast
  let ?d = "desiredEndpointSlice demo_selector demo_gateway ''tcp'' 8080 eps"
  let ?es = "[GatewayAdded ?g, EndpointSliceAdded ?d]"
  obtain ro where ro: "valid_orders (fold handle ?es sample_proxier) ro" using valid_orders_exist [OF NewProxier_sample] by blast
  have pods: "selected_pods (\<lambda>_. True) [demo_pod] = {demo_pod}"
    by (auto simp: selected_pods_def demo_pod_def sample_meta_def emptyMeta_def sample_ips)
  have gw: "last_gateway (gateway_events ?es) (gateway_key demo_gateway) = Some ?g"
    by (simp add: last_gateway_def gateway_events_def List.map_filter_simps gateway_target_def published_fields)
  have slices: "last_slice (slice_events ?es) = [meta_key (es_Meta ?d) \<mapsto> ?d]"
    by (auto simp: fun_eq_iff last_slice_def slice_events_def List.map_filter_simps slice_target_def slice_outcome_def)
  have l: "sample_listener \<in> set (gw_Listeners demo_gateway)" "l_Name sample_listener = ''tcp''"
    "toUint16Port (sint (l_Port sample_listener)) = Some 80" "toUint16Port (sint (8080 :: int32)) = Some 8080"
    by (simp_all add: demo_fields sample_defs toUint16Port_def)
  let ?store = "\<lparr>gs_HasSynced = True, gs_GetByKey = (\<lambda>_. Inr (Some ?g))\<rparr>"
  have seen: "last_slice (slice_events ?es) (meta_key (es_Meta ?d)) = Some ?d"
    "slice_view ?d = slice_view (desiredEndpointSlice demo_selector demo_gateway (l_Name sample_listener) 8080 eps)"
    "gs_GetByKey ?store (gw_Namespace demo_gateway @ ''/'' @ gw_Name demo_gateway) = Inr (Some ?g)"
    unfolding slices l(2) by simp_all
  have only: "{k'. \<exists>s'. last_slice (slice_events ?es) k' = Some s'
      \<and> frontendKeyForEndpointSlice (Some s') = Some (FrontendKey (gateway_key demo_gateway) (l_Name sample_listener))}
      \<subseteq> {meta_key (es_Meta ?d)}"
    unfolding slices by (auto split: if_splits)
  have ne: "gw_Namespace demo_gateway \<noteq> []" "gw_Name demo_gateway \<noteq> []" "selected_pods (\<lambda>_. True) [demo_pod] \<noteq> {}"
    by (simp_all add: demo_fields pods)
  obtain v backends where
    "''10.96.0.2'' = ipv4_String (be_bytes4 v)"
    "service_spec (FrontendKey (gateway_key demo_gateway) (l_Name sample_listener)) (be_bytes4 v) 80 backends
       \<in> set (rs_serviceChains (desiredRulesetLocked ro (fold handle ?es sample_proxier)))"
    "set backends = (\<lambda>pod. (To4 (ParseIP (pod_PodIP pod)), 8080)) ` selected_pods (\<lambda>_. True) [demo_pod]"
    "lookupGateway ?store (gw_Namespace demo_gateway) (gw_Name demo_gateway) = Inr [be_bytes4 v]"
    using accepted_gateway_is_served [OF demo_reads(1) demo_fields(4,5) ne(1,2) demo_finalizer demo_reads(2,3) demo_valid demo_reads(4)
        demo_alloc slices_cluster_reads(2,3) eps ne(3) NewProxier_sample ro gw l(1,3,4) seen(1,2) only seen(3)]
    by blast
  moreover have "To4 (ParseIP (pod_PodIP demo_pod)) = [10, 0, 0, 2]" by (simp add: demo_pod_def sample_ips)
  ultimately show ?thesis
    unfolding Let_def pods demo_fields l(2) by (intro exI [of _ eps] exI [of _ v] exI [of _ ro] exI [of _ backends]) simp
qed

end
